(* ===== verification/Go_Prelude.thy ===== *)
theory Go_Prelude
  imports Main "HOL-Library.Word" "HOL-Library.Multiset" "HOL-Library.AList"
begin

text \<open>
  What the components share: the parts of the Go language and its standard library that the
  SDK uses (fixed-width integers, durations, \<^verbatim>\<open>errors\<close>, buffered channels, panics, decimal
  formatting), the generic lemmas on lists and sums, and the interface \<open>safety_system\<close>
  through which every interleaving model of the development proves its invariants.

  \<^item> A Go \<^verbatim>\<open>int\<close> or \<^verbatim>\<open>int64\<close> is an \<open>int\<close>; where an operation can leave the range, the
    wrap-around is written out with \<open>wrap32\<close> or \<open>wrap64\<close>.
  \<^item> \<^verbatim>\<open>error\<close> is \<open>err option\<close> (\<open>None\<close> is \<^verbatim>\<open>nil\<close>) and a \<^verbatim>\<open>(T, error)\<close> result is
    \<open>err + 'a\<close>.
  \<^item> A buffered channel is its queue, its capacity and whether it was closed; sending
    on a closed channel and closing twice panic, as in Go.
\<close>

named_theorems go_defs \<open>definitions of the language primitives\<close>
named_theorems env_defs \<open>definitions of the calls into external code\<close>

section \<open>Fixed-width integers and durations\<close>

definition wrap32 :: "int \<Rightarrow> int" where
  "wrap32 x = signed_take_bit 31 x"

definition wrap64 :: "int \<Rightarrow> int" where
  "wrap64 x = signed_take_bit 63 x"

definition in_int32 :: "int \<Rightarrow> bool" where
  "in_int32 x \<longleftrightarrow> - (2 ^ 31) \<le> x \<and> x < 2 ^ 31"

definition in_int64 :: "int \<Rightarrow> bool" where
  "in_int64 x \<longleftrightarrow> - (2 ^ 63) \<le> x \<and> x < 2 ^ 63"

definition maxInt32 :: int where
  "maxInt32 = 2147483647"

text \<open>Go's integer division truncates towards zero.\<close>

definition go_div :: "int \<Rightarrow> int \<Rightarrow> int" where
  "go_div a b = sgn a * sgn b * (\<bar>a\<bar> div \<bar>b\<bar>)"

type_synonym duration = int

definition millisecond :: duration where
  "millisecond = 1000000"

definition second :: duration where
  "second = 1000000000"

definition minute :: duration where
  "minute = 60 * second"

text \<open>\<^verbatim>\<open>time.Duration.Milliseconds\<close>.\<close>

definition milliseconds :: "duration \<Rightarrow> int" where
  "milliseconds d = go_div d millisecond"

lemma wrap32_word: "wrap32 x = sint (word_of_int x :: 32 word)"
  by (simp add: wrap32_def signed_of_int)

lemma wrap32_range [simp]: "in_int32 (wrap32 x)"
  using signed_take_bit_int_greater_eq_minus_exp [of 31 x] signed_take_bit_int_less_exp [of 31 x]
  by (simp add: wrap32_def in_int32_def)

lemma wrap32_id [simp]: "in_int32 x \<Longrightarrow> wrap32 x = x"
  by (simp add: wrap32_def in_int32_def signed_take_bit_int_eq_self)

lemma wrap64_id [simp]: "in_int64 x \<Longrightarrow> wrap64 x = x"
  by (simp add: wrap64_def in_int64_def signed_take_bit_int_eq_self)

lemma milliseconds_pos: "0 \<le> d \<Longrightarrow> milliseconds d = d div 1000000"
  by (cases "d = 0") (auto simp: milliseconds_def go_div_def millisecond_def sgn_if)

lemma milliseconds_nonneg: "0 \<le> d \<Longrightarrow> 0 \<le> milliseconds d"
  by (simp add: milliseconds_pos)

section \<open>Decimal formatting: the verb d of fmt.Sprintf\<close>

definition digit_char :: "nat \<Rightarrow> char" where
  "digit_char d = char_of (48 + d)"

fun show_nat :: "nat \<Rightarrow> string" where
  "show_nat n = (if n < 10 then [digit_char n] else show_nat (n div 10) @ [digit_char (n mod 10)])"

declare show_nat.simps [simp del]

definition show_int :: "int \<Rightarrow> string" where
  "show_int i = (if i < 0 then CHR ''-'' # show_nat (nat (- i)) else show_nat (nat i))"

definition read_nat :: "string \<Rightarrow> nat" where
  "read_nat s = foldl (\<lambda>a c. 10 * a + (of_char c - 48)) 0 s"

lemma of_char_digit: "d < 10 \<Longrightarrow> of_char (digit_char d) = 48 + (d :: nat)"
  by (simp add: digit_char_def of_char_of)

lemma read_show_nat [simp]: "read_nat (show_nat n) = n"
proof (induction n rule: show_nat.induct)
  case (1 n)
  show ?case
  proof (cases "n < 10")
    case True
    then show ?thesis by (simp add: show_nat.simps [of n] read_nat_def of_char_digit)
  next
    case False
    then have "read_nat (show_nat n) = 10 * read_nat (show_nat (n div 10)) + n mod 10"
      by (simp add: show_nat.simps [of n] read_nat_def of_char_digit)
    with 1 False show ?thesis by simp
  qed
qed

lemma show_nat_nonempty [simp]: "show_nat n \<noteq> []"
  by (subst show_nat.simps) simp

section \<open>Errors\<close>

text \<open>
  \<open>ErrNew\<close> is \<^verbatim>\<open>errors.New\<close> (and \<^verbatim>\<open>fmt.Errorf\<close> without a wrapped error), \<open>ErrWrap\<close> is
  \<^verbatim>\<open>fmt.Errorf\<close> with the wrapping verb, \<open>ErrJoin\<close> is \<^verbatim>\<open>errors.Join\<close>; then the sentinel
  errors the code tests for or returns, and \<open>ErrLib\<close> for any other error of external code.
\<close>

datatype err =
    ErrNew string
  | ErrWrap string err
  | ErrJoin "err list"
  | Canceled
  | DeadlineExceeded
  | NetErrClosed
  | AmqpErrClosed
  | ErrLib string

text \<open>\<^verbatim>\<open>errors.Is\<close>: the error itself or one it wraps.\<close>

fun errors_is :: "err \<Rightarrow> err \<Rightarrow> bool" where
  "errors_is t (ErrWrap m e) = (t = ErrWrap m e \<or> errors_is t e)"
| "errors_is t (ErrJoin es) = (t = ErrJoin es \<or> list_ex (errors_is t) es)"
| "errors_is t e = (t = e)"

text \<open>\<^verbatim>\<open>errors.Join\<close>: discards nil errors, nil when nothing is left.\<close>

definition errors_join :: "err option list \<Rightarrow> err option" where
  "errors_join es = (case List.map_filter id es of [] \<Rightarrow> None | xs \<Rightarrow> Some (ErrJoin xs))"

text \<open>The same when the first error is known not to be nil.\<close>

definition join_err :: "err \<Rightarrow> err option list \<Rightarrow> err" where
  "join_err e es = ErrJoin (e # List.map_filter id es)"

text \<open>The pattern \<^verbatim>\<open>err != nil && !errors.Is(err, target)\<close>.\<close>

definition is_other_err :: "err \<Rightarrow> err option \<Rightarrow> bool" where
  "is_other_err t e = (case e of None \<Rightarrow> False | Some x \<Rightarrow> \<not> errors_is t x)"

definition wrap_err :: "string \<Rightarrow> err option \<Rightarrow> err option" where
  "wrap_err m e = map_option (ErrWrap m) e"

lemma errors_join_Some [simp]: "errors_join (Some e # es) \<noteq> None"
  by (simp add: errors_join_def map_filter_simps)

lemma errors_join_join_err: "errors_join (Some e # es) = Some (join_err e es)"
  by (simp add: errors_join_def join_err_def map_filter_simps)

lemma errors_join_None_iff: "errors_join es = None \<longleftrightarrow> set es \<subseteq> {None}"
  by (induction es) (auto simp: errors_join_def map_filter_simps split: option.splits list.splits)

lemma errors_join_is:
  "Some e \<in> set es \<Longrightarrow> errors_is t e \<Longrightarrow> \<exists>j. errors_join es = Some j \<and> errors_is t j"
proof -
  assume e: "Some e \<in> set es" and t: "errors_is t e"
  from e have m: "e \<in> set (List.map_filter id es)"
    by (induction es) (auto simp: map_filter_simps split: option.splits)
  with t have "list_ex (errors_is t) (List.map_filter id es)"
    by (auto simp: list_ex_iff)
  with m show ?thesis by (auto simp: errors_join_def split: list.splits)
qed

section \<open>Buffered channels\<close>

record 'a gochan =
  buf :: "'a list"
  cap :: nat
  chan_closed :: bool

datatype 'a send_result = Sent "'a gochan" | SendBlocks | SendPanics
datatype 'a recv_result = Received 'a "'a gochan" | RecvClosed | RecvBlocks

definition make_chan :: "nat \<Rightarrow> 'a gochan" where [go_defs]:
  "make_chan n = \<lparr>buf = [], cap = n, chan_closed = False\<rparr>"

definition chan_send :: "'a gochan \<Rightarrow> 'a \<Rightarrow> 'a send_result" where [go_defs]:
  "chan_send c x =
     (if chan_closed c then SendPanics
      else if length (buf c) < cap c then Sent (c\<lparr>buf := buf c @ [x]\<rparr>)
      else SendBlocks)"

text \<open>A closed channel still yields what is buffered; only then is it reported closed.\<close>

definition chan_recv :: "'a gochan \<Rightarrow> 'a recv_result" where [go_defs]:
  "chan_recv c =
     (case buf c of
        x # xs \<Rightarrow> Received x (c\<lparr>buf := xs\<rparr>)
      | [] \<Rightarrow> if chan_closed c then RecvClosed else RecvBlocks)"

text \<open>Closing a closed channel panics (\<open>None\<close>).\<close>

definition chan_close :: "'a gochan \<Rightarrow> 'a gochan option" where [go_defs]:
  "chan_close c = (if chan_closed c then None else Some (c\<lparr>chan_closed := True\<rparr>))"

section \<open>How a call ends\<close>

text \<open>A call returns, panics, or never returns because a channel operation blocks for ever.\<close>

datatype 'a outcome = Returns 'a | Panics string | Blocks

text \<open>Running one call after another, with the state both thread through.\<close>

definition obind :: "'a outcome \<times> 's \<Rightarrow> ('a \<Rightarrow> 's \<Rightarrow> 'b outcome \<times> 's) \<Rightarrow> 'b outcome \<times> 's" where
  "obind r f =
     (case r of
        (Returns x, s) \<Rightarrow> f x s
      | (Panics m, s) \<Rightarrow> (Panics m, s)
      | (Blocks, s) \<Rightarrow> (Blocks, s))"

lemma obind_simps [simp]:
  "obind (Returns x, s) f = f x s"
  "obind (Panics m, s) f = (Panics m, s)"
  "obind (Blocks, s) f = (Blocks, s)"
  by (simp_all add: obind_def)

section \<open>Sums over lists of threads\<close>

lemma sum_list_map_update:
  fixes f :: "'a \<Rightarrow> nat"
  assumes "i < length xs"
  shows "sum_list (map f (xs[i := x])) + f (xs ! i) = sum_list (map f xs) + f x"
  using assms
proof (induction xs arbitrary: i)
  case (Cons a xs)
  then show ?case by (cases i) auto
qed simp

text \<open>The sum without the entry at a position, to which any new entry there is added.\<close>

lemma sum_list_split:
  fixes f :: "'a \<Rightarrow> 'b :: comm_monoid_add"
  assumes "i < length xs"
  shows "\<exists>rest. sum_list (map f xs) = rest + f (xs ! i) \<and> (\<forall>x. sum_list (map f (xs[i := x])) = rest + f x)"
proof (intro exI conjI allI)
  let ?rest = "sum_list (map f (take i xs)) + sum_list (map f (drop (Suc i) xs))"
  show "sum_list (map f xs) = ?rest + f (xs ! i)"
    by (subst id_take_nth_drop [OF assms]) (simp add: ac_simps)
  show "sum_list (map f (xs[i := x])) = ?rest + f x" for x
    using assms by (simp add: upd_conv_take_nth_drop ac_simps)
qed

lemma two_in_sum:
  fixes f :: "'a \<Rightarrow> nat"
  assumes "i < length xs" "j < length xs" "i \<noteq> j"
  shows "f (xs ! i) + f (xs ! j) \<le> sum_list (map f xs)"
proof -
  have "sum (\<lambda>k. f (xs ! k)) {i, j} \<le> sum (\<lambda>k. f (xs ! k)) {0..<length xs}"
    by (rule sum_mono2) (use assms in auto)
  with assms show ?thesis by (simp add: sum_list_sum_nth)
qed

lemma positive_part:
  fixes f :: "'a \<Rightarrow> nat"
  shows "sum_list (map f xs) \<noteq> 0 \<Longrightarrow> \<exists>x\<in>set xs. f x \<noteq> 0"
  by (induction xs) auto

lemma zero_part:
  fixes f :: "'a \<Rightarrow> nat"
  assumes "sum_list (map f xs) = 0" "x \<in> set xs"
  shows "f x = 0"
  using assms by (auto simp: sum_list_eq_0_iff)

text \<open>After one thread moved and started others: the thread, a new one, or one that did not move.\<close>

lemma set_update_cases:
  assumes "h \<in> set (xs[i := g] @ new)"
  obtains "h = g" | "h \<in> set new" | j where "j < length xs" "j \<noteq> i" "h = xs ! j"
  using assms by (auto simp: in_set_conv_nth nth_list_update split: if_splits) (metis nth_list_update_neq nth_list_update_eq)

section \<open>Reachable states and invariants\<close>

inductive reach :: "('s \<Rightarrow> bool) \<Rightarrow> ('s \<Rightarrow> 's \<Rightarrow> bool) \<Rightarrow> 's \<Rightarrow> bool"
  for I :: "'s \<Rightarrow> bool" and T :: "'s \<Rightarrow> 's \<Rightarrow> bool" where
  reach_init: "I s \<Longrightarrow> reach I T s"
| reach_step: "reach I T s \<Longrightarrow> T s t \<Longrightarrow> reach I T t"

text \<open>
  The contract of every interleaving model: an invariant that holds initially and is kept by
  each step. What it gives is the invariant in every reachable state and, for a run, that the
  states along it stay reachable.
\<close>

locale safety_system =
  fixes init :: "'s \<Rightarrow> bool"
    and step :: "'s \<Rightarrow> 's \<Rightarrow> bool"
    and invariant :: "'s \<Rightarrow> bool"
  assumes init_inv: "init s \<Longrightarrow> invariant s"
    and step_inv: "invariant s \<Longrightarrow> step s t \<Longrightarrow> invariant t"
begin

lemma reach_inv: "reach init step s \<Longrightarrow> invariant s"
  by (induction rule: reach.induct) (auto intro: init_inv step_inv)

lemma steps_inv: "step\<^sup>*\<^sup>* s t \<Longrightarrow> invariant s \<Longrightarrow> invariant t"
  by (induction rule: rtranclp_induct) (auto intro: step_inv)

end

lemma reach_steps: "step\<^sup>*\<^sup>* s t \<Longrightarrow> reach I step s \<Longrightarrow> reach I step t"
  by (induction rule: rtranclp_induct) (auto intro: reach_step)

text \<open>
  The contract of a system that comes to rest: each step keeps \<open>P\<close> and lowers \<open>load\<close>, so a run is
  no longer than the load it starts with, and some state without a step is reached.
\<close>

locale winding_system =
  fixes step :: "'s \<Rightarrow> 's \<Rightarrow> bool"
    and P :: "'s \<Rightarrow> bool"
    and load :: "'s \<Rightarrow> nat"
  assumes winds: "P s \<Longrightarrow> step s t \<Longrightarrow> P t \<and> load t < load s"
begin

lemma run_bound: "(step ^^ n) s t \<Longrightarrow> P s \<Longrightarrow> P t \<and> n + load t \<le> load s"
proof (induction n arbitrary: t)
  case (Suc n)
  then obtain u where "(step ^^ n) s u" "step u t" by auto
  with Suc winds [of u t] show ?case by fastforce
qed simp

lemma run_keeps: "step\<^sup>*\<^sup>* s t \<Longrightarrow> P s \<Longrightarrow> P t"
  by (induction rule: rtranclp_induct) (auto dest: winds)

lemma run_ends: "P s \<Longrightarrow> \<exists>t. step\<^sup>*\<^sup>* s t \<and> (\<nexists>u. step t u)"
proof (induction "load s" arbitrary: s rule: less_induct)
  case less
  show ?case
  proof (cases "\<exists>u. step s u")
    case True
    then obtain u where "step s u" ..
    with less winds [of s u] show ?thesis by (meson converse_rtranclp_into_rtranclp)
  qed auto
qed

end

end
