(* ===== verification/Huma_Types.thy ===== *)
theory Huma_Types
  imports Go_Prelude
begin

text \<open>
  The data of the SDK: \<^verbatim>\<open>types.go\<close> (queue and SDK configuration, constants, the heartbeat
  message), the AMQP tables, deliveries and publishings of the client library that this data
  refers to, and contexts. Functions of the user (handlers, hooks) are opaque references or
  function values; \<^verbatim>\<open>nil\<close> pointers, maps and functions are \<open>None\<close>.
\<close>

section \<open>AMQP tables\<close>

text \<open>
  A table is a Go map from strings to values of any type: here its entries, one per key
  (Go leaves the iteration order open). \<open>FOther\<close> stands for a value of any other type.
\<close>

datatype field =
    FStr string | FInt int | FInt32 int | FInt64 int | FBool bool | FOther string

type_synonym table = "(string \<times> field) list"
type_synonym bytes = string

definition table_wf :: "table \<Rightarrow> bool" where
  "table_wf t \<longleftrightarrow> distinct (map fst t)"

text \<open>Reading a nil map yields the zero value; assigning to an entry of a nil map panics.\<close>

definition table_get :: "table option \<Rightarrow> string \<Rightarrow> field option" where
  "table_get t k = (case t of None \<Rightarrow> None | Some xs \<Rightarrow> map_of xs k)"

definition table_set :: "table option \<Rightarrow> string \<Rightarrow> field \<Rightarrow> table option outcome" where
  "table_set t k v =
     (case t of None \<Rightarrow> Panics ''assignment to entry in nil map''
      | Some xs \<Rightarrow> Returns (Some (AList.update k v xs)))"

lemma table_wf_update [simp]: "table_wf t \<Longrightarrow> table_wf (AList.update k v t)"
  by (simp add: table_wf_def distinct_update)

lemma table_get_update [simp]:
  "table_get (Some (AList.update k v t)) k' = (if k' = k then Some v else table_get (Some t) k')"
  by (simp add: table_get_def update_conv')

lemma table_get_simps [simp]:
  "table_get None k = None"
  "table_get (Some []) k = None"
  by (simp_all add: table_get_def)

section \<open>Contexts\<close>

text \<open>
  A context is the nil interface, one the caller passes, or one derived from another. Whether
  it is done changes with time and with what other goroutines do: asking is a call into the
  environment (theory \<open>Environment\<close>).
\<close>

datatype ctx = CtxNil | CtxOf nat | WithCancel ctx | WithTimeout ctx duration | CtxValue ctx string

section \<open>Deliveries and publishings of the client library\<close>

type_synonym u8 = "8 word"
type_synonym conn_ref = nat
type_synonym chan_ref = nat
type_synonym raw_ref = nat

record delivery =
  d_Headers :: "table option"
  d_ContentType :: string
  d_ContentEncoding :: string
  d_DeliveryMode :: u8
  d_Priority :: u8
  d_CorrelationId :: string
  d_ReplyTo :: string
  d_Expiration :: string
  d_MessageId :: string
  d_Timestamp :: int
  d_Type :: string
  d_UserId :: string
  d_AppId :: string
  d_DeliveryTag :: nat
  d_Exchange :: string
  d_RoutingKey :: string
  d_Body :: bytes

record publishing =
  p_Headers :: "table option"
  p_ContentType :: string
  p_ContentEncoding :: string
  p_DeliveryMode :: u8
  p_Priority :: u8
  p_CorrelationId :: string
  p_ReplyTo :: string
  p_Expiration :: string
  p_MessageId :: string
  p_Timestamp :: int
  p_Type :: string
  p_UserId :: string
  p_AppId :: string
  p_Body :: bytes

text \<open>The zero value of a publishing; \<open>zero_time\<close> is the zero \<^verbatim>\<open>time.Time\<close>.\<close>

definition zero_time :: int where
  "zero_time = 0"

definition zero_publishing :: publishing where
  "zero_publishing =
     \<lparr>p_Headers = None, p_ContentType = [], p_ContentEncoding = [], p_DeliveryMode = 0,
      p_Priority = 0, p_CorrelationId = [], p_ReplyTo = [], p_Expiration = [],
      p_MessageId = [], p_Timestamp = zero_time, p_Type = [], p_UserId = [], p_AppId = [],
      p_Body = []\<rparr>"

section \<open>Configuration\<close>

type_synonym handler_ref = nat

definition DelayDLXTTL :: int where
  "DelayDLXTTL = 0"

definition Classic :: string where
  "Classic = ''classic''"

definition Quorum :: string where
  "Quorum = ''quorum''"

record QueueConfig =
  Name :: string
  QueueType :: string
  Handler :: "handler_ref option"
  NumWorkers :: int
  IsDelayQueue :: bool
  DelayStrategy :: int
  DLXTTL :: duration
  MaxRedelivery :: int
  Exchange :: string
  RoutingKey :: string
  Durable :: bool
  AutoDelete :: bool
  ConsumerTag :: string
  Exclusive :: bool
  NoWait :: bool
  ConsumerTimeout :: duration
  EnableDLQ :: bool
  ProcessTimeout :: duration
  DummyMessageEnabled :: bool
  DummyMessageFrequency :: duration

record SDKConfig =
  Addr :: string
  VHost :: string
  Username :: string
  Password :: string
  Heartbeat :: duration
  DialTimeout :: duration
  ConnectionName :: string
  ReconnectDelay :: duration
  TLSConfig :: "nat option"
  EnableMetrics :: bool
  MetricsNamespace :: string
  MetricsRegisterer :: "nat option"
  PublisherPoolSize :: int
  PublisherMaxPoolSize :: int
  PublisherPoolWait :: duration
  EnableTracing :: bool
  MetricLabelName :: string
  MetricLabelValue :: "(ctx \<Rightarrow> string) option"
  InjectHeaders :: "(ctx \<Rightarrow> table option \<Rightarrow> table option) option"
  ExtractContext :: "(ctx \<Rightarrow> delivery \<Rightarrow> ctx) option"

definition heartBeatMSG :: publishing where
  "heartBeatMSG = zero_publishing
     \<lparr>p_Headers := Some [(''type'', FStr ''heartbeat'')], p_Body := ''heartbeat''\<rparr>"

section \<open>Constants of rabbitmqsdk.go\<close>

definition defaultPublisherPoolSize :: int where
  "defaultPublisherPoolSize = 5"

definition defaultPublisherPoolWait :: duration where
  "defaultPublisherPoolWait = 20 * millisecond"

definition defaultReconnectDelay :: duration where
  "defaultReconnectDelay = 5 * second"

definition defaultDialTimeout :: duration where
  "defaultDialTimeout = 30 * second"

definition retryCountHeader :: string where
  "retryCountHeader = ''x-huma-redelivery-count''"

section \<open>Small helpers on names\<close>

definition getDelayQueueName :: "string \<Rightarrow> string" where
  "getDelayQueueName queueName = queueName @ ''.delay''"

definition chooseQueueNameLabel :: "string \<Rightarrow> string \<Rightarrow> string" where
  "chooseQueueNameLabel exchange routingKey =
     (if length routingKey > 0 then routingKey else exchange)"

text \<open>\<^verbatim>\<open>make\<close> and \<^verbatim>\<open>copy\<close>: a new slice with the same elements.\<close>

definition cloneQueueConfigs :: "QueueConfig list \<Rightarrow> QueueConfig list" where
  "cloneQueueConfigs queues = map (\<lambda>i. queues ! i) [0..<length queues]"

lemma cloneQueueConfigs_id [simp]: "cloneQueueConfigs queues = queues"
  by (simp add: cloneQueueConfigs_def map_nth)

lemma delay_name_neq: "getDelayQueueName q \<noteq> q"
  by (simp add: getDelayQueueName_def)

lemma delay_name_inj: "getDelayQueueName q = getDelayQueueName q' \<longleftrightarrow> q = q'"
  by (simp add: getDelayQueueName_def)

end
