(* ===== verification/Environment.thy ===== *)
theory Environment
  imports Huma_Types
begin

text \<open>
  Code that is not part of the repository (the AMQP client library, Prometheus, the network,
  the user's handlers) and the clock are a parameter \<open>L\<close> of the model: a record of
  functions that answer each call. An answer may depend on everything that happened before,
  so the model keeps the history of calls with their answers and hands it to \<open>L\<close>. A
  statement for all \<open>L\<close> thus covers every failure, every timing and every cancellation.
  The history is also what properties talk about: which calls were made, in which order.
\<close>

section \<open>Events\<close>

datatype handler_result = HandlerOk | HandlerErr err | HandlerPanic string

datatype family =
    MessagesReceived | ProcessingDuration | MessagesAcked | MessagesNacked
  | PublishSuccess | PublishFailed | Reconnects

text \<open>What the \<^verbatim>\<open>select\<close> of a consuming worker can yield.\<close>

datatype worker_event = CtxDone | MsgsClosed | GotDelivery delivery | HeartbeatTick

text \<open>
  What the \<^verbatim>\<open>select\<close> of the connection monitor can yield: the context is done, or one of the two
  notification channels is ready, closed (\<open>None\<close>) or with an error pointer that may be nil.
  \<open>True\<close> prefers the AMQP channel's notifications, \<open>False\<close> the connection's.
\<close>

datatype monitor_event = MonitorDone | Notified bool "err option option"

datatype event =
    EvCtxErr ctx "err option"
  | EvSelectDone ctx "err option"
  | EvNow int
  | EvDialURI string "err option"
  | EvNetDial ctx duration "err + raw_ref"
  | EvHandshake raw_ref "err + conn_ref"
  | EvRawSetDeadline raw_ref int "err option"
  | EvRawClose raw_ref "err option"
  | EvConnChannel conn_ref "err + chan_ref"
  | EvConnClose conn_ref "err option"
  | EvChConfirm chan_ref bool "err option"
  | EvChClose chan_ref "err option"
  | EvChIsClosed chan_ref bool
  | EvQos chan_ref int int bool "err option"
  | EvExchangeDeclare chan_ref string string bool bool bool bool "table option" "err option"
  | EvQueueDeclare chan_ref string bool bool bool bool "table option" "err option"
  | EvQueueBind chan_ref string string string bool "table option" "err option"
  | EvConsume chan_ref string string bool bool bool bool "table option" "err + nat"
  | EvPublish chan_ref string string bool bool publishing "err + nat"
  | EvConfirmWait nat ctx "err + bool"
  | EvAck nat bool "err option"
  | EvNack nat bool bool "err option"
  | EvHandler handler_ref ctx string delivery handler_result
  | EvMetric family "string list" int
  | EvRegister nat family string "string list" "err option"
  | EvUnregister nat family string
  | EvSpawnWorker nat QueueConfig
  | EvSpawnMonitor chan_ref conn_ref
  | EvSpawnReconnect
  | EvMonitor monitor_event
  | EvWaitReconnect ctx duration bool
  | EvWorker nat worker_event
  | EvTickerNew duration
  | EvTickerReset duration
  | EvTickerStop
  | EvSpanStart ctx string
  | EvSpanError err
  | EvSpanEnd
  | EvCancel
  | EvWgWait bool
  | EvExporterNew "err option"
  | EvTracerShutdown ctx "err option"
  | EvServe string
  | EvServerShutdown ctx "err option"

type_synonym hist = "event list"

section \<open>The external code\<close>

record lib =
  ctxErr :: "hist \<Rightarrow> ctx \<Rightarrow> err option"
  ctxWait :: "hist \<Rightarrow> ctx \<Rightarrow> err"
  ctxEnds :: "hist \<Rightarrow> ctx \<Rightarrow> bool"
  ctxDeadline :: "hist \<Rightarrow> ctx \<Rightarrow> int option"
  pickDone :: "hist \<Rightarrow> bool"
  timeNow :: "hist \<Rightarrow> int"
  dialURI :: "hist \<Rightarrow> string \<Rightarrow> err option"
  netDial :: "hist \<Rightarrow> ctx \<Rightarrow> err + raw_ref"
  handshake :: "hist \<Rightarrow> raw_ref \<Rightarrow> err + conn_ref"
  rawSetDeadline :: "hist \<Rightarrow> raw_ref \<Rightarrow> int \<Rightarrow> err option"
  rawClose :: "hist \<Rightarrow> raw_ref \<Rightarrow> err option"
  connChannel :: "hist \<Rightarrow> conn_ref \<Rightarrow> err + chan_ref"
  connClose :: "hist \<Rightarrow> conn_ref \<Rightarrow> err option"
  chConfirm :: "hist \<Rightarrow> chan_ref \<Rightarrow> err option"
  chClose :: "hist \<Rightarrow> chan_ref \<Rightarrow> err option"
  chIsClosed :: "hist \<Rightarrow> chan_ref \<Rightarrow> bool"
  chQos :: "hist \<Rightarrow> chan_ref \<Rightarrow> err option"
  exchangeDeclare :: "hist \<Rightarrow> chan_ref \<Rightarrow> string \<Rightarrow> err option"
  queueDeclare :: "hist \<Rightarrow> chan_ref \<Rightarrow> string \<Rightarrow> err option"
  queueBind :: "hist \<Rightarrow> chan_ref \<Rightarrow> string \<Rightarrow> err option"
  chConsume :: "hist \<Rightarrow> chan_ref \<Rightarrow> string \<Rightarrow> err + nat"
  chPublish :: "hist \<Rightarrow> chan_ref \<Rightarrow> publishing \<Rightarrow> err + nat"
  confirmWait :: "hist \<Rightarrow> nat \<Rightarrow> err + bool"
  dAck :: "hist \<Rightarrow> nat \<Rightarrow> err option"
  dNack :: "hist \<Rightarrow> nat \<Rightarrow> err option"
  runHandler :: "hist \<Rightarrow> handler_ref \<Rightarrow> ctx \<Rightarrow> string \<Rightarrow> delivery \<Rightarrow> handler_result"
  register :: "hist \<Rightarrow> nat \<Rightarrow> family \<Rightarrow> string \<Rightarrow> err option"
  waitTimer :: "hist \<Rightarrow> ctx \<Rightarrow> bool"
  wgWait :: "hist \<Rightarrow> bool"
  workerSelect :: "hist \<Rightarrow> nat \<Rightarrow> worker_event"
  monitorSelect :: "hist \<Rightarrow> monitor_event"
  spanValid :: "hist \<Rightarrow> ctx \<Rightarrow> bool"
  otelInject :: "ctx \<Rightarrow> (string \<times> string) list"
  otelExtract :: "ctx \<Rightarrow> (string \<Rightarrow> string) \<Rightarrow> ctx"
  spanCtx :: "ctx \<Rightarrow> ctx"
  exporterNew :: "hist \<Rightarrow> err option"
  tracerShutdown :: "hist \<Rightarrow> ctx \<Rightarrow> err option"
  serverShutdown :: "hist \<Rightarrow> ctx \<Rightarrow> err option"

section \<open>One call each\<close>

definition ctx_err :: "lib \<Rightarrow> ctx \<Rightarrow> hist \<Rightarrow> err option \<times> hist" where [env_defs]:
  "ctx_err L c h = (let r = ctxErr L h c in (r, h @ [EvCtxErr c r]))"

text \<open>
  A \<^verbatim>\<open>select\<close> between \<^verbatim>\<open>ctx.Done()\<close> and another case that is, or becomes, ready. While
  the context is not done the other case is taken; when it is done, either may be. The answer
  is the context's error when the \<^verbatim>\<open>Done\<close> case is taken.
\<close>

definition select_done :: "lib \<Rightarrow> ctx \<Rightarrow> hist \<Rightarrow> err option \<times> hist" where [env_defs]:
  "select_done L c h =
     (let r = (case ctxErr L h c of None \<Rightarrow> None
               | Some e \<Rightarrow> if pickDone L h then Some e else None)
      in (r, h @ [EvSelectDone c r]))"

text \<open>
  A \<^verbatim>\<open>select\<close> in which only the \<^verbatim>\<open>Done\<close> case can become ready, on a context that is
  done or ends some time.
\<close>

definition await_done :: "lib \<Rightarrow> ctx \<Rightarrow> hist \<Rightarrow> err \<times> hist" where [env_defs]:
  "await_done L c h =
     (let e = (case ctxErr L h c of Some e \<Rightarrow> e | None \<Rightarrow> ctxWait L h c)
      in (e, h @ [EvSelectDone c (Some e)]))"

text \<open>
  A context need never end (one without a deadline that nobody cancels): \<open>ctxEnds\<close> tells
  whether it does. Waiting on one that does not, with no other case that becomes ready, is
  waiting for ever.
\<close>

definition ctx_hangs :: "lib \<Rightarrow> ctx \<Rightarrow> hist \<Rightarrow> bool" where
  "ctx_hangs L c h \<longleftrightarrow> ctxErr L h c = None \<and> \<not> ctxEnds L h c"

definition now :: "lib \<Rightarrow> hist \<Rightarrow> int \<times> hist" where [env_defs]:
  "now L h = (let t = timeNow L h in (t, h @ [EvNow t]))"

definition conn_channel :: "lib \<Rightarrow> conn_ref \<Rightarrow> hist \<Rightarrow> (err + chan_ref) \<times> hist" where [env_defs]:
  "conn_channel L c h = (let r = connChannel L h c in (r, h @ [EvConnChannel c r]))"

definition conn_close :: "lib \<Rightarrow> conn_ref \<Rightarrow> hist \<Rightarrow> err option \<times> hist" where [env_defs]:
  "conn_close L c h = (let r = connClose L h c in (r, h @ [EvConnClose c r]))"

definition ch_confirm :: "lib \<Rightarrow> chan_ref \<Rightarrow> bool \<Rightarrow> hist \<Rightarrow> err option \<times> hist" where [env_defs]:
  "ch_confirm L c noWait h = (let r = chConfirm L h c in (r, h @ [EvChConfirm c noWait r]))"

definition ch_close :: "lib \<Rightarrow> chan_ref \<Rightarrow> hist \<Rightarrow> err option \<times> hist" where [env_defs]:
  "ch_close L c h = (let r = chClose L h c in (r, h @ [EvChClose c r]))"

definition ch_is_closed :: "lib \<Rightarrow> chan_ref \<Rightarrow> hist \<Rightarrow> bool \<times> hist" where [env_defs]:
  "ch_is_closed L c h = (let r = chIsClosed L h c in (r, h @ [EvChIsClosed c r]))"

definition raw_set_deadline :: "lib \<Rightarrow> raw_ref \<Rightarrow> int \<Rightarrow> hist \<Rightarrow> err option \<times> hist" where [env_defs]:
  "raw_set_deadline L c t h =
     (let r = rawSetDeadline L h c t in (r, h @ [EvRawSetDeadline c t r]))"

definition raw_close :: "lib \<Rightarrow> raw_ref \<Rightarrow> hist \<Rightarrow> err option \<times> hist" where [env_defs]:
  "raw_close L c h = (let r = rawClose L h c in (r, h @ [EvRawClose c r]))"

definition ch_qos :: "lib \<Rightarrow> chan_ref \<Rightarrow> int \<Rightarrow> int \<Rightarrow> bool \<Rightarrow> hist \<Rightarrow> err option \<times> hist"
  where [env_defs]:
  "ch_qos L c n sz g h = (let r = chQos L h c in (r, h @ [EvQos c n sz g r]))"

definition ch_exchange_declare ::
  "lib \<Rightarrow> chan_ref \<Rightarrow> string \<Rightarrow> string \<Rightarrow> bool \<Rightarrow> bool \<Rightarrow> bool \<Rightarrow> bool \<Rightarrow> table option \<Rightarrow> hist
     \<Rightarrow> err option \<times> hist" where [env_defs]:
  "ch_exchange_declare L c name kind durable autoDelete internal noWait args h =
     (let r = exchangeDeclare L h c name
      in (r, h @ [EvExchangeDeclare c name kind durable autoDelete internal noWait args r]))"

definition ch_queue_declare ::
  "lib \<Rightarrow> chan_ref \<Rightarrow> string \<Rightarrow> bool \<Rightarrow> bool \<Rightarrow> bool \<Rightarrow> bool \<Rightarrow> table option \<Rightarrow> hist
     \<Rightarrow> err option \<times> hist" where [env_defs]:
  "ch_queue_declare L c name durable autoDelete exclusive noWait args h =
     (let r = queueDeclare L h c name
      in (r, h @ [EvQueueDeclare c name durable autoDelete exclusive noWait args r]))"

definition ch_queue_bind ::
  "lib \<Rightarrow> chan_ref \<Rightarrow> string \<Rightarrow> string \<Rightarrow> string \<Rightarrow> bool \<Rightarrow> table option \<Rightarrow> hist
     \<Rightarrow> err option \<times> hist" where [env_defs]:
  "ch_queue_bind L c name key exchange noWait args h =
     (let r = queueBind L h c name in (r, h @ [EvQueueBind c name key exchange noWait args r]))"

definition ch_consume ::
  "lib \<Rightarrow> chan_ref \<Rightarrow> string \<Rightarrow> string \<Rightarrow> bool \<Rightarrow> bool \<Rightarrow> bool \<Rightarrow> bool \<Rightarrow> table option \<Rightarrow> hist
     \<Rightarrow> (err + nat) \<times> hist" where [env_defs]:
  "ch_consume L c queue consumer autoAck exclusive noLocal noWait args h =
     (let r = chConsume L h c queue
      in (r, h @ [EvConsume c queue consumer autoAck exclusive noLocal noWait args r]))"

definition ch_publish ::
  "lib \<Rightarrow> chan_ref \<Rightarrow> string \<Rightarrow> string \<Rightarrow> bool \<Rightarrow> bool \<Rightarrow> publishing \<Rightarrow> hist
     \<Rightarrow> (err + nat) \<times> hist" where [env_defs]:
  "ch_publish L c exchange key mandatory immediate msg h =
     (let r = chPublish L h c msg
      in (r, h @ [EvPublish c exchange key mandatory immediate msg r]))"

definition confirm_wait :: "lib \<Rightarrow> nat \<Rightarrow> ctx \<Rightarrow> hist \<Rightarrow> (err + bool) \<times> hist" where [env_defs]:
  "confirm_wait L k c h = (let r = confirmWait L h k in (r, h @ [EvConfirmWait k c r]))"

definition d_ack :: "lib \<Rightarrow> delivery \<Rightarrow> bool \<Rightarrow> hist \<Rightarrow> err option \<times> hist" where [env_defs]:
  "d_ack L d multiple h =
     (let r = dAck L h (d_DeliveryTag d) in (r, h @ [EvAck (d_DeliveryTag d) multiple r]))"

definition d_nack :: "lib \<Rightarrow> delivery \<Rightarrow> bool \<Rightarrow> bool \<Rightarrow> hist \<Rightarrow> err option \<times> hist" where [env_defs]:
  "d_nack L d multiple requeue h =
     (let r = dNack L h (d_DeliveryTag d)
      in (r, h @ [EvNack (d_DeliveryTag d) multiple requeue r]))"

definition call_handler ::
  "lib \<Rightarrow> handler_ref \<Rightarrow> ctx \<Rightarrow> string \<Rightarrow> delivery \<Rightarrow> hist \<Rightarrow> handler_result \<times> hist"
  where [env_defs]:
  "call_handler L f c q d h = (let r = runHandler L h f c q d in (r, h @ [EvHandler f c q d r]))"

definition worker_select :: "lib \<Rightarrow> nat \<Rightarrow> hist \<Rightarrow> worker_event \<times> hist" where [env_defs]:
  "worker_select L msgs h = (let r = workerSelect L h msgs in (r, h @ [EvWorker msgs r]))"

definition monitor_select :: "lib \<Rightarrow> hist \<Rightarrow> monitor_event \<times> hist" where [env_defs]:
  "monitor_select L h = (let r = monitorSelect L h in (r, h @ [EvMonitor r]))"

definition dial_uri :: "lib \<Rightarrow> string \<Rightarrow> hist \<Rightarrow> err option \<times> hist" where [env_defs]:
  "dial_uri L url h = (let r = dialURI L h url in (r, h @ [EvDialURI url r]))"

definition net_dial :: "lib \<Rightarrow> ctx \<Rightarrow> duration \<Rightarrow> hist \<Rightarrow> (err + raw_ref) \<times> hist" where [env_defs]:
  "net_dial L c t h = (let r = netDial L h c in (r, h @ [EvNetDial c t r]))"

definition amqp_handshake :: "lib \<Rightarrow> raw_ref \<Rightarrow> hist \<Rightarrow> (err + conn_ref) \<times> hist" where [env_defs]:
  "amqp_handshake L raw h = (let r = handshake L h raw in (r, h @ [EvHandshake raw r]))"

section \<open>validateContext\<close>

definition validateContext :: "lib \<Rightarrow> ctx \<Rightarrow> hist \<Rightarrow> err option \<times> hist" where
  "validateContext L c h =
     (if c = CtxNil then (Some (ErrNew ''context is nil''), h) else ctx_err L c h)"

section \<open>Which resources are open\<close>

text \<open>
  The AMQP channels and connections a history has opened and not closed, counted with
  multiplicity; the calls that change them are the ones that answer with a new reference, the
  ones that close it, and the ones that report it to be closed already.
\<close>

fun chan_effect :: "event \<Rightarrow> chan_ref multiset \<Rightarrow> chan_ref multiset" where
  "chan_effect (EvConnChannel _ (Inr c)) m = add_mset c m"
| "chan_effect (EvChClose c _) m = m - {#c#}"
| "chan_effect (EvChIsClosed c True) m = m - {#c#}"
| "chan_effect _ m = m"

definition live_chans :: "hist \<Rightarrow> chan_ref multiset" where
  "live_chans h = fold chan_effect h {#}"

fun conn_effect :: "event \<Rightarrow> conn_ref multiset \<Rightarrow> conn_ref multiset" where
  "conn_effect (EvHandshake _ (Inr c)) m = add_mset c m"
| "conn_effect (EvConnClose c _) m = m - {#c#}"
| "conn_effect _ m = m"

definition live_conns :: "hist \<Rightarrow> conn_ref multiset" where
  "live_conns h = fold conn_effect h {#}"

lemma live_chans_append [simp]: "live_chans (h @ es) = fold chan_effect es (live_chans h)"
  by (simp add: live_chans_def)

lemma live_conns_append [simp]: "live_conns (h @ es) = fold conn_effect es (live_conns h)"
  by (simp add: live_conns_def)

lemma live_chans_Nil [simp]: "live_chans [] = {#}"
  by (simp add: live_chans_def)

lemma live_conns_Nil [simp]: "live_conns [] = {#}"
  by (simp add: live_conns_def)

lemma validateContext_nil [simp]: "validateContext L CtxNil h = (Some (ErrNew ''context is nil''), h)"
  by (simp add: validateContext_def)

lemma validateContext_live [simp]:
  "live_chans (snd (validateContext L c h)) = live_chans h"
  "live_conns (snd (validateContext L c h)) = live_conns h"
  by (simp_all add: validateContext_def ctx_err_def Let_def)

section \<open>What a call may add to the history\<close>

text \<open>Histories only grow; \<open>grows P\<close> says that every event added satisfies \<open>P\<close>.\<close>

definition grows :: "(event \<Rightarrow> bool) \<Rightarrow> hist \<Rightarrow> hist \<Rightarrow> bool" where
  "grows P h h' \<longleftrightarrow> (\<exists>es. h' = h @ es \<and> list_all P es)"

lemma grows_refl [simp]: "grows P h h"
  by (simp add: grows_def)

lemma grows_trans: "grows P h h1 \<Longrightarrow> grows P h1 h2 \<Longrightarrow> grows P h h2"
  by (auto simp: grows_def)

lemma grows_snoc: "grows P h h1 \<Longrightarrow> P e \<Longrightarrow> grows P h (h1 @ [e])"
  by (auto simp: grows_def)

lemma grows_mono: "grows P h h' \<Longrightarrow> (\<And>e. P e \<Longrightarrow> Q e) \<Longrightarrow> grows Q h h'"
  by (auto simp: grows_def list_all_iff)

lemma grows_event [simp]: "grows P h (h @ [e]) \<longleftrightarrow> P e"
  by (simp add: grows_def)

text \<open>A projection of the history that ignores the added events is unchanged.\<close>

lemma grows_concat_map:
  "grows P h h' \<Longrightarrow> (\<And>e. P e \<Longrightarrow> f e = []) \<Longrightarrow> concat (map f h') = concat (map f h)"
  by (auto simp: grows_def list_all_iff)

text \<open>The events of waiting for, opening, checking and closing AMQP channels.\<close>

fun pool_event :: "event \<Rightarrow> bool" where
  "pool_event (EvCtxErr _ _) = True"
| "pool_event (EvSelectDone _ _) = True"
| "pool_event (EvConnChannel _ _) = True"
| "pool_event (EvChConfirm _ _ _) = True"
| "pool_event (EvChClose _ _) = True"
| "pool_event (EvChIsClosed _ _) = True"
| "pool_event (EvNow _) = True"
| "pool_event (EvRawSetDeadline _ _ _) = True"
| "pool_event (EvRawClose _ _) = True"
| "pool_event _ = False"

lemma validateContext_grows: "grows pool_event h (snd (validateContext L c h))"
  by (simp add: validateContext_def ctx_err_def Let_def)

section \<open>A broker on which everything succeeds\<close>

text \<open>Used to show that hypotheses on external code can hold, and to run the definitions.\<close>

definition calm_lib :: lib where
  "calm_lib =
     \<lparr>ctxErr = (\<lambda>h c. None), ctxWait = (\<lambda>h c. DeadlineExceeded),
      ctxEnds = (\<lambda>h c. True), ctxDeadline = (\<lambda>h c. None),
      pickDone = (\<lambda>h. False), timeNow = (\<lambda>h. 1 + int (length h)),
      dialURI = (\<lambda>h u. None), netDial = (\<lambda>h c. Inr (length h)),
      handshake = (\<lambda>h r. Inr (length h)), rawSetDeadline = (\<lambda>h r t. None),
      rawClose = (\<lambda>h r. None), connChannel = (\<lambda>h c. Inr (length h)),
      connClose = (\<lambda>h c. None), chConfirm = (\<lambda>h c. None), chClose = (\<lambda>h c. None),
      chIsClosed = (\<lambda>h c. False), chQos = (\<lambda>h c. None), exchangeDeclare = (\<lambda>h c n. None),
      queueDeclare = (\<lambda>h c n. None), queueBind = (\<lambda>h c n. None),
      chConsume = (\<lambda>h c n. Inr (length h)), chPublish = (\<lambda>h c p. Inr (length h)),
      confirmWait = (\<lambda>h k. Inr True), dAck = (\<lambda>h t. None), dNack = (\<lambda>h t. None),
      runHandler = (\<lambda>h f c q d. HandlerOk), register = (\<lambda>h r f n. None),
      waitTimer = (\<lambda>h c. True), wgWait = (\<lambda>h. True), workerSelect = (\<lambda>h m. MsgsClosed),
      monitorSelect = (\<lambda>h. MonitorDone),
      spanValid = (\<lambda>h c. False), otelInject = (\<lambda>c. []), otelExtract = (\<lambda>c g. c),
      spanCtx = (\<lambda>c. c), exporterNew = (\<lambda>h. None), tracerShutdown = (\<lambda>h c. None),
      serverShutdown = (\<lambda>h c. None)\<rparr>"

lemma calm_simps [simp]:
  "ctxErr calm_lib h c = None" "ctxWait calm_lib h c = DeadlineExceeded" "ctxEnds calm_lib h c" "ctxDeadline calm_lib h c = None"
  "pickDone calm_lib h = False" "timeNow calm_lib h = 1 + int (length h)" "dialURI calm_lib h u = None"
  "netDial calm_lib h c = Inr (length h)" "handshake calm_lib h r = Inr (length h)"
  "rawSetDeadline calm_lib h r t = None" "rawClose calm_lib h r = None"
  "connChannel calm_lib h k = Inr (length h)" "connClose calm_lib h k = None"
  "chConfirm calm_lib h k = None" "chClose calm_lib h k = None" "chIsClosed calm_lib h k = False"
  "chQos calm_lib h k = None" "exchangeDeclare calm_lib h k n = None" "queueDeclare calm_lib h k n = None"
  "queueBind calm_lib h k n = None" "chConsume calm_lib h k n = Inr (length h)"
  "chPublish calm_lib h k p = Inr (length h)" "confirmWait calm_lib h k = Inr True"
  "dAck calm_lib h k = None" "dNack calm_lib h k = None" "runHandler calm_lib h f c q d = HandlerOk"
  "register calm_lib h reg fam n = None" "waitTimer calm_lib h c = True" "wgWait calm_lib h = True"
  "workerSelect calm_lib h k = MsgsClosed" "monitorSelect calm_lib h = MonitorDone" "spanValid calm_lib h c = False" "otelInject calm_lib c = []"
  "otelExtract calm_lib c g = c" "spanCtx calm_lib c = c" "exporterNew calm_lib h = None"
  "tracerShutdown calm_lib h c = None" "serverShutdown calm_lib h c = None"
  by (simp_all add: calm_lib_def)

end
