(* ===== verification/Messages.thy ===== *)
theory Messages
  imports Environment
begin

text \<open>
  \<^verbatim>\<open>message.go\<close>: the message a caller builds and publishes. The builder methods mutate the
  receiver and return it; here they return the changed message. The lemmas show that
  \<^verbatim>\<open>validate\<close> brings every publishable message to one normal form, that an encoding error
  is never forgotten, and what the expiration string says.
\<close>

section \<open>Message and its builder\<close>

record Message =
  m_Body :: bytes
  m_Headers :: "table option"
  m_ContentType :: string
  m_Expiration :: duration
  m_Priority :: u8
  m_MessageID :: string
  m_Timestamp :: int
  m_err :: "err option"

definition NewMessage :: "lib \<Rightarrow> hist \<Rightarrow> Message \<times> hist" where
  "NewMessage L h =
     (case now L h of (t, h1) \<Rightarrow>
        (\<lparr>m_Body = [], m_Headers = Some [], m_ContentType = [], m_Expiration = 0, m_Priority = 0,
          m_MessageID = [], m_Timestamp = t, m_err = None\<rparr>, h1))"

definition WithBody :: "bytes \<Rightarrow> Message \<Rightarrow> Message" where
  "WithBody body m = m\<lparr>m_Body := body\<rparr>"

text \<open>\<open>marshal\<close> is \<^verbatim>\<open>json.Marshal\<close> on the value's type.\<close>

definition WithJSONBody :: "('v \<Rightarrow> err + bytes) \<Rightarrow> 'v \<Rightarrow> Message \<Rightarrow> Message" where
  "WithJSONBody marshal v m =
     (case marshal v of
        Inl e \<Rightarrow> m\<lparr>m_err := Some (ErrWrap ''marshal message body'' e)\<rparr>
      | Inr b \<Rightarrow> m\<lparr>m_Body := b, m_ContentType := ''application/json''\<rparr>)"

definition WithHeader :: "string \<Rightarrow> field \<Rightarrow> Message \<Rightarrow> Message" where
  "WithHeader key val m =
     (let hs = (case m_Headers m of None \<Rightarrow> [] | Some t \<Rightarrow> t)
      in m\<lparr>m_Headers := Some (AList.update key val hs)\<rparr>)"

definition WithExpiration :: "duration \<Rightarrow> Message \<Rightarrow> Message" where
  "WithExpiration d m = m\<lparr>m_Expiration := d\<rparr>"

definition WithContentType :: "string \<Rightarrow> Message \<Rightarrow> Message" where
  "WithContentType contentType m = m\<lparr>m_ContentType := contentType\<rparr>"

definition WithPriority :: "u8 \<Rightarrow> Message \<Rightarrow> Message" where
  "WithPriority priority m = m\<lparr>m_Priority := priority\<rparr>"

definition WithMessageID :: "string \<Rightarrow> Message \<Rightarrow> Message" where
  "WithMessageID i m = m\<lparr>m_MessageID := i\<rparr>"

text \<open>
  \<^verbatim>\<open>(m *Message) validate()\<close>: the receiver may be nil. The answer is the error and the
  message after the defaults were filled in.
\<close>

definition msg_validate :: "lib \<Rightarrow> Message option \<Rightarrow> hist \<Rightarrow> (err + Message) \<times> hist" where
  "msg_validate L mp h =
     (case mp of
        None \<Rightarrow> (Inl (ErrNew ''message is nil''), h)
      | Some m \<Rightarrow>
          (case m_err m of
             Some e \<Rightarrow> (Inl e, h)
           | None \<Rightarrow>
               (let m1 = (if m_Headers m = None then m\<lparr>m_Headers := Some []\<rparr> else m);
                    m2 = (if m_ContentType m1 = [] then m1\<lparr>m_ContentType := ''text/plain''\<rparr> else m1)
                in if m_Timestamp m2 = zero_time
                   then (case now L h of (t, h1) \<Rightarrow> (Inr (m2\<lparr>m_Timestamp := t\<rparr>), h1))
                   else (Inr m2, h))))"

definition formatDurationToExpiration :: "duration \<Rightarrow> string" where
  "formatDurationToExpiration d = (if d > 0 then show_int (milliseconds d) else [])"

section \<open>Sequences of builder calls\<close>

datatype 'v msg_op =
    OpBody bytes | OpJSON 'v | OpHeader string field | OpExpiration duration
  | OpContentType string | OpPriority u8 | OpMessageID string

fun msg_apply :: "('v \<Rightarrow> err + bytes) \<Rightarrow> 'v msg_op \<Rightarrow> Message \<Rightarrow> Message" where
  "msg_apply j (OpBody b) = WithBody b"
| "msg_apply j (OpJSON v) = WithJSONBody j v"
| "msg_apply j (OpHeader k v) = WithHeader k v"
| "msg_apply j (OpExpiration d) = WithExpiration d"
| "msg_apply j (OpContentType c) = WithContentType c"
| "msg_apply j (OpPriority p) = WithPriority p"
| "msg_apply j (OpMessageID i) = WithMessageID i"

lemmas builder_defs = WithBody_def WithJSONBody_def WithHeader_def WithExpiration_def
  WithContentType_def WithPriority_def WithMessageID_def

section \<open>Lemmas\<close>

text \<open>The normal form of a message that may be sent.\<close>

definition msg_ready :: "Message \<Rightarrow> bool" where
  "msg_ready m \<longleftrightarrow> m_err m = None \<and> m_Headers m \<noteq> None \<and> m_ContentType m \<noteq> []"

lemma msg_validate_live [simp]:
  "live_chans (snd (msg_validate L mp h)) = live_chans h"
  "live_conns (snd (msg_validate L mp h)) = live_conns h"
  by (auto simp: msg_validate_def now_def Let_def split: option.splits)

lemma msg_validate_ready:
  "msg_validate L mp h = (Inr m', h') \<Longrightarrow> msg_ready m'"
  by (auto simp: msg_validate_def msg_ready_def now_def Let_def split: option.splits if_splits)

text \<open>What the defaults do not touch.\<close>

lemma msg_validate_keeps:
  assumes "msg_validate L (Some m) h = (Inr m', h')"
  shows "m_Body m' = m_Body m" "m_Expiration m' = m_Expiration m" "m_Priority m' = m_Priority m"
    "m_MessageID m' = m_MessageID m" "table_get (m_Headers m') = table_get (m_Headers m)"
    "m_ContentType m \<noteq> [] \<Longrightarrow> m_ContentType m' = m_ContentType m"
    "m_Timestamp m \<noteq> zero_time \<Longrightarrow> m_Timestamp m' = m_Timestamp m"
  using assms
  by (auto simp: msg_validate_def now_def Let_def fun_eq_iff split: option.splits if_splits)

lemma msg_validate_ready_id:
  "msg_ready m \<Longrightarrow> m_Timestamp m \<noteq> zero_time \<Longrightarrow> msg_validate L (Some m) h = (Inr m, h)"
  by (auto simp: msg_validate_def msg_ready_def split: option.splits)

lemma msg_validate_timestamp:
  "msg_validate L (Some m) h = (Inr m', h') \<Longrightarrow> (\<And>h. timeNow L h \<noteq> zero_time)
     \<Longrightarrow> m_Timestamp m' \<noteq> zero_time"
  by (auto simp: msg_validate_def now_def Let_def split: option.splits if_splits)

lemma msg_validate_error_iff:
  "(\<exists>e. fst (msg_validate L mp h) = Inl e) \<longleftrightarrow> mp = None \<or> (\<exists>m. mp = Some m \<and> m_err m \<noteq> None)"
  by (auto simp: msg_validate_def now_def Let_def split: option.splits)

lemma msg_apply_err: "m_err m \<noteq> None \<Longrightarrow> m_err (msg_apply j op m) \<noteq> None"
  by (cases op) (auto simp: builder_defs Let_def split: sum.splits)

lemma fold_msg_apply_err: "m_err m \<noteq> None \<Longrightarrow> m_err (fold (msg_apply j) ops m) \<noteq> None"
proof (induction ops arbitrary: m)
  case (Cons op ops)
  then show ?case using msg_apply_err [of m j op] by auto
qed simp

lemma WithHeader_get [simp]:
  "table_get (m_Headers (WithHeader k v m)) k' =
     (if k' = k then Some v else table_get (m_Headers m) k')"
  by (cases "m_Headers m") (auto simp: WithHeader_def Let_def table_get_def update_conv')

section \<open>Properties\<close>

text \<open>
  C33: whenever \<^verbatim>\<open>validate\<close> accepts a message, the message it leaves has no pending error,
  a non-nil header map, a content type and a timestamp (the caller's, if it set them), and the
  caller's body, expiration, priority, identifier and header entries; validating it again changes
  nothing and reads no clock. The one assumption is that the clock never shows the zero time.
\<close>

theorem validate_normal_form:
  assumes clock: "\<And>h. timeNow L h \<noteq> zero_time"
    and ok: "msg_validate L (Some m) h = (Inr m', h')"
  shows "m_err m' = None \<and> m_Headers m' \<noteq> None \<and> m_Timestamp m' \<noteq> zero_time
       \<and> m_Body m' = m_Body m \<and> m_Expiration m' = m_Expiration m \<and> m_Priority m' = m_Priority m
       \<and> m_MessageID m' = m_MessageID m \<and> table_get (m_Headers m') = table_get (m_Headers m)
       \<and> m_ContentType m' = (if m_ContentType m = [] then ''text/plain'' else m_ContentType m)
       \<and> m_Timestamp m' = (if m_Timestamp m = zero_time then timeNow L h else m_Timestamp m)
       \<and> msg_validate L (Some m') g = (Inr m', g)"
proof -
  have r: "msg_ready m'" and t: "m_Timestamp m' \<noteq> zero_time"
    using msg_validate_ready [OF ok] msg_validate_timestamp [OF ok clock] by auto
  have "m_ContentType m' = (if m_ContentType m = [] then ''text/plain'' else m_ContentType m)"
    "m_Timestamp m' = (if m_Timestamp m = zero_time then timeNow L h else m_Timestamp m)"
    using ok by (auto simp: msg_validate_def now_def Let_def split: option.splits if_splits)
  then show ?thesis
    using r t msg_validate_ready_id [OF r t] msg_validate_keeps [OF ok] by (simp add: msg_ready_def)
qed

theorem validate_normal_form_witness:
  "\<exists>m'. msg_validate calm_lib (Some \<lparr>m_Body = ''x'', m_Headers = None, m_ContentType = [], m_Expiration = 5000000,
     m_Priority = 1, m_MessageID = ''id'', m_Timestamp = 42, m_err = None\<rparr>) [] = (Inr m', [])
   \<and> m_Expiration m' = 5000000 \<and> m_Timestamp m' = 42 \<and> m_ContentType m' = ''text/plain''
   \<and> m_Headers m' \<noteq> None \<and> msg_validate calm_lib (Some m') [EvNow 9] = (Inr m', [EvNow 9])"
proof -
  let ?m = "\<lparr>m_Body = ''x'', m_Headers = None, m_ContentType = [], m_Expiration = 5000000,
     m_Priority = 1, m_MessageID = ''id'', m_Timestamp = 42, m_err = None\<rparr>"
  have clock: "timeNow calm_lib h \<noteq> zero_time" for h by (simp add: zero_time_def)
  obtain m' where ok: "msg_validate calm_lib (Some ?m) [] = (Inr m', [])"
    by (simp add: msg_validate_def zero_time_def Let_def)
  show ?thesis using validate_normal_form [OF clock ok, of "[EvNow 9]"] ok by (auto simp: zero_time_def)
qed

text \<open>
  Once encoding a JSON body has failed, no sequence of further builder calls makes the
  message publishable: \<^verbatim>\<open>validate\<close> keeps answering with an error.
\<close>

theorem json_error_sticky:
  assumes "marshal v = Inl e"
  shows "\<exists>e'. fst (msg_validate L (Some (fold (msg_apply marshal) ops (WithJSONBody marshal v m))) h)
           = Inl e'"
proof -
  have "m_err (WithJSONBody marshal v m) \<noteq> None"
    using assms by (simp add: WithJSONBody_def)
  then show ?thesis
    using fold_msg_apply_err by (simp add: msg_validate_error_iff)
qed

theorem json_error_sticky_witness:
  "\<exists>e'. fst (msg_validate calm_lib (Some (fold (msg_apply (\<lambda>v :: nat. Inl (ErrLib ''unsupported'')))
       [OpBody ''x'', OpJSON 1, OpContentType ''text/plain'']
       (WithJSONBody (\<lambda>v :: nat. Inl (ErrLib ''unsupported'')) 0 (fst (NewMessage calm_lib []))))) []) = Inl e'"
  by (rule json_error_sticky) (rule refl)

text \<open>
  The expiration string of a positive duration is the decimal numeral of its whole
  milliseconds, so the broker reads back exactly the truncated duration; a duration that is
  not positive gives the empty string, which means no expiration.
\<close>

theorem expiration_roundtrip:
  "formatDurationToExpiration d =
     (if 0 < d then show_nat (nat (d div 1000000)) else [])
   \<and> (0 < d \<longrightarrow> read_nat (formatDurationToExpiration d) = nat (d div 1000000))"
proof -
  have "0 < d \<Longrightarrow> show_int (milliseconds d) = show_nat (nat (d div 1000000))"
    by (auto simp: milliseconds_pos show_int_def pos_imp_zdiv_neg_iff)
  then show ?thesis by (simp add: formatDurationToExpiration_def)
qed

theorem expiration_roundtrip_witness:
  "formatDurationToExpiration 1500000000 = show_nat 1500 \<and> read_nat (formatDurationToExpiration 1500000000) = 1500"
  using expiration_roundtrip [of 1500000000] by simp

end
