(* ===== verification/Trace_Carrier.thy ===== *)
theory Trace_Carrier
  imports Environment
begin

text \<open>
  \<^verbatim>\<open>trace.go\<close>: \<^verbatim>\<open>AMQPHeaderCarrier\<close> adapts a header table to the \<^verbatim>\<open>TextMapCarrier\<close> interface
  of OpenTelemetry. The interface is the locale \<open>text_map_carrier\<close>; what a propagator can
  rely on (what it injected is what it extracts, other headers stay) is proved once there and
  holds for the header carrier by interpretation.
\<close>

section \<open>The carrier\<close>

type_synonym carrier = "table option"

definition carrier_Get :: "carrier \<Rightarrow> string \<Rightarrow> string" where
  "carrier_Get c key =
     (case table_get c key of
        None \<Rightarrow> []
      | Some v \<Rightarrow> (case v of FStr s \<Rightarrow> s | _ \<Rightarrow> []))"

definition carrier_Set :: "carrier \<Rightarrow> string \<Rightarrow> string \<Rightarrow> carrier outcome" where
  "carrier_Set c key val = table_set c key (FStr val)"

definition carrier_Keys :: "carrier \<Rightarrow> string list" where
  "carrier_Keys c = (case c of None \<Rightarrow> [] | Some t \<Rightarrow> map fst t)"

text \<open>A non-nil table with one entry per key.\<close>

definition carrier_ok :: "carrier \<Rightarrow> bool" where
  "carrier_ok c \<longleftrightarrow> (case c of None \<Rightarrow> False | Some t \<Rightarrow> table_wf t)"

text \<open>A propagator injects by setting its fields one after the other.\<close>

fun inject_all :: "('c \<Rightarrow> string \<Rightarrow> string \<Rightarrow> 'c outcome) \<Rightarrow> (string \<times> string) list \<Rightarrow> 'c \<Rightarrow> 'c outcome"
  where
  "inject_all set_field [] c = Returns c"
| "inject_all set_field ((k, v) # kvs) c =
     (case set_field c k v of
        Returns c' \<Rightarrow> inject_all set_field kvs c'
      | Panics msg \<Rightarrow> Panics msg
      | Blocks \<Rightarrow> Blocks)"

section \<open>The interface\<close>

locale text_map_carrier =
  fixes get_field :: "'c \<Rightarrow> string \<Rightarrow> string"
    and set_field :: "'c \<Rightarrow> string \<Rightarrow> string \<Rightarrow> 'c outcome"
    and keys :: "'c \<Rightarrow> string list"
    and usable :: "'c \<Rightarrow> bool"
  assumes set_returns: "usable c \<Longrightarrow> \<exists>c'. set_field c k v = Returns c' \<and> usable c'"
    and get_set: "usable c \<Longrightarrow> set_field c k v = Returns c' \<Longrightarrow>
      get_field c' k' = (if k' = k then v else get_field c k')"
    and keys_set: "usable c \<Longrightarrow> set_field c k v = Returns c' \<Longrightarrow>
      set (keys c') = insert k (set (keys c))"
    and keys_distinct: "usable c \<Longrightarrow> distinct (keys c)"
    and get_absent: "usable c \<Longrightarrow> k \<notin> set (keys c) \<Longrightarrow> get_field c k = []"
begin

lemma inject_returns: "usable c \<Longrightarrow> \<exists>c'. inject_all set_field kvs c = Returns c' \<and> usable c'"
proof (induction kvs arbitrary: c)
  case (Cons kv kvs)
  then show ?case using set_returns [of c "fst kv" "snd kv"] by (cases kv) fastforce
qed simp

lemma inject_get:
  "usable c \<Longrightarrow> inject_all set_field kvs c = Returns c' \<Longrightarrow>
     get_field c' k = (case map_of (rev kvs) k of None \<Rightarrow> get_field c k | Some v \<Rightarrow> v)"
proof (induction kvs arbitrary: c)
  case (Cons kv kvs)
  obtain a b where kv: "kv = (a, b)" by (cases kv)
  obtain c1 where c1: "set_field c a b = Returns c1" "usable c1"
    using set_returns Cons.prems(1) by blast
  then have "get_field c' k = (case map_of (rev kvs) k of None \<Rightarrow> get_field c1 k | Some v \<Rightarrow> v)"
    using Cons kv by simp
  with c1 show ?case
    using get_set [OF Cons.prems(1) c1(1), of k] kv
    by (auto simp: map_add_def split: option.splits)
qed simp

lemma inject_keys:
  "usable c \<Longrightarrow> inject_all set_field kvs c = Returns c' \<Longrightarrow>
     set (keys c') = fst ` set kvs \<union> set (keys c)"
proof (induction kvs arbitrary: c)
  case (Cons kv kvs)
  obtain a b where kv: "kv = (a, b)" by (cases kv)
  obtain c1 where c1: "set_field c a b = Returns c1" "usable c1"
    using set_returns Cons.prems(1) by blast
  then show ?case using Cons kv keys_set [OF Cons.prems(1) c1(1)] by auto
qed simp

lemma inject_roundtrip:
  assumes "usable c" "distinct (map fst kvs)" "(k, v) \<in> set kvs"
    "inject_all set_field kvs c = Returns c'"
  shows "get_field c' k = v"
proof -
  have "map_of (rev kvs) k = Some v"
    using assms by (simp add: map_of_eq_Some_iff rev_map [symmetric])
  with assms inject_get show ?thesis by simp
qed

end

lemma keys_update_set: "fst ` set (AList.update k v t) = insert k (fst ` set t)"
  by (induction t) auto

lemma carrier_Set_returns: "carrier_Set (Some t) k v = Returns (Some (AList.update k (FStr v) t))"
  by (simp add: carrier_Set_def table_set_def)

interpretation header_carrier: text_map_carrier carrier_Get carrier_Set carrier_Keys carrier_ok
proof unfold_locales
  fix c k v
  assume "carrier_ok c"
  then show "\<exists>c'. carrier_Set c k v = Returns c' \<and> carrier_ok c'"
    by (auto simp: carrier_ok_def carrier_Set_returns split: option.splits)
next
  fix c k v c' k'
  assume "carrier_ok c" "carrier_Set c k v = Returns c'"
  then show "carrier_Get c' k' = (if k' = k then v else carrier_Get c k')"
    by (auto simp: carrier_ok_def carrier_Set_returns carrier_Get_def split: option.splits)
next
  fix c k v c'
  assume "carrier_ok c" "carrier_Set c k v = Returns c'"
  then obtain t where "c = Some t" "c' = Some (AList.update k (FStr v) t)"
    by (auto simp: carrier_ok_def carrier_Set_returns split: option.splits)
  then show "set (carrier_Keys c') = insert k (set (carrier_Keys c))"
    by (simp add: carrier_Keys_def keys_update_set)
next
  fix c
  assume "carrier_ok c"
  then show "distinct (carrier_Keys c)"
    by (auto simp: carrier_ok_def carrier_Keys_def table_wf_def split: option.splits)
next
  fix c k
  assume "carrier_ok c" "k \<notin> set (carrier_Keys c)"
  then have "table_get c k = None"
    by (cases c) (simp_all add: carrier_Keys_def table_get_def map_of_eq_None_iff)
  then show "carrier_Get c k = []"
    by (simp add: carrier_Get_def)
qed

section \<open>Properties\<close>

text \<open>
  C34: injecting a trace context into the headers of a message never panics when the header
  map is not nil, every field injected is read back by \<^verbatim>\<open>Get\<close>, and every other header keeps
  its value, as the tests of the round trip and of coexistence with application headers expect.
\<close>

theorem carrier_inject_extract:
  assumes "carrier_ok c" "distinct (map fst kvs)"
  shows "\<exists>c'. inject_all carrier_Set kvs c = Returns c' \<and> carrier_ok c'
           \<and> (\<forall>(k, v) \<in> set kvs. carrier_Get c' k = v)
           \<and> (\<forall>k. k \<notin> fst ` set kvs \<longrightarrow> carrier_Get c' k = carrier_Get c k)
           \<and> set (carrier_Keys c') = fst ` set kvs \<union> set (carrier_Keys c)"
proof -
  obtain c' where c': "inject_all carrier_Set kvs c = Returns c'" "carrier_ok c'"
    using header_carrier.inject_returns assms(1) by blast
  have "k \<notin> fst ` set kvs \<Longrightarrow> carrier_Get c' k = carrier_Get c k" for k
    using header_carrier.inject_get [OF assms(1) c'(1), of k]
    by (simp add: map_of_eq_None_iff [THEN iffD2])
  then show ?thesis
    using c' header_carrier.inject_roundtrip [OF assms _ c'(1)]
      header_carrier.inject_keys [OF assms(1) c'(1)] by fastforce
qed

theorem carrier_inject_extract_witness:
  "\<exists>c'. inject_all carrier_Set [(''traceparent'', ''00-1-2-01''), (''tracestate'', ''k=v'')] (Some [(''type'', FStr ''order'')])
       = Returns c' \<and> carrier_Get c' ''traceparent'' = ''00-1-2-01''"
proof -
  have "carrier_ok (Some [(''type'', FStr ''order'')])" by (simp add: carrier_ok_def table_wf_def)
  from carrier_inject_extract [OF this, of "[(''traceparent'', ''00-1-2-01''), (''tracestate'', ''k=v'')]"]
  show ?thesis by auto
qed

end
