(* ===== verification/Metrics.thy ===== *)
theory Metrics
  imports Environment
begin

text \<open>
  \<^verbatim>\<open>metrics.go\<close>: the seven metric families, their registration with a Prometheus registry
  (undone as a whole when one collector is refused), and the two implementations of the
  \<^verbatim>\<open>Metrics\<close> interface. Prometheus itself is external: \<^verbatim>\<open>Register\<close> and \<^verbatim>\<open>Unregister\<close> are
  calls answered by \<open>L\<close>, and incrementing a counter is an event with its label values. The
  contract the rest of the SDK relies on is the locale \<open>metrics_sink\<close>: recording a metric is
  visible in the metrics only.
\<close>

section \<open>The Prometheus implementation\<close>

record prometheusMetrics =
  namespace :: string
  labels :: "string list"
  labelName :: string
  labelValue :: "(ctx \<Rightarrow> string) option"

text \<open>Names of the collectors, in the order in which they are registered.\<close>

fun metric_name :: "family \<Rightarrow> string" where
  "metric_name MessagesReceived = ''messages_received_total''"
| "metric_name ProcessingDuration = ''message_processing_duration_seconds''"
| "metric_name MessagesAcked = ''messages_acked_total''"
| "metric_name MessagesNacked = ''messages_nacked_total''"
| "metric_name PublishSuccess = ''publish_success_total''"
| "metric_name PublishFailed = ''publish_failed_total''"
| "metric_name Reconnects = ''reconnects_total''"

definition collectors :: "family list" where
  "collectors = [MessagesReceived, ProcessingDuration, MessagesAcked, MessagesNacked,
     PublishSuccess, PublishFailed, Reconnects]"

text \<open>The variable labels a collector is created with: none for the plain counter.\<close>

definition collector_labels :: "prometheusMetrics \<Rightarrow> family \<Rightarrow> string list" where
  "collector_labels m f = (if f = Reconnects then [] else labels m)"

text \<open>Registries are opaque references.\<close>

definition DefaultRegisterer :: nat where
  "DefaultRegisterer = 0"

fun unregister_all :: "nat \<Rightarrow> string \<Rightarrow> family list \<Rightarrow> hist \<Rightarrow> hist" where
  "unregister_all reg ns [] h = h"
| "unregister_all reg ns (f # fs) h = unregister_all reg ns fs (h @ [EvUnregister reg f ns])"

fun register_all ::
  "lib \<Rightarrow> nat \<Rightarrow> prometheusMetrics \<Rightarrow> family list \<Rightarrow> family list \<Rightarrow> hist \<Rightarrow> err option \<times> hist" where
  "register_all L reg m [] registered h = (None, h)"
| "register_all L reg m (f # fs) registered h =
     (let r = register L h reg f (namespace m);
          h1 = h @ [EvRegister reg f (namespace m) (collector_labels m f) r]
      in case r of
           Some e \<Rightarrow> (Some (ErrWrap ''register Prometheus metrics'' e),
                      unregister_all reg (namespace m) registered h1)
         | None \<Rightarrow> register_all L reg m fs (registered @ [f]) h1)"

definition newPrometheusMetrics ::
  "lib \<Rightarrow> nat option \<Rightarrow> string \<Rightarrow> string \<Rightarrow> (ctx \<Rightarrow> string) option \<Rightarrow> hist
     \<Rightarrow> (err + prometheusMetrics) \<times> hist" where
  "newPrometheusMetrics L registerer ns lname lvalue h =
     (let reg = (case registerer of None \<Rightarrow> DefaultRegisterer | Some r \<Rightarrow> r);
          m = \<lparr>namespace = ns,
               labels = [''queue_name''] @ (if lname \<noteq> [] then [lname] else []),
               labelName = lname, labelValue = lvalue\<rparr>
      in case register_all L reg m collectors [] h of
           (Some e, h1) \<Rightarrow> (Inl e, h1)
         | (None, h1) \<Rightarrow> (Inr m, h1))"

definition extraLabel :: "prometheusMetrics \<Rightarrow> ctx \<Rightarrow> string list" where
  "extraLabel m c =
     (if labelName m = [] then []
      else [case labelValue m of None \<Rightarrow> [] | Some f \<Rightarrow> f c])"

definition prom_IncMessagesReceived :: "prometheusMetrics \<Rightarrow> ctx \<Rightarrow> string \<Rightarrow> hist \<Rightarrow> hist" where
  "prom_IncMessagesReceived m c queue h = h @ [EvMetric MessagesReceived ([queue] @ extraLabel m c) 1]"

text \<open>The observed value is kept in nanoseconds; the conversion to seconds is not modelled.\<close>

definition prom_ObserveProcessingDuration ::
  "prometheusMetrics \<Rightarrow> ctx \<Rightarrow> string \<Rightarrow> duration \<Rightarrow> hist \<Rightarrow> hist" where
  "prom_ObserveProcessingDuration m c queue d h =
     h @ [EvMetric ProcessingDuration ([queue] @ extraLabel m c) d]"

definition prom_IncMessagesAcked :: "prometheusMetrics \<Rightarrow> ctx \<Rightarrow> string \<Rightarrow> hist \<Rightarrow> hist" where
  "prom_IncMessagesAcked m c queue h = h @ [EvMetric MessagesAcked ([queue] @ extraLabel m c) 1]"

definition prom_IncMessagesNacked :: "prometheusMetrics \<Rightarrow> ctx \<Rightarrow> string \<Rightarrow> hist \<Rightarrow> hist" where
  "prom_IncMessagesNacked m c queue h = h @ [EvMetric MessagesNacked ([queue] @ extraLabel m c) 1]"

definition prom_IncPublishSuccess :: "prometheusMetrics \<Rightarrow> ctx \<Rightarrow> string \<Rightarrow> hist \<Rightarrow> hist" where
  "prom_IncPublishSuccess m c queue h = h @ [EvMetric PublishSuccess ([queue] @ extraLabel m c) 1]"

definition prom_IncPublishFailed :: "prometheusMetrics \<Rightarrow> ctx \<Rightarrow> string \<Rightarrow> hist \<Rightarrow> hist" where
  "prom_IncPublishFailed m c queue h = h @ [EvMetric PublishFailed ([queue] @ extraLabel m c) 1]"

definition prom_IncReconnects :: "prometheusMetrics \<Rightarrow> ctx \<Rightarrow> hist \<Rightarrow> hist" where
  "prom_IncReconnects m c h = h @ [EvMetric Reconnects [] 1]"

lemmas prom_defs = prom_IncMessagesReceived_def prom_ObserveProcessingDuration_def
  prom_IncMessagesAcked_def prom_IncMessagesNacked_def prom_IncPublishSuccess_def
  prom_IncPublishFailed_def prom_IncReconnects_def

section \<open>The Metrics interface and its dynamic dispatch\<close>

text \<open>\<^verbatim>\<open>noOpMetrics\<close> does nothing; the SDK calls whichever implementation it holds.\<close>

datatype metrics = NoOpMetrics | PrometheusMetrics prometheusMetrics

fun IncMessagesReceived :: "metrics \<Rightarrow> ctx \<Rightarrow> string \<Rightarrow> hist \<Rightarrow> hist" where
  "IncMessagesReceived NoOpMetrics c q h = h"
| "IncMessagesReceived (PrometheusMetrics m) c q h = prom_IncMessagesReceived m c q h"

fun ObserveProcessingDuration :: "metrics \<Rightarrow> ctx \<Rightarrow> string \<Rightarrow> duration \<Rightarrow> hist \<Rightarrow> hist" where
  "ObserveProcessingDuration NoOpMetrics c q d h = h"
| "ObserveProcessingDuration (PrometheusMetrics m) c q d h = prom_ObserveProcessingDuration m c q d h"

fun IncMessagesAcked :: "metrics \<Rightarrow> ctx \<Rightarrow> string \<Rightarrow> hist \<Rightarrow> hist" where
  "IncMessagesAcked NoOpMetrics c q h = h"
| "IncMessagesAcked (PrometheusMetrics m) c q h = prom_IncMessagesAcked m c q h"

fun IncMessagesNacked :: "metrics \<Rightarrow> ctx \<Rightarrow> string \<Rightarrow> hist \<Rightarrow> hist" where
  "IncMessagesNacked NoOpMetrics c q h = h"
| "IncMessagesNacked (PrometheusMetrics m) c q h = prom_IncMessagesNacked m c q h"

fun IncPublishSuccess :: "metrics \<Rightarrow> ctx \<Rightarrow> string \<Rightarrow> hist \<Rightarrow> hist" where
  "IncPublishSuccess NoOpMetrics c q h = h"
| "IncPublishSuccess (PrometheusMetrics m) c q h = prom_IncPublishSuccess m c q h"

fun IncPublishFailed :: "metrics \<Rightarrow> ctx \<Rightarrow> string \<Rightarrow> hist \<Rightarrow> hist" where
  "IncPublishFailed NoOpMetrics c q h = h"
| "IncPublishFailed (PrometheusMetrics m) c q h = prom_IncPublishFailed m c q h"

fun IncReconnects :: "metrics \<Rightarrow> ctx \<Rightarrow> hist \<Rightarrow> hist" where
  "IncReconnects NoOpMetrics c h = h"
| "IncReconnects (PrometheusMetrics m) c h = prom_IncReconnects m c h"

section \<open>The contract of a metrics sink\<close>

fun is_metric :: "event \<Rightarrow> bool" where
  "is_metric (EvMetric _ _ _) = True"
| "is_metric _ = False"

text \<open>A step of the SDK that only records metrics.\<close>

definition metric_only :: "(hist \<Rightarrow> hist) \<Rightarrow> bool" where
  "metric_only f \<longleftrightarrow> (\<forall>h. \<exists>es. f h = h @ es \<and> list_all is_metric es)"

lemma chan_effect_metric: "list_all is_metric es \<Longrightarrow> fold chan_effect es m = m"
proof (induction es arbitrary: m)
  case (Cons e es)
  then show ?case by (cases e) auto
qed simp

lemma conn_effect_metric: "list_all is_metric es \<Longrightarrow> fold conn_effect es m = m"
proof (induction es arbitrary: m)
  case (Cons e es)
  then show ?case by (cases e) auto
qed simp

locale metrics_sink =
  fixes received acked nacked published failed :: "ctx \<Rightarrow> string \<Rightarrow> hist \<Rightarrow> hist"
    and observed :: "ctx \<Rightarrow> string \<Rightarrow> duration \<Rightarrow> hist \<Rightarrow> hist"
    and reconnected :: "ctx \<Rightarrow> hist \<Rightarrow> hist"
  assumes received: "metric_only (received c q)"
    and acked: "metric_only (acked c q)"
    and nacked: "metric_only (nacked c q)"
    and published: "metric_only (published c q)"
    and failed: "metric_only (failed c q)"
    and observed: "metric_only (observed c q d)"
    and reconnected: "metric_only (reconnected c)"
begin

lemmas sink_laws = received acked nacked published failed observed reconnected

lemma live_chans_metric: "metric_only f \<Longrightarrow> live_chans (f h) = live_chans h"
  unfolding metric_only_def live_chans_def
  by (metis chan_effect_metric fold_append comp_apply)

lemma live_conns_metric: "metric_only f \<Longrightarrow> live_conns (f h) = live_conns h"
  unfolding metric_only_def live_conns_def
  by (metis conn_effect_metric fold_append comp_apply)

text \<open>No metric opens or closes an AMQP channel or a connection.\<close>

lemmas sink_live_chans = sink_laws [THEN live_chans_metric]
lemmas sink_live_conns = sink_laws [THEN live_conns_metric]

lemma metric_filter:
  assumes "metric_only f"
  shows "filter (\<lambda>e. \<not> is_metric e) (f h) = filter (\<lambda>e. \<not> is_metric e) h"
proof -
  obtain es where "f h = h @ es" "list_all is_metric es"
    using assms unfolding metric_only_def by blast
  then show ?thesis by (simp add: list_all_iff)
qed

lemmas sink_filter = sink_laws [THEN metric_filter]

end

interpretation prom: metrics_sink
  "prom_IncMessagesReceived m" "prom_IncMessagesAcked m" "prom_IncMessagesNacked m"
  "prom_IncPublishSuccess m" "prom_IncPublishFailed m" "prom_ObserveProcessingDuration m"
  "prom_IncReconnects m"
  for m :: prometheusMetrics
  by unfold_locales (auto simp: metric_only_def prom_defs)

interpretation sink: metrics_sink
  "IncMessagesReceived s" "IncMessagesAcked s" "IncMessagesNacked s" "IncPublishSuccess s"
  "IncPublishFailed s" "ObserveProcessingDuration s" "IncReconnects s"
  for s :: metrics
  by (cases s; unfold_locales)
    (auto simp: prom.received prom.acked prom.nacked prom.published prom.failed prom.observed
      prom.reconnected metric_only_def prom_defs)

lemmas metrics_live [simp] = sink.sink_live_chans sink.sink_live_conns

section \<open>What is registered\<close>

fun reg_effect :: "event \<Rightarrow> (nat \<times> family \<times> string) multiset \<Rightarrow> (nat \<times> family \<times> string) multiset" where
  "reg_effect (EvRegister r f ns _ None) m = add_mset (r, f, ns) m"
| "reg_effect (EvUnregister r f ns) m = m - {#(r, f, ns)#}"
| "reg_effect _ m = m"

definition registered :: "hist \<Rightarrow> (nat \<times> family \<times> string) multiset" where
  "registered h = fold reg_effect h {#}"

lemma registered_snoc [simp]: "registered (h @ [e]) = reg_effect e (registered h)"
  by (simp add: registered_def)

lemma registered_unregister_all:
  "registered (unregister_all reg ns fs h) = registered h - mset (map (\<lambda>f. (reg, f, ns)) fs)"
  by (induction fs arbitrary: h) auto

lemma register_all_registered:
  "registered h = R + mset (map (\<lambda>f. (reg, f, namespace m)) ds) \<Longrightarrow>
   registered (snd (register_all L reg m fs ds h)) =
     (if fst (register_all L reg m fs ds h) = None
      then R + mset (map (\<lambda>f. (reg, f, namespace m)) (ds @ fs)) else R)"
proof (induction fs arbitrary: ds h)
  case (Cons f fs)
  show ?case
  proof (cases "register L h reg f (namespace m)")
    case None
    with Cons show ?thesis by (simp add: Let_def add_ac)
  next
    case (Some e)
    with Cons.prems show ?thesis by (simp add: Let_def registered_unregister_all)
  qed
qed simp

lemma unregister_all_live [simp]:
  "live_chans (unregister_all reg ns fs h) = live_chans h"
  "live_conns (unregister_all reg ns fs h) = live_conns h"
  by (induction fs arbitrary: h) auto

lemma register_all_live [simp]:
  "live_chans (snd (register_all L reg m fs ds h)) = live_chans h"
  "live_conns (snd (register_all L reg m fs ds h)) = live_conns h"
  by (induction fs arbitrary: ds h) (auto simp: Let_def split: option.splits)

lemma newPrometheusMetrics_live [simp]:
  "live_chans (snd (newPrometheusMetrics L rg ns ln lv h)) = live_chans h"
  "live_conns (snd (newPrometheusMetrics L rg ns ln lv h)) = live_conns h"
proof -
  show "live_chans (snd (newPrometheusMetrics L rg ns ln lv h)) = live_chans h"
    by (auto simp: newPrometheusMetrics_def Let_def split: option.splits prod.splits
        dest: arg_cong [where f = "\<lambda>p. live_chans (snd p)"])
  show "live_conns (snd (newPrometheusMetrics L rg ns ln lv h)) = live_conns h"
    by (auto simp: newPrometheusMetrics_def Let_def split: option.splits prod.splits
        dest: arg_cong [where f = "\<lambda>p. live_conns (snd p)"])
qed

lemma newPrometheusMetrics_result:
  "case newPrometheusMetrics L rg ns ln lv h of
     (Inl e, h') \<Rightarrow> registered h' = registered h
   | (Inr m, h') \<Rightarrow> registered h' = registered h + mset (map (\<lambda>f. (case rg of None \<Rightarrow> DefaultRegisterer | Some r \<Rightarrow> r, f, ns)) collectors)"
proof -
  define reg where "reg = (case rg of None \<Rightarrow> DefaultRegisterer | Some r \<Rightarrow> r)"
  define m where "m = \<lparr>namespace = ns, labels = [''queue_name''] @ (if ln \<noteq> [] then [ln] else []),
    labelName = ln, labelValue = lv\<rparr>"
  have new: "newPrometheusMetrics L rg ns ln lv h =
      (case register_all L reg m collectors [] h of
         (Some e, h1) \<Rightarrow> (Inl e, h1) | (None, h1) \<Rightarrow> (Inr m, h1))"
    unfolding newPrometheusMetrics_def Let_def m_def reg_def by (rule refl)
  have "registered (snd (register_all L reg m collectors [] h)) =
      (if fst (register_all L reg m collectors [] h) = None
       then registered h + mset (map (\<lambda>f. (reg, f, ns)) collectors) else registered h)"
    using register_all_registered [of h "registered h" reg m "[]" L collectors] by (simp add: m_def)
  then show ?thesis
    unfolding new by (auto simp: reg_def split: option.splits prod.splits)
qed

lemma newPrometheusMetrics_registered:
  assumes "newPrometheusMetrics L rg ns ln lv h = (r, h')"
  shows "r = Inl e \<Longrightarrow> registered h' = registered h"
  using newPrometheusMetrics_result [where L = L and rg = rg and ns = ns and ln = ln and lv = lv and h = h] assms
  by simp

fun arity_ok :: "prometheusMetrics \<Rightarrow> event \<Rightarrow> bool" where
  "arity_ok m (EvMetric f vs _) = (length vs = length (collector_labels m f))"
| "arity_ok m _ = False"

section \<open>Properties\<close>

text \<open>
  Registering the metrics is all or nothing. When \<^verbatim>\<open>newPrometheusMetrics\<close> succeeds, all
  seven collectors are registered in addition to what was there; when any collector is
  refused, the registry holds exactly what it held before the call.
\<close>

theorem metrics_registration_atomic:
  "case newPrometheusMetrics L rg ns ln lv h of
     (Inl e, h') \<Rightarrow> registered h' = registered h
   | (Inr m, h') \<Rightarrow> registered h' = registered h + mset (map (\<lambda>f. (case rg of None \<Rightarrow> DefaultRegisterer | Some r \<Rightarrow> r, f, ns)) collectors)"
  by (rule newPrometheusMetrics_result)

text \<open>
  C38: every metric is recorded with exactly as many label values as its collector was
  created with labels, with and without the application-defined label (Prometheus panics
  otherwise), for all seven operations.
\<close>

theorem label_arity:
  assumes "newPrometheusMetrics L rg ns ln lv h = (Inr m, h')"
  shows "list_all (arity_ok m)
     (prom_IncMessagesReceived m c q [] @ prom_ObserveProcessingDuration m c q d []
      @ prom_IncMessagesAcked m c q [] @ prom_IncMessagesNacked m c q []
      @ prom_IncPublishSuccess m c q [] @ prom_IncPublishFailed m c q []
      @ prom_IncReconnects m c [])"
  using assms
  by (auto simp: newPrometheusMetrics_def Let_def extraLabel_def collector_labels_def prom_defs
      split: option.splits prod.splits)

theorem label_arity_witness:
  "\<exists>m h'. newPrometheusMetrics calm_lib None ''huma'' ''app'' None [] = (Inr m, h')
     \<and> list_all (arity_ok m) (prom_IncMessagesReceived m (CtxOf 0) ''q'' [] @ prom_IncReconnects m (CtxOf 0) [])"
proof -
  obtain m h' where m: "newPrometheusMetrics calm_lib None ''huma'' ''app'' None [] = (Inr m, h')"
    by (simp add: newPrometheusMetrics_def collectors_def Let_def)
  show ?thesis using label_arity [OF m, of "CtxOf 0" "''q''" 0] m by auto
qed

end
