(* ===== verification/Publisher_Pool.thy ===== *)
theory Publisher_Pool
  imports Environment
begin

text \<open>
  \<^verbatim>\<open>publisher_pool.go\<close>: the pool of AMQP channels that publishes share. Each operation is one
  definition, run without other goroutines in between; \<open>Pool_Concurrency\<close> runs the same
  code interleaved. A loop iteration of \<^verbatim>\<open>get\<close> has three phases: take a channel from
  the buffer, open one under the mutex, wait in the \<^verbatim>\<open>select\<close>.
\<close>

section \<open>State\<close>

record pool =
  pool_conn :: conn_ref
  rawConn :: "raw_ref option"
  channels :: "chan_ref gochan"
  pool_size :: int
  maxPoolSize :: int
  closed :: bool
  currentPoolSize :: int

text \<open>\<^verbatim>\<open>atomic.Int32.Add\<close>.\<close>

definition add_cur :: "int \<Rightarrow> pool \<Rightarrow> pool" where
  "add_cur n p = p\<lparr>currentPoolSize := wrap32 (currentPoolSize p + n)\<rparr>"

definition pool_is_closed :: err where
  "pool_is_closed = ErrNew ''publisher pool is closed''"

section \<open>close\<close>

fun drain_channels ::
  "lib \<Rightarrow> chan_ref list \<Rightarrow> pool \<Rightarrow> err option list \<Rightarrow> hist \<Rightarrow> err option list \<times> pool \<times> hist" where
  "drain_channels L [] p errs h = (errs, p, h)"
| "drain_channels L (ch # chs) p errs h =
     (let p1 = add_cur (-1) (p\<lparr>channels := (channels p)\<lparr>buf := chs\<rparr>\<rparr>)
      in case ch_close L ch h of (e, h1) \<Rightarrow>
           drain_channels L chs p1 (if is_other_err AmqpErrClosed e then errs @ [e] else errs) h1)"

definition pool_close :: "lib \<Rightarrow> pool \<Rightarrow> hist \<Rightarrow> (err option \<times> pool) outcome \<times> hist" where
  "pool_close L p h =
     (if closed p then (Returns (None, p), h)
      else (case chan_close (channels p) of
              None \<Rightarrow> (Panics ''close of closed channel'', h)
            | Some c \<Rightarrow>
                (case drain_channels L (buf c) (p\<lparr>closed := True, channels := c\<rparr>) [] h of
                   (errs, p1, h1) \<Rightarrow> (Returns (errors_join errs, p1), h1))))"

section \<open>newPublisherChannelPool\<close>

fun fill_pool :: "lib \<Rightarrow> nat \<Rightarrow> pool \<Rightarrow> hist \<Rightarrow> (err + pool) outcome \<times> hist" where
  "fill_pool L 0 p h = (Returns (Inr p), h)"
| "fill_pool L (Suc n) p h =
     (case conn_channel L (pool_conn p) h of
        (Inl e, h1) \<Rightarrow>
          obind (pool_close L p h1) (\<lambda>(ce, _) h2. (Returns (Inl (join_err e [ce])), h2))
      | (Inr ch, h1) \<Rightarrow>
          (case ch_confirm L ch False h1 of
             (Some e, h2) \<Rightarrow>
               (case ch_close L ch h2 of (xe, h3) \<Rightarrow>
                  obind (pool_close L p h3) (\<lambda>(ce, _) h4. (Returns (Inl (join_err e [xe, ce])), h4)))
           | (None, h2) \<Rightarrow>
               (case chan_send (channels p) ch of
                  Sent c \<Rightarrow> fill_pool L n (add_cur 1 (p\<lparr>channels := c\<rparr>)) h2
                | SendBlocks \<Rightarrow> (Blocks, h2)
                | SendPanics \<Rightarrow> (Panics ''send on closed channel'', h2))))"

definition newPublisherChannelPool ::
  "lib \<Rightarrow> conn_ref \<Rightarrow> raw_ref option \<Rightarrow> int \<Rightarrow> int \<Rightarrow> hist \<Rightarrow> (err + pool) outcome \<times> hist" where
  "newPublisherChannelPool L c raw sz maxSz h =
     (if sz < 0 then (Panics ''makechan: size out of range'', h)
      else fill_pool L (nat sz)
        \<lparr>pool_conn = c, rawConn = raw, channels = make_chan (nat sz), pool_size = sz,
         maxPoolSize = wrap32 maxSz, closed = False, currentPoolSize = 0\<rparr> h)"

section \<open>interrupt\<close>

definition pool_interrupt :: "lib \<Rightarrow> pool \<Rightarrow> hist \<Rightarrow> err option \<times> hist" where
  "pool_interrupt L p h =
     (case rawConn p of
        None \<Rightarrow> (None, h)
      | Some r \<Rightarrow>
          (case now L h of (t, h1) \<Rightarrow>
           case raw_set_deadline L r t h1 of (e1, h2) \<Rightarrow>
           case raw_close L r h2 of (e2, h3) \<Rightarrow> (errors_join [e1, e2], h3)))"

section \<open>get\<close>

definition tryTakeChannel :: "pool \<Rightarrow> (err + chan_ref option) \<times> pool" where
  "tryTakeChannel p =
     (case chan_recv (channels p) of
        Received ch c \<Rightarrow> (Inr (Some ch), p\<lparr>channels := c\<rparr>)
      | RecvClosed \<Rightarrow> (Inl pool_is_closed, p)
      | RecvBlocks \<Rightarrow> (Inr None, p))"

text \<open>Each phase answers \<open>Some r\<close> when \<^verbatim>\<open>get\<close> returns \<open>r\<close> there, \<open>None\<close> to go on.\<close>

type_synonym get_phase = "(err + chan_ref) option \<times> pool \<times> hist"

definition get_take :: "lib \<Rightarrow> ctx \<Rightarrow> pool \<Rightarrow> hist \<Rightarrow> get_phase" where
  "get_take L c p h =
     (case ctx_err L c h of
        (Some e, h1) \<Rightarrow> (Some (Inl (ErrWrap ''get publisher channel'' e)), p, h1)
      | (None, h1) \<Rightarrow>
          (case tryTakeChannel p of
             (Inl e, p1) \<Rightarrow> (Some (Inl e), p1, h1)
           | (Inr None, p1) \<Rightarrow> (None, p1, h1)
           | (Inr (Some ch), p1) \<Rightarrow>
               (case ch_is_closed L ch h1 of (dead, h2) \<Rightarrow>
                  if \<not> dead then (Some (Inr ch), p1, h2)
                  else (None, add_cur (-1) p1, h2))))"

definition get_grow :: "lib \<Rightarrow> pool \<Rightarrow> hist \<Rightarrow> get_phase" where
  "get_grow L p h =
     (if currentPoolSize p < maxPoolSize p then
        (if closed p then (Some (Inl pool_is_closed), p, h)
         else if currentPoolSize p < maxPoolSize p then
           (case conn_channel L (pool_conn p) h of
              (Inl e, h1) \<Rightarrow> (Some (Inl e), p, h1)
            | (Inr ch, h1) \<Rightarrow>
                (case ch_confirm L ch False h1 of
                   (Some e, h2) \<Rightarrow>
                     (case ch_close L ch h2 of (ce, h3) \<Rightarrow> (Some (Inl (join_err e [ce])), p, h3))
                 | (None, h2) \<Rightarrow> (Some (Inr ch), add_cur 1 p, h2)))
         else (None, p, h))
      else (None, p, h))"

definition get_select :: "lib \<Rightarrow> ctx \<Rightarrow> pool \<Rightarrow> hist \<Rightarrow> get_phase" where
  "get_select L c p h =
     (case chan_recv (channels p) of
        Received ch ch' \<Rightarrow>
          (case select_done L c h of
             (Some e, h1) \<Rightarrow>
               (Some (Inl (ErrWrap ''wait for available publisher channel'' e)), p, h1)
           | (None, h1) \<Rightarrow>
               (case ch_is_closed L ch h1 of (dead, h2) \<Rightarrow>
                  if dead then (None, add_cur (-1) (p\<lparr>channels := ch'\<rparr>), h2)
                  else (Some (Inr ch), p\<lparr>channels := ch'\<rparr>, h2)))
      | RecvClosed \<Rightarrow>
          (case select_done L c h of
             (Some e, h1) \<Rightarrow>
               (Some (Inl (ErrWrap ''wait for available publisher channel'' e)), p, h1)
           | (None, h1) \<Rightarrow> (Some (Inl pool_is_closed), p, h1))
      | RecvBlocks \<Rightarrow>
          (case await_done L c h of (e, h1) \<Rightarrow>
             (Some (Inl (ErrWrap ''wait for available publisher channel'' e)), p, h1)))"

lemma get_take_buf: "get_take L c p h = (r, p1, h1) \<Longrightarrow> length (buf (channels p1)) \<le> length (buf (channels p))"
  by (auto simp: get_take_def tryTakeChannel_def chan_recv_def add_cur_def env_defs Let_def
      split: option.splits list.splits if_splits)

lemma get_grow_buf [simp]: "get_grow L p h = (r, p1, h1) \<Longrightarrow> buf (channels p1) = buf (channels p)"
  by (auto simp: get_grow_def add_cur_def env_defs Let_def
      split: option.splits list.splits if_splits sum.splits)

lemma get_select_buf:
  "get_select L c p h = (None, p1, h1) \<Longrightarrow> length (buf (channels p1)) < length (buf (channels p))"
  by (auto simp: get_select_def chan_recv_def add_cur_def env_defs Let_def
      split: option.splits list.splits if_splits)

text \<open>Go on with \<open>f\<close> unless \<^verbatim>\<open>get\<close> has returned.\<close>

definition phase_then ::
  "get_phase \<Rightarrow> (pool \<Rightarrow> hist \<Rightarrow> (err + chan_ref) \<times> pool \<times> hist) \<Rightarrow> (err + chan_ref) \<times> pool \<times> hist" where
  "phase_then ph f = (case ph of (Some r, p, h) \<Rightarrow> (r, p, h) | (None, p, h) \<Rightarrow> f p h)"

lemma phase_then_cong [fundef_cong]:
  "ph = ph' \<Longrightarrow> (\<And>p h. ph' = (None, p, h) \<Longrightarrow> f p h = g p h) \<Longrightarrow> phase_then ph f = phase_then ph' g"
  by (auto simp: phase_then_def split: prod.splits option.splits)

function (sequential) get :: "lib \<Rightarrow> ctx \<Rightarrow> pool \<Rightarrow> hist \<Rightarrow> (err + chan_ref) \<times> pool \<times> hist" where
  "get L c p h =
     phase_then (get_take L c p h) (\<lambda>p1 h1.
       phase_then (get_grow L p1 h1) (\<lambda>p2 h2.
         phase_then (get_select L c p2 h2) (\<lambda>p3 h3. get L c p3 h3)))"
  by pat_completeness auto
termination
  by (relation "measure (\<lambda>(L, c, p, h). length (buf (channels p)))")
    (auto dest!: get_take_buf get_grow_buf get_select_buf)

declare get.simps [simp del]

section \<open>put\<close>

text \<open>The branch that gives up on a channel: it no longer counts and is closed unless it is already.\<close>

definition put_drop :: "lib \<Rightarrow> chan_ref \<Rightarrow> pool \<Rightarrow> hist \<Rightarrow> (err option \<times> pool) outcome \<times> hist" where
  "put_drop L ch p h =
     (let p1 = add_cur (-1) p
      in case ch_is_closed L ch h of (dead, h1) \<Rightarrow>
           if dead then (Returns (None, p1), h1)
           else (case ch_close L ch h1 of (e, h2) \<Rightarrow> (Returns (e, p1), h2)))"

definition put :: "lib \<Rightarrow> chan_ref option \<Rightarrow> pool \<Rightarrow> hist \<Rightarrow> (err option \<times> pool) outcome \<times> hist" where
  "put L chp p h =
     (case chp of
        None \<Rightarrow> (Returns (None, p), h)
      | Some ch \<Rightarrow>
          if closed p then put_drop L ch p h
          else (case ch_is_closed L ch h of (dead, h1) \<Rightarrow>
                  if dead then put_drop L ch p h1
                  else (case chan_send (channels p) ch of
                       Sent c \<Rightarrow> (Returns (None, p\<lparr>channels := c\<rparr>), h1)
                     | SendBlocks \<Rightarrow>
                         (case ch_close L ch h1 of (e, h2) \<Rightarrow> (Returns (e, add_cur (-1) p), h2))
                     | SendPanics \<Rightarrow> (Panics ''send on closed channel'', h1))))"

section \<open>Invariant\<close>

text \<open>
  With \<open>out\<close> channels handed out: the counter counts the idle and the handed out channels, it
  stays within the maximum, and the \<open>closed\<close> flag says whether the Go channel is closed (and
  then drained).
\<close>

definition pool_ok :: "nat \<Rightarrow> pool \<Rightarrow> bool" where
  "pool_ok out p \<longleftrightarrow>
     closed p = chan_closed (channels p) \<and> (closed p \<longrightarrow> buf (channels p) = []) \<and>
     length (buf (channels p)) \<le> cap (channels p) \<and>
     currentPoolSize p = int (length (buf (channels p)) + out) \<and>
     currentPoolSize p \<le> maxPoolSize p \<and> in_int32 (maxPoolSize p)"

lemmas pool_defs = pool_ok_def add_cur_def in_int32_def

lemma cur_in_int32: "pool_ok out p \<Longrightarrow> in_int32 (currentPoolSize p)"
  by (auto simp: pool_ok_def in_int32_def)

lemma cur_dec:
  "pool_ok out p \<Longrightarrow> 0 < currentPoolSize p \<Longrightarrow> wrap32 (currentPoolSize p - 1) = currentPoolSize p - 1"
  by (intro wrap32_id) (auto simp: pool_ok_def in_int32_def)

lemma cur_inc:
  "pool_ok out p \<Longrightarrow> currentPoolSize p < maxPoolSize p \<Longrightarrow>
     wrap32 (currentPoolSize p + 1) = currentPoolSize p + 1"
  by (intro wrap32_id) (auto simp: pool_ok_def in_int32_def)

text \<open>The three ways the state moves: a channel leaves the buffer, leaves for good, or joins.\<close>

lemma pool_ok_take:
  assumes "pool_ok out p" "buf (channels p) = ch # chs"
  shows "pool_ok (Suc out) (p\<lparr>channels := (channels p)\<lparr>buf := chs\<rparr>\<rparr>)"
  using assms by (auto simp: pool_ok_def)

lemma pool_ok_forget:
  assumes "pool_ok (Suc out) p"
  shows "pool_ok out (add_cur (-1) p)"
proof -
  have "wrap32 (currentPoolSize p - 1) = currentPoolSize p - 1"
    using assms by (intro cur_dec [of "Suc out"]) (auto simp: pool_ok_def)
  with assms show ?thesis by (auto simp: pool_ok_def add_cur_def)
qed

lemma pool_ok_grow:
  assumes "pool_ok out p" "currentPoolSize p < maxPoolSize p"
  shows "pool_ok (Suc out) (add_cur 1 p)"
  using assms cur_inc [OF assms] by (auto simp: pool_ok_def add_cur_def)

lemma pool_ok_return:
  assumes "pool_ok (Suc out) p" "\<not> closed p" "length (buf (channels p)) < cap (channels p)"
  shows "pool_ok out (p\<lparr>channels := (channels p)\<lparr>buf := buf (channels p) @ [ch]\<rparr>\<rparr>)"
  using assms by (auto simp: pool_ok_def)

section \<open>close and newPublisherChannelPool\<close>

lemma drain_channels_spec:
  assumes "buf (channels p) = chs" "closed p" "chan_closed (channels p)"
    "currentPoolSize p = int (length chs + out)" "currentPoolSize p \<le> maxPoolSize p"
    "in_int32 (maxPoolSize p)" "length chs \<le> cap (channels p)"
  shows "case drain_channels L chs p errs h of (errs', p', h') \<Rightarrow>
     pool_ok out p' \<and> closed p' \<and> live_chans h' = live_chans h - mset chs
     \<and> live_conns h' = live_conns h \<and> set errs \<subseteq> set errs'"
  using assms
proof (induction chs arbitrary: p errs h)
  case Nil
  then show ?case by (auto simp: pool_ok_def)
next
  case (Cons ch chs)
  let ?p1 = "add_cur (-1) (p\<lparr>channels := (channels p)\<lparr>buf := chs\<rparr>\<rparr>)"
  let ?h1 = "h @ [EvChClose ch (chClose L h ch)]"
  let ?errs1 = "if is_other_err AmqpErrClosed (chClose L h ch) then errs @ [chClose L h ch] else errs"
  have dec: "wrap32 (currentPoolSize p - 1) = currentPoolSize p - 1"
    using Cons.prems by (intro wrap32_id) (auto simp: in_int32_def)
  have "case drain_channels L chs ?p1 ?errs1 ?h1 of (errs', p', h') \<Rightarrow>
     pool_ok out p' \<and> closed p' \<and> live_chans h' = live_chans ?h1 - mset chs
     \<and> live_conns h' = live_conns ?h1 \<and> set ?errs1 \<subseteq> set errs'"
    using Cons.prems dec by (intro Cons.IH) (auto simp: add_cur_def)
  then show ?case
    by (auto simp: ch_close_def Let_def split: prod.splits if_splits)
qed

lemma pool_close_spec:
  assumes "pool_ok out p"
  shows "\<exists>e p' h'. pool_close L p h = (Returns (e, p'), h') \<and> pool_ok out p' \<and> closed p'
     \<and> live_chans h' = live_chans h - mset (buf (channels p)) \<and> live_conns h' = live_conns h"
proof (cases "closed p")
  case True
  with assms show ?thesis by (auto simp: pool_close_def pool_ok_def)
next
  case False
  let ?c = "(channels p)\<lparr>chan_closed := True\<rparr>"
  let ?p = "p\<lparr>closed := True, channels := ?c\<rparr>"
  have "case drain_channels L (buf ?c) ?p [] h of (errs', p', h') \<Rightarrow>
     pool_ok out p' \<and> closed p' \<and> live_chans h' = live_chans h - mset (buf ?c)
     \<and> live_conns h' = live_conns h \<and> set [] \<subseteq> set errs'"
    using assms False by (intro drain_channels_spec) (auto simp: pool_ok_def)
  with assms False show ?thesis
    by (auto simp: pool_close_def pool_ok_def chan_close_def split: prod.splits)
qed

text \<open>Filling the pool: what holds of the channels opened so far, and that none is left behind.\<close>

definition filled :: "pool \<Rightarrow> nat \<Rightarrow> pool \<Rightarrow> bool" where
  "filled p n p' \<longleftrightarrow>
     pool_ok 0 p' \<and> \<not> closed p' \<and> length (buf (channels p')) = length (buf (channels p)) + n \<and>
     pool_conn p' = pool_conn p \<and> rawConn p' = rawConn p \<and> maxPoolSize p' = maxPoolSize p \<and>
     pool_size p' = pool_size p \<and> cap (channels p') = cap (channels p)"

lemma fill_pool_spec:
  assumes "pool_ok 0 p" "\<not> closed p" "length (buf (channels p)) + n \<le> cap (channels p)"
    "int (length (buf (channels p)) + n) \<le> maxPoolSize p"
    "live_chans h = R + mset (buf (channels p))"
  shows "\<exists>r h'. fill_pool L n p h = (Returns r, h') \<and> live_conns h' = live_conns h \<and>
     (case r of Inl e \<Rightarrow> live_chans h' = R
      | Inr p' \<Rightarrow> filled p n p' \<and> live_chans h' = R + mset (buf (channels p')))"
  using assms
proof (induction n arbitrary: p h)
  case 0
  then show ?case by (auto simp: filled_def)
next
  case (Suc n)
  show ?case
  proof (cases "connChannel L h (pool_conn p)")
    case (Inl e)
    with Suc.prems pool_close_spec [OF Suc.prems(1), of L "h @ [EvConnChannel (pool_conn p) (Inl e)]"]
    show ?thesis by (auto simp: conn_channel_def Let_def)
  next
    case (Inr ch)
    let ?h1 = "h @ [EvConnChannel (pool_conn p) (Inr ch)]"
    show ?thesis
    proof (cases "chConfirm L ?h1 ch")
      case (Some e)
      let ?h2 = "?h1 @ [EvChConfirm ch False (Some e)]"
      let ?h3 = "?h2 @ [EvChClose ch (chClose L ?h2 ch)]"
      have "live_chans ?h3 = live_chans h" "live_conns ?h3 = live_conns h"
        by simp_all
      with Suc.prems Inr Some pool_close_spec [OF Suc.prems(1), of L ?h3] show ?thesis
        by (auto simp: conn_channel_def ch_confirm_def ch_close_def Let_def)
    next
      case None
      let ?h2 = "?h1 @ [EvChConfirm ch False None]"
      let ?p = "add_cur 1 (p\<lparr>channels := (channels p)\<lparr>buf := buf (channels p) @ [ch]\<rparr>\<rparr>)"
      have inc: "wrap32 (currentPoolSize p + 1) = currentPoolSize p + 1"
        using Suc.prems by (intro cur_inc) (auto simp: pool_ok_def)
      have ok: "pool_ok 0 ?p" using Suc.prems inc by (auto simp: pool_ok_def add_cur_def)
      have live: "live_chans ?h2 = R + mset (buf (channels ?p))" "live_conns ?h2 = live_conns h"
        using Suc.prems by (simp_all add: add_cur_def)
      have "\<exists>r h'. fill_pool L n ?p ?h2 = (Returns r, h') \<and> live_conns h' = live_conns ?h2 \<and>
         (case r of Inl e \<Rightarrow> live_chans h' = R
          | Inr p' \<Rightarrow> filled ?p n p' \<and> live_chans h' = R + mset (buf (channels p')))"
        using Suc.prems ok live by (intro Suc.IH) (auto simp: add_cur_def)
      then obtain r h' where "fill_pool L n ?p ?h2 = (Returns r, h')" "live_conns h' = live_conns ?h2"
        "case r of Inl e \<Rightarrow> live_chans h' = R
          | Inr p' \<Rightarrow> filled ?p n p' \<and> live_chans h' = R + mset (buf (channels p'))"
        by blast
      moreover have "fill_pool L (Suc n) p h = fill_pool L n ?p ?h2"
        using Suc.prems Inr None
        by (auto simp: conn_channel_def ch_confirm_def chan_send_def pool_ok_def Let_def)
      moreover have "filled ?p n p' \<Longrightarrow> filled p (Suc n) p'" for p'
        by (auto simp: filled_def add_cur_def)
      ultimately show ?thesis
        using live(2) by (cases r) (auto simp del: fill_pool.simps)
    qed
  qed
qed

lemma newPublisherChannelPool_spec:
  assumes "0 \<le> sz" "sz \<le> mx" "in_int32 mx"
  shows "\<exists>r h'. newPublisherChannelPool L c raw sz mx h = (Returns r, h') \<and> live_conns h' = live_conns h \<and>
     (case r of Inl e \<Rightarrow> live_chans h' = live_chans h
      | Inr p \<Rightarrow> pool_ok 0 p \<and> \<not> closed p \<and> int (length (buf (channels p))) = sz
          \<and> int (cap (channels p)) = sz \<and> pool_conn p = c \<and> rawConn p = raw \<and> maxPoolSize p = mx
          \<and> live_chans h' = live_chans h + mset (buf (channels p)))"
proof -
  let ?p = "\<lparr>pool_conn = c, rawConn = raw, channels = make_chan (nat sz), pool_size = sz,
    maxPoolSize = wrap32 mx, closed = False, currentPoolSize = 0\<rparr>"
  have "\<exists>r h'. fill_pool L (nat sz) ?p h = (Returns r, h') \<and> live_conns h' = live_conns h \<and>
     (case r of Inl e \<Rightarrow> live_chans h' = live_chans h
      | Inr p' \<Rightarrow> filled ?p (nat sz) p' \<and> live_chans h' = live_chans h + mset (buf (channels p')))"
    using assms by (intro fill_pool_spec) (auto simp: pool_ok_def make_chan_def)
  then obtain r h' where "fill_pool L (nat sz) ?p h = (Returns r, h')" "live_conns h' = live_conns h"
    "case r of Inl e \<Rightarrow> live_chans h' = live_chans h
      | Inr p' \<Rightarrow> filled ?p (nat sz) p' \<and> live_chans h' = live_chans h + mset (buf (channels p'))"
    by blast
  with assms show ?thesis
    by (cases r) (auto simp: newPublisherChannelPool_def filled_def make_chan_def)
qed

section \<open>get and put\<close>

text \<open>How many channels are out after a call that ended with \<open>r\<close>.\<close>

fun out_after :: "nat \<Rightarrow> err + chan_ref \<Rightarrow> nat" where
  "out_after out (Inl e) = out"
| "out_after out (Inr ch) = Suc out"

text \<open>
  Which open AMQP channels are accounted for: those of others (\<open>R\<close>), the idle ones of the pool
  and the one that was handed out, if any.
\<close>

definition accounted :: "chan_ref multiset \<Rightarrow> pool \<Rightarrow> hist \<Rightarrow> bool" where
  "accounted R p h \<longleftrightarrow> live_chans h \<subseteq># R + mset (buf (channels p))"

fun handed :: "err + chan_ref \<Rightarrow> chan_ref multiset" where
  "handed (Inl e) = {#}"
| "handed (Inr ch) = {#ch#}"

text \<open>A call that leaks nothing: what was accounted for still is, with the channel handed out.\<close>

definition no_leak :: "pool \<Rightarrow> hist \<Rightarrow> err + chan_ref \<Rightarrow> pool \<Rightarrow> hist \<Rightarrow> bool" where
  "no_leak p h r p' h' \<longleftrightarrow> live_conns h' = live_conns h
     \<and> (\<forall>R. accounted R p h \<longrightarrow> accounted (R + handed r) p' h')"

text \<open>The moves of one channel: out of the buffer, known to be dead or closed, newly opened.\<close>

lemma accounted_take:
  "accounted R p h \<Longrightarrow> buf (channels p) = ch # chs \<Longrightarrow>
     accounted (add_mset ch R) (p\<lparr>channels := (channels p)\<lparr>buf := chs\<rparr>\<rparr>) h"
  by (simp add: accounted_def)

lemma accounted_cur [simp]: "accounted R (add_cur n p) h = accounted R p h"
  by (simp add: accounted_def add_cur_def)

lemma accounted_gone:
  "accounted (add_mset ch R) p h \<Longrightarrow> live_chans h' = live_chans h - {#ch#} \<Longrightarrow> accounted R p h'"
  by (auto simp: accounted_def subset_eq_diff_conv)

lemma accounted_same: "accounted R p h \<Longrightarrow> live_chans h' = live_chans h \<Longrightarrow> accounted R p h'"
  by (simp add: accounted_def)

lemma accounted_fewer: "accounted R p h \<Longrightarrow> live_chans h' \<subseteq># live_chans h \<Longrightarrow> accounted R p h'"
  by (auto simp: accounted_def intro: subset_mset.order_trans)

lemma accounted_dead:
  "accounted R p h \<Longrightarrow> buf (channels p) = ch # chs \<Longrightarrow> live_chans h' = live_chans h - {#ch#} \<Longrightarrow>
     accounted R (p\<lparr>channels := (channels p)\<lparr>buf := chs\<rparr>\<rparr>) h'"
  by (blast intro: accounted_gone accounted_take)

lemma accounted_open:
  "accounted R p h \<Longrightarrow> live_chans h' = add_mset ch (live_chans h) \<Longrightarrow> accounted (add_mset ch R) p h'"
  by (simp add: accounted_def)

lemma accounted_return:
  "accounted (add_mset ch R) p h \<Longrightarrow>
     accounted R (p\<lparr>channels := (channels p)\<lparr>buf := buf (channels p) @ [ch]\<rparr>\<rparr>) h"
  by (simp add: accounted_def)

lemmas accounted_moves = accounted_take accounted_gone accounted_dead accounted_open accounted_return

text \<open>
  A Hoare rule for \<^verbatim>\<open>get\<close>: \<open>I\<close> holds whenever a phase goes on, \<open>Q\<close> whenever one returns.
\<close>

definition phase_sat ::
  "(pool \<Rightarrow> hist \<Rightarrow> bool) \<Rightarrow> (err + chan_ref \<Rightarrow> pool \<Rightarrow> hist \<Rightarrow> bool) \<Rightarrow> get_phase \<Rightarrow> bool" where
  "phase_sat I Q ph \<longleftrightarrow> (case ph of (Some r, p, h) \<Rightarrow> Q r p h | (None, p, h) \<Rightarrow> I p h)"

lemma phase_then_sat:
  assumes "phase_then ph f = (r, p', h')" "phase_sat I Q ph"
    "\<And>p h. ph = (None, p, h) \<Longrightarrow> I p h \<Longrightarrow> f p h = (r, p', h') \<Longrightarrow> Q r p' h'"
  shows "Q r p' h'"
  using assms by (auto simp: phase_then_def phase_sat_def split: prod.splits option.splits)

lemma get_rule:
  assumes take: "\<And>p h. I p h \<Longrightarrow> phase_sat I Q (get_take L c p h)"
    and grow: "\<And>p h. I p h \<Longrightarrow> phase_sat I Q (get_grow L p h)"
    and sel: "\<And>p h. I p h \<Longrightarrow> phase_sat I Q (get_select L c p h)"
  shows "I p h \<Longrightarrow> get L c p h = (r, p', h') \<Longrightarrow> Q r p' h'"
  using take grow sel
proof (induction L c p h rule: get.induct)
  case (1 L c p h)
  show ?case
  proof (rule phase_then_sat [OF "1.prems"(2) [unfolded get.simps [of L c p h]] "1.prems"(3) [OF "1.prems"(1)]])
    fix p1 h1 assume t: "get_take L c p h = (None, p1, h1)" and I1: "I p1 h1"
      and f1: "phase_then (get_grow L p1 h1)
        (\<lambda>p2 h2. phase_then (get_select L c p2 h2) (\<lambda>p3 h3. get L c p3 h3)) = (r, p', h')"
    show "Q r p' h'"
    proof (rule phase_then_sat [OF f1 "1.prems"(4) [OF I1]])
      fix p2 h2 assume g: "get_grow L p1 h1 = (None, p2, h2)" and I2: "I p2 h2"
        and f2: "phase_then (get_select L c p2 h2) (\<lambda>p3 h3. get L c p3 h3) = (r, p', h')"
      show "Q r p' h'"
        by (rule phase_then_sat [OF f2 "1.prems"(5) [OF I2]]) (rule "1.IH" [OF t g _ _ _ "1.prems"(3-5)])
    qed
  qed
qed

lemmas phase_simps = phase_sat_def get_take_def get_grow_def get_select_def tryTakeChannel_def
  chan_recv_def env_defs Let_def

lemma get_ok:
  assumes "pool_ok out p" "get L c p h = (r, p', h')"
  shows "pool_ok (out_after out r) p' \<and> no_leak p h r p' h'"
proof -
  define I where "I p1 h1 \<longleftrightarrow> pool_ok out p1 \<and> live_conns h1 = live_conns h
     \<and> (\<forall>R. accounted R p h \<longrightarrow> accounted R p1 h1)" for p1 h1
  define Q where "Q r p1 h1 \<longleftrightarrow> pool_ok (out_after out r) p1 \<and> live_conns h1 = live_conns h
     \<and> (\<forall>R. accounted R p h \<longrightarrow> accounted (R + handed r) p1 h1)" for r p1 h1
  have "Q r p' h'"
  proof (rule get_rule [where I = I and Q = Q, OF _ _ _ _ assms(2)])
    fix p1 h1 assume i: "I p1 h1"
    note same = accounted_same [where h = h1]
    note dead = accounted_dead [where h = h1]
    have take: "accounted R p1 h1 \<Longrightarrow> buf (channels p1) = ch # chs \<Longrightarrow> live_chans h' = live_chans h1 \<Longrightarrow>
        accounted (add_mset ch R) (p1\<lparr>channels := (channels p1)\<lparr>buf := chs\<rparr>\<rparr>) h'" for R ch chs h'
      by (rule accounted_same [OF accounted_take])
    show "phase_sat I Q (get_take L c p1 h1)"
      using i by (auto simp: phase_simps I_def Q_def pool_ok_take pool_ok_forget same
          intro: dead take split: option.splits list.splits if_splits)
    show "phase_sat I Q (get_grow L p1 h1)"
      using i by (auto simp: phase_simps I_def Q_def pool_ok_grow same intro: accounted_open [where h = h1]
          split: option.splits sum.splits if_splits)
    show "phase_sat I Q (get_select L c p1 h1)"
      using i by (auto simp: phase_simps I_def Q_def pool_ok_take pool_ok_forget same
          intro: dead take split: option.splits list.splits if_splits)
  qed (use assms(1) in \<open>simp add: I_def\<close>)
  then show ?thesis by (simp add: Q_def no_leak_def)
qed

text \<open>Giving a channel back: it is idle again, or closed, and no longer out.\<close>

definition gave_back :: "chan_ref \<Rightarrow> pool \<Rightarrow> hist \<Rightarrow> pool \<Rightarrow> hist \<Rightarrow> bool" where
  "gave_back ch p h p' h' \<longleftrightarrow> live_conns h' = live_conns h
     \<and> (\<forall>R. accounted (add_mset ch R) p h \<longrightarrow> accounted R p' h')"

lemma put_drop_eq:
  "\<exists>e h'. put_drop L ch p h = (Returns (e, add_cur (-1) p), h')
     \<and> live_chans h' = live_chans h - {#ch#} \<and> live_conns h' = live_conns h"
  by (cases "chIsClosed L h ch") (auto simp: put_drop_def env_defs Let_def)

lemma put_drop_ok:
  assumes "pool_ok (Suc out) p"
  shows "\<exists>e p' h'. put_drop L ch p h = (Returns (e, p'), h') \<and> pool_ok out p' \<and> gave_back ch p h p' h'"
proof -
  obtain e h' where "put_drop L ch p h = (Returns (e, add_cur (-1) p), h')"
    "live_chans h' = live_chans h - {#ch#}" "live_conns h' = live_conns h"
    using put_drop_eq by blast
  then show ?thesis
    using pool_ok_forget [OF assms] by (auto simp: gave_back_def intro: accounted_gone)
qed

lemma put_ok:
  assumes "pool_ok (Suc out) p"
  shows "\<exists>e p' h'. put L (Some ch) p h = (Returns (e, p'), h') \<and> pool_ok out p' \<and> gave_back ch p h p' h'"
proof (cases "closed p")
  case True
  then show ?thesis using put_drop_ok [OF assms, of L ch h] by (auto simp: put_def)
next
  case False
  define dead where "dead = chIsClosed L h ch"
  let ?h1 = "h @ [EvChIsClosed ch dead]"
  have q: "ch_is_closed L ch h = (dead, ?h1)" by (simp add: ch_is_closed_def dead_def Let_def)
  consider "dead" | "\<not> dead" "length (buf (channels p)) < cap (channels p)"
    | "\<not> dead" "\<not> length (buf (channels p)) < cap (channels p)" by blast
  then show ?thesis
  proof cases
    case 1
    obtain e h' where d: "put_drop L ch p ?h1 = (Returns (e, add_cur (-1) p), h')"
      "live_chans h' = live_chans ?h1 - {#ch#}" "live_conns h' = live_conns ?h1"
      using put_drop_eq by blast
    have "accounted (add_mset ch R) p h \<Longrightarrow> accounted R p h'" for R
    proof (rule accounted_fewer [of R p ?h1])
      show "accounted (add_mset ch R) p h \<Longrightarrow> accounted R p ?h1" using 1 by (auto intro: accounted_gone)
      show "live_chans h' \<subseteq># live_chans ?h1" unfolding d(2) by (rule diff_subset_eq_self)
    qed
    then show ?thesis
      using 1 False q d pool_ok_forget [OF assms] by (simp add: put_def gave_back_def)
  next
    case 2
    have o: "\<not> chan_closed (channels p)" using assms False by (auto simp: pool_ok_def)
    then have "chan_send (channels p) ch = Sent ((channels p)\<lparr>buf := buf (channels p) @ [ch]\<rparr>)"
      using 2(2) by (simp add: chan_send_def)
    with 2 False q pool_ok_return [OF assms False 2(2), of ch] show ?thesis
      by (auto simp: put_def gave_back_def intro: accounted_same accounted_return)
  next
    case 3
    have "\<not> chan_closed (channels p)" using assms False by (auto simp: pool_ok_def)
    then have "chan_send (channels p) ch = SendBlocks" using 3(2) by (simp add: chan_send_def)
    with 3(1) False q pool_ok_forget [OF assms] show ?thesis
      by (auto simp: put_def gave_back_def ch_close_def Let_def intro: accounted_gone)
  qed
qed

section \<open>The contract of a channel pool\<close>

text \<open>
  What a publisher relies on: acquiring a channel either fails and changes nothing in the
  count, or hands out one more; releasing it returns, and takes it back. Using a channel in
  between leaves the pool as it was, however many publishers come one after the other.
\<close>

locale channel_pool =
  fixes acquire :: "ctx \<Rightarrow> 'p \<Rightarrow> hist \<Rightarrow> (err + chan_ref) \<times> 'p \<times> hist"
    and release :: "chan_ref option \<Rightarrow> 'p \<Rightarrow> hist \<Rightarrow> (err option \<times> 'p) outcome \<times> hist"
    and valid :: "nat \<Rightarrow> 'p \<Rightarrow> bool"
  assumes acquire_valid: "valid n p \<Longrightarrow> acquire c p h = (r, p', h') \<Longrightarrow> valid (out_after n r) p'"
    and release_valid: "valid (Suc n) p \<Longrightarrow>
      \<exists>e p' h'. release (Some ch) p h = (Returns (e, p'), h') \<and> valid n p'"
begin

lemma borrow:
  assumes "valid n p" "acquire c p h = (Inr ch, p1, h1)"
  shows "\<exists>e p2 h3. release (Some ch) p1 h2 = (Returns (e, p2), h3) \<and> valid n p2"
proof -
  have "valid (Suc n) p1" using acquire_valid [OF assms] by simp
  then show ?thesis by (rule release_valid)
qed

lemma acquire_failed: "valid n p \<Longrightarrow> acquire c p h = (Inl e, p1, h1) \<Longrightarrow> valid n p1"
  using acquire_valid by fastforce

end

text \<open>
  A pool that also accounts for its channels: \<open>own p\<close> are the idle ones. Whoever borrows a
  channel, opens and closes nothing in between and gives it back has leaked nothing.
\<close>

locale accounted_pool = channel_pool +
  fixes own :: "'a \<Rightarrow> chan_ref multiset"
  assumes acquire_accounted: "valid n p \<Longrightarrow> acquire c p h = (r, p', h') \<Longrightarrow> live_chans h \<subseteq># R + own p \<Longrightarrow>
      live_chans h' \<subseteq># R + handed r + own p'"
    and release_accounted: "valid (Suc n) p \<Longrightarrow> release (Some ch) p h = (Returns (e, p'), h') \<Longrightarrow>
      live_chans h \<subseteq># R + {#ch#} + own p \<Longrightarrow> live_chans h' \<subseteq># R + own p'"
    and acquire_conns: "valid n p \<Longrightarrow> acquire c p h = (r, p', h') \<Longrightarrow> live_conns h' = live_conns h"
    and release_conns: "valid (Suc n) p \<Longrightarrow> release (Some ch) p h = (Returns (e, p'), h') \<Longrightarrow>
      live_conns h' = live_conns h"
begin

lemma borrow_accounted:
  assumes "valid n p" "acquire c p h = (Inr ch, p1, h1)"
    "live_chans h2 = live_chans h1" "live_conns h2 = live_conns h1"
    "release (Some ch) p1 h2 = (Returns (e, p2), h3)" "live_chans h \<subseteq># R + own p"
  shows "live_chans h3 \<subseteq># R + own p2 \<and> live_conns h3 = live_conns h"
proof -
  have v: "valid (Suc n) p1" using acquire_valid [OF assms(1,2)] by simp
  have "live_chans h2 \<subseteq># R + {#ch#} + own p1"
    using acquire_accounted [OF assms(1,2,6)] assms(3) by simp
  from release_accounted [OF v assms(5) this] release_conns [OF v assms(5)] acquire_conns [OF assms(1,2)] assms(4)
  show ?thesis by simp
qed

end

interpretation publisher_pool: accounted_pool "get L" "put L" pool_ok "\<lambda>p. mset (buf (channels p))" for L :: lib
proof unfold_locales
  fix n p c h r p' h'
  assume g: "pool_ok n p" "get L c p h = (r, p', h')"
  note ok = get_ok [OF g]
  show "pool_ok (out_after n r) p'" using ok by simp
  show "live_conns h' = live_conns h" using ok by (simp add: no_leak_def)
  show "live_chans h \<subseteq># R + mset (buf (channels p)) \<Longrightarrow> live_chans h' \<subseteq># R + handed r + mset (buf (channels p'))" for R
    using ok by (simp add: no_leak_def accounted_def)
next
  fix n p ch h
  assume "pool_ok (Suc n) p"
  then obtain e p' h' where ok: "put L (Some ch) p h = (Returns (e, p'), h')" "pool_ok n p'" "gave_back ch p h p' h'"
    using put_ok by blast
  show "\<exists>e p' h'. put L (Some ch) p h = (Returns (e, p'), h') \<and> pool_ok n p'" using ok by blast
  fix e1 p1 h1 assume "put L (Some ch) p h = (Returns (e1, p1), h1)"
  with ok have "gave_back ch p h p1 h1" by simp
  then show "live_conns h1 = live_conns h"
    and "live_chans h \<subseteq># R + {#ch#} + mset (buf (channels p)) \<Longrightarrow> live_chans h1 \<subseteq># R + mset (buf (channels p1))" for R
    by (simp_all add: gave_back_def accounted_def)
qed

text \<open>Neither \<^verbatim>\<open>get\<close>, \<^verbatim>\<open>put\<close> nor \<^verbatim>\<open>interrupt\<close> publishes or settles anything.\<close>

lemma get_grows:
  assumes "get L c p h = (r, p', h')"
  shows "grows pool_event h h'"
proof (rule get_rule [where I = "\<lambda>p1 h1. grows pool_event h h1" and Q = "\<lambda>r p1 h1. grows pool_event h h1",
      OF _ _ _ _ assms])
  have two: "grows pool_event g g1 \<Longrightarrow> pool_event e \<Longrightarrow> pool_event e' \<Longrightarrow> grows pool_event g (g1 @ [e, e'])"
    for g g1 e e' by (auto simp: grows_def)
  have three: "grows pool_event g g1 \<Longrightarrow> pool_event e \<Longrightarrow> pool_event e' \<Longrightarrow> pool_event e'' \<Longrightarrow>
    grows pool_event g (g1 @ [e, e', e''])" for g g1 e e' e'' by (auto simp: grows_def)
  fix p1 h1 assume I: "grows pool_event h h1"
  show "phase_sat (\<lambda>p1. grows pool_event h) (\<lambda>r p1. grows pool_event h) (get_take L c p1 h1)"
    using I by (auto simp: phase_simps grows_snoc two split: option.splits list.splits if_splits)
  show "phase_sat (\<lambda>p1. grows pool_event h) (\<lambda>r p1. grows pool_event h) (get_grow L p1 h1)"
    using I by (auto simp: phase_simps grows_snoc two three split: option.splits list.splits if_splits sum.splits)
  show "phase_sat (\<lambda>p1. grows pool_event h) (\<lambda>r p1. grows pool_event h) (get_select L c p1 h1)"
    using I by (auto simp: phase_simps grows_snoc two split: option.splits list.splits if_splits)
qed simp

lemma put_grows: "put L chp p h = (r, h') \<Longrightarrow> grows pool_event h h'"
  by (auto simp: put_def put_drop_def env_defs Let_def grows_def
      split: option.splits if_splits send_result.splits prod.splits)

lemma pool_interrupt_grows: "grows pool_event h (snd (pool_interrupt L p h))"
  by (auto simp: pool_interrupt_def env_defs Let_def grows_def split: option.splits)

section \<open>The abstract pool and the refinement\<close>

text \<open>
  The specification knows only how many channels may exist, which are idle and how many are
  in use. A successful \<open>get\<close> hands out an idle channel or, below the limit, a new one, after
  discarding any number of idle ones.
\<close>

record bounded =
  idle :: "chan_ref multiset"
  used :: nat
  limit :: int
  shut :: bool

inductive spec_get :: "bounded \<Rightarrow> err + chan_ref \<Rightarrow> bounded \<Rightarrow> bool" where
  sg_fail: "spec_get s (Inl e) s"
| sg_reuse: "ch \<in># idle s \<Longrightarrow>
     spec_get s (Inr ch) (s\<lparr>idle := idle s - {#ch#}, used := Suc (used s)\<rparr>)"
| sg_open: "\<not> shut s \<Longrightarrow> int (size (idle s) + used s) < limit s \<Longrightarrow>
     spec_get s (Inr ch) (s\<lparr>used := Suc (used s)\<rparr>)"
| sg_discard: "d \<in># idle s \<Longrightarrow> spec_get (s\<lparr>idle := idle s - {#d#}\<rparr>) r s' \<Longrightarrow> spec_get s r s'"

inductive spec_put :: "bounded \<Rightarrow> chan_ref \<Rightarrow> bounded \<Rightarrow> bool" where
  sp_return: "\<not> shut s \<Longrightarrow> used s = Suc n \<Longrightarrow>
     spec_put s ch (s\<lparr>idle := add_mset ch (idle s), used := n\<rparr>)"
| sp_drop: "used s = Suc n \<Longrightarrow> spec_put s ch (s\<lparr>used := n\<rparr>)"

definition abs_pool :: "nat \<Rightarrow> pool \<Rightarrow> bounded" where
  "abs_pool out p = \<lparr>idle = mset (buf (channels p)), used = out, limit = maxPoolSize p, shut = closed p\<rparr>"

text \<open>The abstract pool never exceeds its limit.\<close>

definition within_limit :: "bounded \<Rightarrow> bool" where
  "within_limit s \<longleftrightarrow> int (size (idle s) + used s) \<le> limit s"

lemma spec_get_within: "spec_get s r s' \<Longrightarrow> within_limit s \<Longrightarrow> within_limit s'"
proof (induction rule: spec_get.induct)
  case (sg_reuse ch s)
  then show ?case by (auto simp: within_limit_def dest!: multi_member_split)
next
  case (sg_discard d s r s')
  then show ?case by (auto simp: within_limit_def dest!: multi_member_split)
qed (auto simp: within_limit_def)

lemma spec_get_limit: "spec_get s r s' \<Longrightarrow> limit s' = limit s \<and> shut s' = shut s"
  by (induction rule: spec_get.induct) auto

lemma abs_take:
  "buf (channels p) = ch # chs \<Longrightarrow>
     spec_get (abs_pool out p) (Inr ch) (abs_pool (Suc out) (p\<lparr>channels := (channels p)\<lparr>buf := chs\<rparr>\<rparr>))"
  using sg_reuse [of ch "abs_pool out p"] by (simp add: abs_pool_def)

lemma abs_forget:
  "buf (channels p) = ch # chs \<Longrightarrow>
     spec_get (abs_pool out (add_cur n (p\<lparr>channels := (channels p)\<lparr>buf := chs\<rparr>\<rparr>))) r s' \<Longrightarrow>
     spec_get (abs_pool out p) r s'"
  using sg_discard [of ch "abs_pool out p" r s'] by (simp add: abs_pool_def add_cur_def)

lemma abs_fail: "spec_get (abs_pool out p) (Inl e) (abs_pool out p)"
  by (rule sg_fail)

lemma abs_grow:
  "pool_ok out p \<Longrightarrow> \<not> closed p \<Longrightarrow> currentPoolSize p < maxPoolSize p \<Longrightarrow>
     spec_get (abs_pool out p) (Inr ch) (abs_pool (Suc out) (add_cur 1 p))"
  using sg_open [of "abs_pool out p" ch] by (simp add: abs_pool_def add_cur_def pool_ok_def)

lemma get_spec:
  assumes "pool_ok out p" "get L c p h = (r, p', h')"
  shows "spec_get (abs_pool out p) r (abs_pool (out_after out r) p')"
proof (rule get_rule [where I = "\<lambda>p1 h1. pool_ok out p1 \<and>
        (\<forall>r s'. spec_get (abs_pool out p1) r s' \<longrightarrow> spec_get (abs_pool out p) r s')"
      and Q = "\<lambda>r p1 h1. spec_get (abs_pool out p) r (abs_pool (out_after out r) p1)",
      OF _ _ _ _ assms(2)])
  fix p1 h1
  assume I: "pool_ok out p1 \<and>
    (\<forall>r s'. spec_get (abs_pool out p1) r s' \<longrightarrow> spec_get (abs_pool out p) r s')"
  let ?sat = "phase_sat (\<lambda>p1 h1. pool_ok out p1 \<and>
      (\<forall>r s'. spec_get (abs_pool out p1) r s' \<longrightarrow> spec_get (abs_pool out p) r s'))
    (\<lambda>r p1 h1. spec_get (abs_pool out p) r (abs_pool (out_after out r) p1))"
  show "?sat (get_take L c p1 h1)"
    using I by (auto simp: phase_simps abs_take abs_fail pool_ok_take pool_ok_forget
        intro: abs_forget split: option.splits list.splits if_splits)
  show "?sat (get_grow L p1 h1)"
    using I by (auto simp: phase_simps abs_grow abs_fail
        split: option.splits sum.splits if_splits)
  show "?sat (get_select L c p1 h1)"
    using I by (auto simp: phase_simps abs_take abs_fail pool_ok_take pool_ok_forget
        intro: abs_forget split: option.splits list.splits if_splits)
qed (use assms(1) in simp)

section \<open>Sequences of operations\<close>

text \<open>
  A client holds the channels it was given; it may get another, return the one at a position
  it holds, or close the pool.
\<close>

datatype pool_op = OpGet ctx | OpPut nat | OpClose

fun pool_step :: "lib \<Rightarrow> pool_op \<Rightarrow> pool \<times> chan_ref list \<Rightarrow> hist \<Rightarrow> (pool \<times> chan_ref list) outcome \<times> hist"
  where
  "pool_step L (OpGet c) (p, held) h =
     (case get L c p h of
        (Inl e, p1, h1) \<Rightarrow> (Returns (p1, held), h1)
      | (Inr ch, p1, h1) \<Rightarrow> (Returns (p1, held @ [ch]), h1))"
| "pool_step L (OpPut i) (p, held) h =
     (if i < length held
      then obind (put L (Some (held ! i)) p h)
             (\<lambda>(e, p1) h1. (Returns (p1, take i held @ drop (Suc i) held), h1))
      else (Returns (p, held), h))"
| "pool_step L OpClose (p, held) h =
     obind (pool_close L p h) (\<lambda>(e, p1) h1. (Returns (p1, held), h1))"

fun pool_run :: "lib \<Rightarrow> pool_op list \<Rightarrow> pool \<times> chan_ref list \<Rightarrow> hist \<Rightarrow> (pool \<times> chan_ref list) outcome \<times> hist"
  where
  "pool_run L [] s h = (Returns s, h)"
| "pool_run L (op # ops) s h = obind (pool_step L op s h) (\<lambda>s1 h1. pool_run L ops s1 h1)"

lemma pool_close_accounted:
  assumes "pool_ok out p" "accounted R p h"
  shows "\<exists>e p' h'. pool_close L p h = (Returns (e, p'), h') \<and> pool_ok out p' \<and> accounted R p' h'"
proof -
  obtain e p' h' where c: "pool_close L p h = (Returns (e, p'), h')" "pool_ok out p'" "closed p'"
    "live_chans h' = live_chans h - mset (buf (channels p))"
    using pool_close_spec [OF assms(1)] by blast
  moreover from c(2,3) have "buf (channels p') = []" by (simp add: pool_ok_def)
  ultimately show ?thesis using assms(2) by (simp add: accounted_def subset_eq_diff_conv)
qed

lemma pool_step_ok:
  assumes "pool_ok (length held) p" "accounted (R + mset held) p h"
  shows "\<exists>p' held' h'. pool_step L op (p, held) h = (Returns (p', held'), h') \<and> pool_ok (length held') p'
     \<and> accounted (R + mset held') p' h'"
proof (cases op)
  case (OpGet c)
  obtain r p1 h1 where g: "get L c p h = (r, p1, h1)" by (metis prod_cases3)
  show ?thesis
    using get_ok [OF assms(1) g] g OpGet assms(2) by (cases r) (auto simp: no_leak_def)
next
  case (OpPut i)
  show ?thesis
  proof (cases "i < length held")
    case True
    let ?rest = "take i held @ drop (Suc i) held"
    have len: "Suc (length ?rest) = length held" using True by simp
    have "mset held = add_mset (held ! i) (mset ?rest)"
      by (subst id_take_nth_drop [OF True]) simp
    then have acc: "accounted (add_mset (held ! i) (R + mset ?rest)) p h" using assms(2) by simp
    obtain e p1 h1 where "put L (Some (held ! i)) p h = (Returns (e, p1), h1)"
      "pool_ok (length ?rest) p1" "gave_back (held ! i) p h p1 h1"
      using assms(1) put_ok [of "length ?rest" p L "held ! i" h] len by metis
    with True OpPut acc show ?thesis by (auto simp: gave_back_def)
  next
    case False
    with assms OpPut show ?thesis by simp
  qed
next
  case OpClose
  with pool_close_accounted [OF assms, of L] show ?thesis by auto
qed

lemma pool_run_ok:
  "pool_ok (length held) p \<Longrightarrow> accounted (R + mset held) p h \<Longrightarrow>
     \<exists>p' held' h'. pool_run L ops (p, held) h = (Returns (p', held'), h') \<and> pool_ok (length held') p'
       \<and> accounted (R + mset held') p' h'"
proof (induction ops arbitrary: p held h)
  case (Cons op ops)
  obtain p1 held1 h1 where "pool_step L op (p, held) h = (Returns (p1, held1), h1)"
    "pool_ok (length held1) p1" "accounted (R + mset held1) p1 h1"
    using pool_step_ok [OF Cons.prems] by blast
  with Cons.IH show ?case by simp
qed auto

lemma pool_ok_within: "pool_ok out p \<Longrightarrow> within_limit (abs_pool out p)"
  by (simp add: pool_ok_def within_limit_def abs_pool_def)

text \<open>What \<^verbatim>\<open>get\<close> does in its first phase when an idle channel is alive.\<close>

lemma get_first_idle:
  assumes "ctxErr L h c = None" "buf (channels p) = ch # chs"
    "\<not> chIsClosed L (h @ [EvCtxErr c None]) ch"
  shows "get L c p h = (Inr ch, p\<lparr>channels := (channels p)\<lparr>buf := chs\<rparr>\<rparr>,
     h @ [EvCtxErr c None, EvChIsClosed ch False])"
  using assms
  by (simp add: get.simps [of L c p h] phase_then_def get_take_def tryTakeChannel_def chan_recv_def
      env_defs Let_def)

text \<open>A pool with a negative limit lives on the channels it was created with.\<close>

definition counts :: "pool \<Rightarrow> bool" where
  "counts p \<longleftrightarrow> int (length (buf (channels p))) \<le> currentPoolSize p \<and> currentPoolSize p < 2 ^ 31"

text \<open>Asking the connection for a channel, whatever it answers.\<close>

fun asks_channel :: "event \<Rightarrow> bool" where
  "asks_channel (EvConnChannel _ _) = True"
| "asks_channel _ = False"

abbreviation opens_none :: "hist \<Rightarrow> hist \<Rightarrow> bool" where
  "opens_none \<equiv> grows (\<lambda>e. \<not> asks_channel e)"

text \<open>
  \<open>out\<close> channels handed out, a limit below zero, and only channels of \<open>C\<close>: the counter covers the idle and
  the handed out channels, so it is never below the limit.
\<close>

definition frozen :: "chan_ref set \<Rightarrow> int \<Rightarrow> nat \<Rightarrow> pool \<Rightarrow> bool" where
  "frozen C mx out p \<longleftrightarrow> maxPoolSize p = mx \<and> mx < 0 \<and> set (buf (channels p)) \<subseteq> C
     \<and> int (length (buf (channels p)) + out) \<le> currentPoolSize p \<and> currentPoolSize p < 2 ^ 31"

lemma frozen_no_room: "frozen C mx out p \<Longrightarrow> \<not> currentPoolSize p < maxPoolSize p"
  by (simp add: frozen_def)

lemma frozen_take:
  assumes "frozen C mx out p" "buf (channels p) = ch # chs"
  shows "ch \<in> C" "frozen C mx (Suc out) (p\<lparr>channels := (channels p)\<lparr>buf := chs\<rparr>\<rparr>)"
  using assms by (auto simp: frozen_def)

lemma frozen_forget:
  assumes "frozen C mx (Suc out) p"
  shows "frozen C mx out (add_cur (-1) p)"
proof -
  have "wrap32 (currentPoolSize p - 1) = currentPoolSize p - 1"
    using assms by (intro wrap32_id) (auto simp: frozen_def in_int32_def)
  with assms show ?thesis by (auto simp: frozen_def add_cur_def)
qed

lemma frozen_more: "frozen C mx (Suc out) p \<Longrightarrow> frozen C mx out p"
  by (simp add: frozen_def)

lemma get_frozen:
  assumes "frozen C mx out p" "get L c p h = (r, p', h')"
  shows "opens_none h h' \<and> (case r of Inl e \<Rightarrow> frozen C mx out p' | Inr ch \<Rightarrow> ch \<in> C \<and> frozen C mx (Suc out) p')"
proof -
  define I where "I = (\<lambda>p1 h1. frozen C mx out p1 \<and> opens_none h h1)"
  define Q where "Q = (\<lambda>r p1 h1. opens_none h h1
     \<and> (case r of Inl (e :: err) \<Rightarrow> frozen C mx out p1 | Inr ch \<Rightarrow> ch \<in> C \<and> frozen C mx (Suc out) p1))"
  have "Q r p' h'"
  proof (rule get_rule [where I = I and Q = Q, OF _ _ _ _ assms(2)])
    fix p1 h1 assume "I p1 h1"
    then have i: "frozen C mx out p1" "opens_none h h1" by (simp_all add: I_def)
    have more: "\<not> asks_channel e \<Longrightarrow> opens_none h (h1 @ [e])"
      "\<not> asks_channel e \<Longrightarrow> \<not> asks_channel e' \<Longrightarrow> opens_none h (h1 @ [e, e'])" for e e'
      using grows_snoc [OF i(2), of e] grows_snoc [OF grows_snoc [OF i(2), of e], of e'] by simp_all
    note shut = frozen_take [OF i(1)] frozen_forget [OF frozen_take(2) [OF i(1)]]
    show "phase_sat I Q (get_take L c p1 h1)"
      using i(1) shut by (auto simp: phase_simps I_def Q_def more split: option.splits list.splits if_splits)
    show "phase_sat I Q (get_grow L p1 h1)"
      using i frozen_no_room [OF i(1)] by (simp add: phase_sat_def get_grow_def I_def)
    show "phase_sat I Q (get_select L c p1 h1)"
      using i(1) shut by (auto simp: phase_simps I_def Q_def more split: option.splits list.splits if_splits)
  qed (use assms(1) in \<open>simp add: I_def\<close>)
  then show ?thesis by (simp add: Q_def)
qed

lemma put_frozen:
  assumes "frozen C mx (Suc out) p" "ch \<in> C" "put L (Some ch) p h = (r, h')"
  shows "opens_none h h' \<and> (\<forall>e p'. r = Returns (e, p') \<longrightarrow> frozen C mx out p')"
proof -
  have sent: "frozen C mx out (p\<lparr>channels := k\<rparr>)" if "chan_send (channels p) ch = Sent k" for k
    using that assms(1,2) by (auto simp: chan_send_def frozen_def split: if_splits)
  show ?thesis
    using assms(3) frozen_forget [OF assms(1)] sent
    by (auto simp: put_def put_drop_def env_defs Let_def grows_def
        split: if_splits prod.splits send_result.splits)
qed

lemma drain_frozen:
  "frozen C mx out p \<Longrightarrow> buf (channels p) = chs \<Longrightarrow> drain_channels L chs p errs h = (es, p', h')
     \<Longrightarrow> opens_none h h' \<and> frozen C mx out p'"
proof (induction chs arbitrary: p errs h)
  case (Cons ch chs)
  let ?p = "add_cur (-1) (p\<lparr>channels := (channels p)\<lparr>buf := chs\<rparr>\<rparr>)"
  let ?h = "h @ [EvChClose ch (chClose L h ch)]"
  have "frozen C mx out ?p" by (rule frozen_forget [OF frozen_take(2) [OF Cons.prems(1,2)]])
  moreover have "buf (channels ?p) = chs" by (simp add: add_cur_def)
  ultimately have "opens_none ?h h' \<and> frozen C mx out p'"
    using Cons.IH [of ?p] Cons.prems(3) by (auto simp: ch_close_def Let_def)
  moreover have "opens_none h ?h" by simp
  ultimately show ?case using grows_trans by blast
qed simp

lemma close_frozen:
  assumes "frozen C mx out p" "pool_close L p h = (r, h')"
  shows "opens_none h h' \<and> (\<forall>e p'. r = Returns (e, p') \<longrightarrow> frozen C mx out p')"
proof -
  have "opens_none h h' \<and> frozen C mx out p'"
    if k: "chan_close (channels p) = Some k" "drain_channels L (buf k) (p\<lparr>closed := True, channels := k\<rparr>) [] h = (es, p', h')" for k es p'
  proof (rule drain_frozen [OF _ _ k(2)])
    show "frozen C mx out (p\<lparr>closed := True, channels := k\<rparr>)"
      using k(1) assms(1) by (auto simp: chan_close_def frozen_def split: if_splits)
  qed simp
  with assms show ?thesis by (auto simp: pool_close_def split: if_splits option.splits prod.splits)
qed

lemma pool_step_frozen:
  assumes "frozen C mx (length held) p" "set held \<subseteq> C" "pool_step L op (p, held) h = (r, h')"
  shows "opens_none h h' \<and> (\<forall>p' held'. r = Returns (p', held') \<longrightarrow> frozen C mx (length held') p' \<and> set held' \<subseteq> C)"
proof (cases op)
  case (OpGet c)
  obtain x p1 h1 where g: "get L c p h = (x, p1, h1)" by (metis prod_cases3)
  from get_frozen [OF assms(1) g] g OpGet assms(2,3) show ?thesis by (cases x) auto
next
  case (OpPut i)
  show ?thesis
  proof (cases "i < length held")
    case True
    let ?rest = "take i held @ drop (Suc i) held"
    have rest: "set ?rest \<subseteq> C" "held ! i \<in> C"
      using True assms(2) set_take_subset [of i held] set_drop_subset [of "Suc i" held] by auto
    have "Suc (length ?rest) = length held" using True by simp
    then have f: "frozen C mx (Suc (length ?rest)) p" using assms(1) by (simp only:)
    obtain x h1 where g: "put L (Some (held ! i)) p h = (x, h1)" by fastforce
    from put_frozen [OF f rest(2) g] g rest(1) True OpPut assms(3) show ?thesis by (cases x) auto
  qed (use assms OpPut in auto)
next
  case OpClose
  obtain x h1 where g: "pool_close L p h = (x, h1)" by fastforce
  from close_frozen [OF assms(1) g] g OpClose assms(2,3) show ?thesis by (cases x) auto
qed

lemma pool_run_frozen:
  "frozen C mx (length held) p \<Longrightarrow> set held \<subseteq> C \<Longrightarrow> pool_run L ops (p, held) h = (r, h')
     \<Longrightarrow> opens_none h h' \<and> (\<forall>p' held'. r = Returns (p', held') \<longrightarrow> frozen C mx (length held') p' \<and> set held' \<subseteq> C)"
proof (induction ops arbitrary: p held h)
  case (Cons op ops)
  obtain x h1 where st: "pool_step L op (p, held) h = (x, h1)" by fastforce
  note one = pool_step_frozen [OF Cons.prems(1,2) st]
  show ?case
  proof (cases x)
    case (Returns s1)
    obtain p1 held1 where s1: "s1 = (p1, held1)" by fastforce
    from Cons.IH [of held1 p1 h1] Cons.prems(3) one st Returns s1 show ?thesis by (auto intro: grows_trans)
  qed (use Cons.prems(3) one st in auto)
qed auto

lemma fill_pool_counts:
  assumes "fill_pool L n p h = (Returns (Inr p'), h')"
    "currentPoolSize p = int (length (buf (channels p)))" "int (length (buf (channels p)) + n) < 2 ^ 31"
  shows "maxPoolSize p' = maxPoolSize p \<and> counts p'"
  using assms
proof (induction n arbitrary: p h)
  case 0
  then show ?case by (auto simp: counts_def)
next
  case (Suc n)
  have inc: "wrap32 (currentPoolSize p + 1) = currentPoolSize p + 1"
    using Suc.prems by (intro wrap32_id) (auto simp: in_int32_def)
  obtain c h2 where "fill_pool L n (add_cur 1 (p\<lparr>channels := c\<rparr>)) h2 = (Returns (Inr p'), h')"
    "length (buf c) = Suc (length (buf (channels p)))"
    using Suc.prems(1)
    by (auto simp: env_defs Let_def chan_send_def obind_def
        split: sum.splits option.splits if_splits outcome.splits prod.splits)
  then show ?case using Suc.IH Suc.prems inc by (auto simp: add_cur_def)
qed

lemma wrap32_upper: "2 ^ 31 \<le> x \<Longrightarrow> x < 2 ^ 32 \<Longrightarrow> wrap32 x = x - 2 ^ 32"
proof -
  assume "2 ^ 31 \<le> x" "x < 2 ^ 32"
  then have "wrap32 (x - 2 ^ 32) = x - 2 ^ 32"
    by (intro wrap32_id) (simp add: in_int32_def)
  moreover have "wrap32 x = wrap32 (x - 2 ^ 32)"
    by (simp add: wrap32_def signed_take_bit_eq_iff_take_bit_eq take_bit_eq_mod)
  ultimately show ?thesis by simp
qed

section \<open>Properties\<close>

text \<open>
  Whatever sequence of \<^verbatim>\<open>get\<close>, \<^verbatim>\<open>put\<close> and \<^verbatim>\<open>close\<close> calls a client makes on a pool, and
  whatever the broker answers, every call returns (no send on a closed channel, no double
  close), the counter always equals the idle plus the handed out channels and never
  exceeds the maximum, and no AMQP channel is lost: each one that is open is idle, handed
  out, or one of those (\<open>R\<close>) that do not belong to the pool.
\<close>

theorem pool_run_safe:
  assumes "pool_ok (length held) p" "live_chans h \<subseteq># R + mset (buf (channels p)) + mset held"
  shows "\<exists>p' held' h'. pool_run L ops (p, held) h = (Returns (p', held'), h')
     \<and> currentPoolSize p' = int (length (buf (channels p')) + length held')
     \<and> currentPoolSize p' \<le> maxPoolSize p'
     \<and> live_chans h' \<subseteq># R + mset (buf (channels p')) + mset held'"
  using pool_run_ok [OF assms(1), of R h L ops] assms(2) by (auto simp: pool_ok_def accounted_def ac_simps)

theorem pool_run_safe_witness:
  "\<exists>p' held' h'. pool_run calm_lib [OpGet (CtxOf 0), OpGet (CtxOf 0), OpClose, OpPut 0]
       (\<lparr>pool_conn = 0, rawConn = None, channels = \<lparr>buf = [5], cap = 1, chan_closed = False\<rparr>,
         pool_size = 1, maxPoolSize = 2, closed = False, currentPoolSize = 1\<rparr>, []) []
     = (Returns (p', held'), h')
     \<and> currentPoolSize p' = int (length (buf (channels p')) + length held')
     \<and> currentPoolSize p' \<le> maxPoolSize p'
     \<and> live_chans h' \<subseteq># {#} + mset (buf (channels p')) + mset held'"
  by (rule pool_run_safe) (simp_all add: pool_ok_def in_int32_def)

text \<open>
  C18: \<^verbatim>\<open>get\<close> refines the abstract bounded pool: a channel it returns was idle, or was newly
  opened while idle and used channels together were below the limit; on an error nothing is
  handed out; and every AMQP channel that is open afterwards is idle, is the one handed out, or
  did not belong to the pool before.
\<close>

theorem get_refines_bounded_pool:
  assumes "pool_ok out p" "get L c p h = (r, p', h')"
  shows "spec_get (abs_pool out p) r (abs_pool (out_after out r) p')
     \<and> within_limit (abs_pool (out_after out r) p') \<and> no_leak p h r p' h'"
  using get_spec [OF assms] get_ok [OF assms] by (simp add: pool_ok_within)

theorem get_refines_bounded_pool_witness:
  "spec_get
     (abs_pool 0 \<lparr>pool_conn = 0, rawConn = None, channels = \<lparr>buf = [5], cap = 1, chan_closed = False\<rparr>,
       pool_size = 1, maxPoolSize = 2, closed = False, currentPoolSize = 1\<rparr>) (Inr 5)
     (abs_pool 1 \<lparr>pool_conn = 0, rawConn = None, channels = \<lparr>buf = [], cap = 1, chan_closed = False\<rparr>,
       pool_size = 1, maxPoolSize = 2, closed = False, currentPoolSize = 1\<rparr>)"
proof -
  let ?p = "\<lparr>pool_conn = 0, rawConn = None, channels = \<lparr>buf = [5], cap = 1, chan_closed = False\<rparr>,
       pool_size = 1, maxPoolSize = 2, closed = False, currentPoolSize = 1\<rparr>"
  have "pool_ok 0 ?p" by (simp add: pool_ok_def in_int32_def)
  moreover have "get calm_lib (CtxOf 0) ?p [] =
      (Inr 5, ?p\<lparr>channels := \<lparr>buf = [], cap = 1, chan_closed = False\<rparr>\<rparr>,
       [EvCtxErr (CtxOf 0) None, EvChIsClosed 5 False])"
    using get_first_idle [of calm_lib "[]" "CtxOf 0" ?p 5 "[]"] by simp
  ultimately show ?thesis using get_refines_bounded_pool by fastforce
qed

text \<open>
  C39: the configured maximum is truncated to 32 bits. For a maximum between \<open>2 ^ 31\<close> and
  \<open>2 ^ 32 - 1\<close> (and an initial size below \<open>2 ^ 31\<close>) the pool's limit becomes negative, and from its creation on the pool never
  opens a channel: in any sequence of \<^verbatim>\<open>get\<close>, \<^verbatim>\<open>put\<close> and \<^verbatim>\<open>close\<close> calls, whatever the broker
  answers, the connection is never asked for one; only the initial channels are handed out, and none
  replaces a channel that died.
\<close>

theorem max_pool_size_truncated:
  assumes "2 ^ 31 \<le> mx" "mx < 2 ^ 32" "sz < 2 ^ 31"
    and new: "newPublisherChannelPool L c raw sz mx h = (Returns (Inr p), h')"
    and run: "pool_run L' ops (p, []) g = (r, g')"
  shows "maxPoolSize p = mx - 2 ^ 32 \<and> maxPoolSize p < 0
     \<and> (\<exists>es. g' = g @ es \<and> (\<forall>k x. EvConnChannel k x \<notin> set es))
     \<and> (\<forall>p' held. r = Returns (p', held) \<longrightarrow> set held \<union> set (buf (channels p')) \<subseteq> set (buf (channels p)))"
proof -
  have "maxPoolSize p = wrap32 mx \<and> counts p"
    using assms(3) new fill_pool_counts
    by (fastforce simp: newPublisherChannelPool_def make_chan_def split: if_splits)
  then have p: "maxPoolSize p = mx - 2 ^ 32" "counts p"
    using wrap32_upper [OF assms(1,2)] by simp_all
  then have "frozen (set (buf (channels p))) (mx - 2 ^ 32) (length []) p"
    using assms(2) by (simp add: frozen_def counts_def)
  from pool_run_frozen [OF this _ run] p(1) assms(2) show ?thesis
    by (fastforce simp: grows_def frozen_def list_all_iff)
qed

theorem max_pool_size_truncated_witness:
  "\<exists>p h' r es. newPublisherChannelPool calm_lib 0 None 1 3000000000 [] = (Returns (Inr p), h')
     \<and> maxPoolSize p = 3000000000 - 2 ^ 32
     \<and> pool_run calm_lib [OpGet (CtxOf 0), OpGet (CtxOf 0), OpPut 0, OpGet (CtxOf 0)] (p, []) h' = (r, h' @ es)
     \<and> (\<forall>k x. EvConnChannel k x \<notin> set es)"
proof -
  obtain p h' where new: "newPublisherChannelPool calm_lib 0 None 1 3000000000 [] = (Returns (Inr p), h')"
    by (simp add: newPublisherChannelPool_def env_defs Let_def make_chan_def chan_send_def add_cur_def)
  obtain r g' where run: "pool_run calm_lib [OpGet (CtxOf 0), OpGet (CtxOf 0), OpPut 0, OpGet (CtxOf 0)] (p, []) h' = (r, g')"
    by fastforce
  show ?thesis using max_pool_size_truncated [OF _ _ _ new run] new run by (auto simp del: pool_run.simps)
qed

end
