(* ===== verification/Pool_Concurrency.thy ===== *)
theory Pool_Concurrency
  imports Publisher_Pool
begin

text \<open>
  \<^verbatim>\<open>publisher_pool.go\<close> under any number of goroutines. Each goroutine is at a program point
  (\<open>pc\<close>) of \<^verbatim>\<open>get\<close>, \<^verbatim>\<open>put\<close> or \<^verbatim>\<open>close\<close>; one step of the system is one atomic action of one
  goroutine: a channel operation, an atomic load or add, taking or releasing the mutex, a
  call into the AMQP library. The invariant gives the bound on the counter, the
  exact accounting, mutual exclusion, the absence of panics, and that a closed pool ends up
  empty.
\<close>

section \<open>Program points\<close>

datatype pc =
    Idle
  | GCtx | GTake | GTook chan_ref | GDead
  | GLoad | GLock | GCheck | GLoad2 | GOpen | GConfirm chan_ref | GAdd chan_ref
  | GUnlockRet chan_ref | GUnlockErr | GUnlockGo | GUnlockClose chan_ref | GCloseNew chan_ref
  | GSelect | GSelTook chan_ref | GSelDead
  | Using chan_ref
  | PLock chan_ref | PCheck chan_ref | PAlive chan_ref | PSend chan_ref
  | PDrop chan_ref | PClosing chan_ref | PUnlock
  | CLock | CCheck | CSet | CCloseCh | CUnlock | CUnlockRet | CDrain | CGot chan_ref | CClose chan_ref
  | Crashed

section \<open>One atomic action\<close>

text \<open>
  \<open>act i b x p m pc\<close> is what goroutine \<open>i\<close> does at \<open>pc\<close> with the shared pool \<open>p\<close> and the mutex
  \<open>m\<close> (its holder): the new pool, mutex and program point, or \<open>None\<close> while it is blocked. The
  environment chooses \<open>b\<close> (the caller's next operation, whether the context is done, whether a channel is
  closed, whether a library call succeeds) and \<open>x\<close> (the channel the library opens).
\<close>

fun act :: "nat \<Rightarrow> bool \<Rightarrow> chan_ref \<Rightarrow> pool \<Rightarrow> nat option \<Rightarrow> pc \<Rightarrow> (pool \<times> nat option \<times> pc) option" where
  "act i b x p m Idle = Some (p, m, if b then GCtx else CLock)"
| "act i b x p m GCtx = Some (p, m, if b then Idle else GTake)"
| "act i b x p m GTake =
     (case chan_recv (channels p) of
        Received ch c \<Rightarrow> Some (p\<lparr>channels := c\<rparr>, m, GTook ch)
      | RecvClosed \<Rightarrow> Some (p, m, Idle)
      | RecvBlocks \<Rightarrow> Some (p, m, GLoad))"
| "act i b x p m (GTook ch) = Some (p, m, if b then GDead else Using ch)"
| "act i b x p m GDead = Some (add_cur (-1) p, m, GLoad)"
| "act i b x p m GLoad = Some (p, m, if currentPoolSize p < maxPoolSize p then GLock else GSelect)"
| "act i b x p m GLock = (if m = None then Some (p, Some i, GCheck) else None)"
| "act i b x p m GCheck = Some (p, m, if closed p then GUnlockErr else GLoad2)"
| "act i b x p m GLoad2 = Some (p, m, if currentPoolSize p < maxPoolSize p then GOpen else GUnlockGo)"
| "act i b x p m GOpen = Some (p, m, if b then GConfirm x else GUnlockErr)"
| "act i b x p m (GConfirm ch) = Some (p, m, if b then GAdd ch else GUnlockClose ch)"
| "act i b x p m (GAdd ch) = Some (add_cur 1 p, m, GUnlockRet ch)"
| "act i b x p m (GUnlockRet ch) = Some (p, None, Using ch)"
| "act i b x p m GUnlockErr = Some (p, None, Idle)"
| "act i b x p m GUnlockGo = Some (p, None, GSelect)"
| "act i b x p m (GUnlockClose ch) = Some (p, None, GCloseNew ch)"
| "act i b x p m (GCloseNew ch) = Some (p, m, Idle)"
| "act i b x p m GSelect =
     (if b then Some (p, m, Idle)
      else case chan_recv (channels p) of
             Received ch c \<Rightarrow> Some (p\<lparr>channels := c\<rparr>, m, GSelTook ch)
           | RecvClosed \<Rightarrow> Some (p, m, Idle)
           | RecvBlocks \<Rightarrow> None)"
| "act i b x p m (GSelTook ch) = Some (p, m, if b then GSelDead else Using ch)"
| "act i b x p m GSelDead = Some (add_cur (-1) p, m, GCtx)"
| "act i b x p m (Using ch) = Some (p, m, PLock ch)"
| "act i b x p m (PLock ch) = (if m = None then Some (p, Some i, PCheck ch) else None)"
| "act i b x p m (PCheck ch) = Some (p, m, if closed p then PDrop ch else PAlive ch)"
| "act i b x p m (PAlive ch) = Some (p, m, if b then PDrop ch else PSend ch)"
| "act i b x p m (PSend ch) =
     (case chan_send (channels p) ch of
        Sent c \<Rightarrow> Some (p\<lparr>channels := c\<rparr>, m, PUnlock)
      | SendBlocks \<Rightarrow> Some (p, m, PDrop ch)
      | SendPanics \<Rightarrow> Some (p, m, Crashed))"
| "act i b x p m (PDrop ch) = Some (add_cur (-1) p, m, PClosing ch)"
| "act i b x p m (PClosing ch) = Some (p, m, PUnlock)"
| "act i b x p m PUnlock = Some (p, None, Idle)"
| "act i b x p m CLock = (if m = None then Some (p, Some i, CCheck) else None)"
| "act i b x p m CCheck = Some (p, m, if closed p then CUnlockRet else CSet)"
| "act i b x p m CSet = Some (p\<lparr>closed := True\<rparr>, m, CCloseCh)"
| "act i b x p m CCloseCh =
     (case chan_close (channels p) of
        None \<Rightarrow> Some (p, m, Crashed)
      | Some c \<Rightarrow> Some (p\<lparr>channels := c\<rparr>, m, CUnlock))"
| "act i b x p m CUnlock = Some (p, None, CDrain)"
| "act i b x p m CUnlockRet = Some (p, None, Idle)"
| "act i b x p m CDrain =
     (case chan_recv (channels p) of
        Received ch c \<Rightarrow> Some (p\<lparr>channels := c\<rparr>, m, CGot ch)
      | RecvClosed \<Rightarrow> Some (p, m, Idle)
      | RecvBlocks \<Rightarrow> None)"
| "act i b x p m (CGot ch) = Some (add_cur (-1) p, m, CClose ch)"
| "act i b x p m (CClose ch) = Some (p, m, CDrain)"
| "act i b x p m Crashed = None"

text \<open>
  What the same action does to the AMQP channels that are open: the library opens one, one is
  closed, or one turns out to be closed already.
\<close>

fun amqp_effect :: "bool \<Rightarrow> chan_ref \<Rightarrow> pc \<Rightarrow> chan_ref multiset \<Rightarrow> chan_ref multiset" where
  "amqp_effect b x GOpen A = (if b then add_mset x A else A)"
| "amqp_effect b x (GTook ch) A = (if b then A - {#ch#} else A)"
| "amqp_effect b x (GSelTook ch) A = (if b then A - {#ch#} else A)"
| "amqp_effect b x (PAlive ch) A = (if b then A - {#ch#} else A)"
| "amqp_effect b x (GCloseNew ch) A = A - {#ch#}"
| "amqp_effect b x (PClosing ch) A = A - {#ch#}"
| "amqp_effect b x (CClose ch) A = A - {#ch#}"
| "amqp_effect b x _ A = A"

section \<open>The system\<close>

record pstate =
  the_pool :: pool
  mu :: "nat option"
  pcs :: "pc list"
  open_amqp :: "chan_ref multiset"

inductive pstep :: "pstate \<Rightarrow> pstate \<Rightarrow> bool" where
  pstep: "i < length (pcs s) \<Longrightarrow> act i b x (the_pool s) (mu s) (pcs s ! i) = Some (p', m', q) \<Longrightarrow>
    pstep s \<lparr>the_pool = p', mu = m', pcs = (pcs s)[i := q], open_amqp = amqp_effect b x (pcs s ! i) (open_amqp s)\<rparr>"

definition pinit :: "pstate \<Rightarrow> bool" where
  "pinit s \<longleftrightarrow> pool_ok 0 (the_pool s) \<and> \<not> closed (the_pool s) \<and> mu s = None \<and> set (pcs s) \<subseteq> {Idle}
     \<and> open_amqp s \<subseteq># mset (buf (channels (the_pool s)))"

inductive_cases pstepE: "pstep s t"

section \<open>Invariant\<close>

text \<open>Whether a goroutine holds a channel that the counter counts; whether it holds the mutex.\<close>

fun weight :: "pc \<Rightarrow> nat" where
  "weight (GTook _) = 1" | "weight GDead = 1" | "weight (GUnlockRet _) = 1"
| "weight (GSelTook _) = 1" | "weight GSelDead = 1" | "weight (Using _) = 1"
| "weight (PLock _) = 1" | "weight (PCheck _) = 1" | "weight (PAlive _) = 1"
| "weight (PSend _) = 1" | "weight (PDrop _) = 1" | "weight (CGot _) = 1"
| "weight _ = 0"

fun holds :: "pc \<Rightarrow> bool" where
  "holds GCheck = True" | "holds GLoad2 = True" | "holds GOpen = True" | "holds (GConfirm _) = True"
| "holds (GAdd _) = True" | "holds (GUnlockRet _) = True" | "holds GUnlockErr = True"
| "holds GUnlockGo = True" | "holds (GUnlockClose _) = True" | "holds (PCheck _) = True"
| "holds (PAlive _) = True" | "holds (PSend _) = True" | "holds (PDrop _) = True"
| "holds (PClosing _) = True" | "holds PUnlock = True" | "holds CCheck = True" | "holds CSet = True"
| "holds CCloseCh = True" | "holds CUnlock = True" | "holds CUnlockRet = True"
| "holds _ = False"

text \<open>What a goroutine knows at a point inside its critical section.\<close>

fun knows :: "pool \<Rightarrow> pc \<Rightarrow> bool" where
  "knows p GOpen = (currentPoolSize p < maxPoolSize p)"
| "knows p (GConfirm _) = (currentPoolSize p < maxPoolSize p)"
| "knows p (GAdd _) = (currentPoolSize p < maxPoolSize p)"
| "knows p (PAlive _) = (\<not> closed p)"
| "knows p (PSend _) = (\<not> closed p)"
| "knows p CSet = (\<not> closed p)"
| "knows p CCloseCh = (closed p \<and> \<not> chan_closed (channels p))"
| "knows p CUnlock = (closed p \<and> chan_closed (channels p))"
| "knows p Crashed = False"
| "knows p _ = True"

fun draining :: "pc \<Rightarrow> bool" where
  "draining CUnlock = True" | "draining CDrain = True" | "draining (CGot _) = True"
| "draining (CClose _) = True" | "draining _ = False"

abbreviation weights :: "pc list \<Rightarrow> nat" where
  "weights ps \<equiv> sum_list (map weight ps)"

text \<open>The AMQP channel a goroutine is responsible for.\<close>

fun carried :: "pc \<Rightarrow> chan_ref multiset" where
  "carried (GTook ch) = {#ch#}" | "carried (GConfirm ch) = {#ch#}" | "carried (GAdd ch) = {#ch#}"
| "carried (GUnlockRet ch) = {#ch#}" | "carried (GUnlockClose ch) = {#ch#}" | "carried (GCloseNew ch) = {#ch#}"
| "carried (GSelTook ch) = {#ch#}" | "carried (Using ch) = {#ch#}" | "carried (PLock ch) = {#ch#}"
| "carried (PCheck ch) = {#ch#}" | "carried (PAlive ch) = {#ch#}" | "carried (PSend ch) = {#ch#}"
| "carried (PDrop ch) = {#ch#}" | "carried (PClosing ch) = {#ch#}" | "carried (CGot ch) = {#ch#}"
| "carried (CClose ch) = {#ch#}" | "carried _ = {#}"

abbreviation carrying :: "pc list \<Rightarrow> chan_ref multiset" where
  "carrying ps \<equiv> sum_list (map carried ps)"

definition counted :: "pool \<Rightarrow> nat \<Rightarrow> bool" where
  "counted p n \<longleftrightarrow> currentPoolSize p = int (length (buf (channels p)) + n)
     \<and> currentPoolSize p \<le> maxPoolSize p \<and> in_int32 (maxPoolSize p)
     \<and> length (buf (channels p)) \<le> cap (channels p)"

definition pinv :: "pstate \<Rightarrow> bool" where
  "pinv s \<longleftrightarrow>
     counted (the_pool s) (weights (pcs s)) \<and>
     (\<forall>i < length (pcs s). holds (pcs s ! i) \<longleftrightarrow> mu s = Some i) \<and>
     (\<forall>i. mu s = Some i \<longrightarrow> i < length (pcs s)) \<and>
     (\<forall>i < length (pcs s). knows (the_pool s) (pcs s ! i)) \<and>
     (chan_closed (channels (the_pool s)) \<longrightarrow> closed (the_pool s)) \<and>
     (closed (the_pool s) \<longrightarrow> chan_closed (channels (the_pool s)) \<or> CCloseCh \<in> set (pcs s)) \<and>
     (chan_closed (channels (the_pool s)) \<and> buf (channels (the_pool s)) \<noteq> [] \<longrightarrow>
        (\<exists>q \<in> set (pcs s). draining q)) \<and>
     open_amqp s \<subseteq># mset (buf (channels (the_pool s))) + carrying (pcs s)"

subsection \<open>What one action does\<close>

lemma dec_counted: "counted p (Suc n) \<Longrightarrow> counted (add_cur (-1) p) n"
  using wrap32_id [of "currentPoolSize p - 1"] by (auto simp: counted_def add_cur_def in_int32_def)

lemma inc_counted: "counted p n \<Longrightarrow> currentPoolSize p < maxPoolSize p \<Longrightarrow> counted (add_cur 1 p) (Suc n)"
  using wrap32_id [of "currentPoolSize p + 1"] by (auto simp: counted_def add_cur_def in_int32_def)

lemma act_counted:
  assumes "act i b x p m q = Some (p', m', q')" "counted p (rest + weight q)" "knows p q"
    "chan_closed (channels p) \<longrightarrow> closed p"
  shows "counted p' (rest + weight q')"
  using assms
  by (cases q)
    (auto simp: chan_recv_def chan_send_def chan_close_def dec_counted inc_counted
      split: if_splits list.splits option.splits,
     auto simp: counted_def)

lemma act_mutex:
  assumes "act i b x p m q = Some (p', m', q')" "holds q \<longleftrightarrow> m = Some i" "knows p q"
    "chan_closed (channels p) \<longrightarrow> closed p"
  shows "(holds q' \<longleftrightarrow> m' = Some i) \<and> (m' = m \<or> m = None \<and> m' = Some i \<or> m = Some i \<and> m' = None)"
  using assms
  by (cases q)
    (auto simp: chan_recv_def chan_send_def chan_close_def split: if_splits list.splits option.splits)

lemma act_knows:
  assumes "act i b x p m q = Some (p', m', q')" "knows p q" "counted p (rest + weight q)"
    "chan_closed (channels p) \<longrightarrow> closed p"
  shows "knows p' q'"
  using assms
  by (cases q)
    (auto simp: chan_recv_def chan_send_def chan_close_def split: if_splits list.splits option.splits)

lemma add_cur_fields [simp]:
  "channels (add_cur n p) = channels p" "closed (add_cur n p) = closed p"
  "maxPoolSize (add_cur n p) = maxPoolSize p"
  by (simp_all add: add_cur_def)

text \<open>Outside its critical section a goroutine only takes from the buffer and counts down.\<close>

lemma act_outside:
  assumes "act i b x p m q = Some (p', m', q')" "\<not> holds q" "counted p (rest + weight q)"
  shows "closed p' = closed p \<and> chan_closed (channels p') = chan_closed (channels p)
     \<and> currentPoolSize p' \<le> currentPoolSize p \<and> maxPoolSize p' = maxPoolSize p"
  using assms
proof (cases q)
  case GDead
  with assms show ?thesis
    using wrap32_id [of "currentPoolSize p - 1"] by (auto simp: counted_def add_cur_def in_int32_def)
next
  case GSelDead
  with assms show ?thesis
    using wrap32_id [of "currentPoolSize p - 1"] by (auto simp: counted_def add_cur_def in_int32_def)
next
  case (CGot ch)
  with assms show ?thesis
    using wrap32_id [of "currentPoolSize p - 1"] by (auto simp: counted_def add_cur_def in_int32_def)
qed (auto simp: chan_recv_def split: if_splits list.splits)

lemma knows_outside: "\<not> holds q \<Longrightarrow> q \<noteq> Crashed \<Longrightarrow> knows p q"
  by (cases q) auto

lemma act_other_knows:
  assumes "act i b x p m q = Some (p', m', q')" "counted p (rest + weight q)"
    "knows p r" "\<not> (holds q \<and> holds r)"
  shows "knows p' r"
proof (cases "holds r")
  case True
  with assms have "\<not> holds q" by simp
  from act_outside [OF assms(1) this assms(2)] assms(3) show ?thesis by (cases r) auto
next
  case False
  with assms(3) show ?thesis by (cases r) auto
qed

lemma act_flags:
  assumes "act i b x p m q = Some (p', m', q')" "knows p q"
    "chan_closed (channels p) \<longrightarrow> closed p"
  shows "(chan_closed (channels p') \<longrightarrow> closed p') \<and>
     (closed p' \<longrightarrow> chan_closed (channels p') \<or> q' = CCloseCh \<or> closed p \<and> q \<noteq> CCloseCh \<and> chan_closed (channels p') = chan_closed (channels p))"
  using assms
  by (cases q)
    (auto simp: chan_recv_def chan_send_def chan_close_def split: if_splits list.splits option.splits)

lemma act_draining:
  assumes "act i b x p m q = Some (p', m', q')" "knows p q" "chan_closed (channels p')"
    "buf (channels p') \<noteq> []"
    "chan_closed (channels p) \<longrightarrow> closed p"
  shows "draining q' \<or> \<not> draining q \<and> chan_closed (channels p) \<and> buf (channels p) \<noteq> []"
  using assms
  by (cases q)
    (auto simp: chan_recv_def chan_send_def chan_close_def split: if_splits list.splits option.splits)

lemma gone: "A \<subseteq># add_mset ch M \<Longrightarrow> A - {#ch#} \<subseteq># M"
  by (simp add: subset_eq_diff_conv)

lemma gone_weak: "A \<subseteq># add_mset ch M \<Longrightarrow> A - {#ch#} \<subseteq># add_mset ch M"
  by (meson diff_subset_eq_self subset_mset.order_trans)

lemma act_carried:
  assumes "act i b x p m q = Some (p', m', q')" "knows p q" "chan_closed (channels p) \<longrightarrow> closed p"
    "A \<subseteq># mset (buf (channels p)) + (rest + carried q)"
  shows "amqp_effect b x q A \<subseteq># mset (buf (channels p')) + (rest + carried q')"
  using assms
  by (cases q)
    (auto simp: chan_recv_def chan_send_def chan_close_def gone gone_weak
      split: if_splits list.splits option.splits)

subsection \<open>The invariant is kept\<close>

lemma idle_carry_nothing: "set ps \<subseteq> {Idle} \<Longrightarrow> carrying ps = {#}"
  by (induction ps) auto

lemma pinv_init: "pinit s \<Longrightarrow> pinv s"
proof -
  assume s: "pinit s"
  then have idle: "\<And>i. i < length (pcs s) \<Longrightarrow> pcs s ! i = Idle"
    by (auto simp: pinit_def dest: nth_mem)
  have "weights (pcs s) = 0"
    using s by (auto simp: pinit_def sum_list_eq_0_iff)
  with s idle show ?thesis
    by (auto simp: pinit_def pinv_def pool_ok_def counted_def idle_carry_nothing)
qed

lemma pinv_step:
  assumes inv: "pinv s" and step: "pstep s t"
  shows "pinv t"
proof -
  obtain i b x p' m' q' where i: "i < length (pcs s)"
    and a: "act i b x (the_pool s) (mu s) (pcs s ! i) = Some (p', m', q')"
    and t: "t = \<lparr>the_pool = p', mu = m', pcs = (pcs s)[i := q'], open_amqp = amqp_effect b x (pcs s ! i) (open_amqp s)\<rparr>"
    using step by (elim pstepE) blast
  let ?p = "the_pool s" and ?q = "pcs s ! i"
  obtain rest where w: "weights (pcs s) = rest + weight ?q"
    and w': "weights ((pcs s)[i := q']) = rest + weight q'"
    using sum_list_split [OF i] by blast
  obtain crest where cw: "carrying (pcs s) = crest + carried ?q"
    and cw': "carrying ((pcs s)[i := q']) = crest + carried q'"
    using sum_list_split [OF i] by blast
  have c: "counted ?p (rest + weight ?q)" and k: "knows ?p ?q" and h: "holds ?q \<longleftrightarrow> mu s = Some i"
    and f: "chan_closed (channels ?p) \<longrightarrow> closed ?p"
    using inv i w by (auto simp: pinv_def)
  have others: "j < length (pcs s) \<Longrightarrow> j \<noteq> i \<Longrightarrow> knows p' (pcs s ! j)" for j
    using act_other_knows [OF a c, of "pcs s ! j"] inv i by (auto simp: pinv_def)
  have mutex: "j < length (pcs s) \<Longrightarrow> holds ((pcs s)[i := q'] ! j) \<longleftrightarrow> m' = Some j" for j
    using act_mutex [OF a h k f] inv i by (cases "j = i") (auto simp: pinv_def)
  have bound: "m' = Some j \<longrightarrow> j < length (pcs s)" for j
    using act_mutex [OF a h k f] inv i by (auto simp: pinv_def)
  have flags: "closed p' \<longrightarrow> chan_closed (channels p') \<or> CCloseCh \<in> set ((pcs s)[i := q'])"
    using act_flags [OF a k f] inv i
    by (auto simp: pinv_def in_set_conv_nth nth_list_update)
  have drain: "chan_closed (channels p') \<and> buf (channels p') \<noteq> [] \<longrightarrow>
      (\<exists>q \<in> set ((pcs s)[i := q']). draining q)"
    using act_draining [OF a k _ _ f] inv i
    by (auto simp: pinv_def Bex_def in_set_conv_nth nth_list_update) metis+
  have acc: "amqp_effect b x ?q (open_amqp s) \<subseteq># mset (buf (channels p')) + carrying ((pcs s)[i := q'])"
    unfolding cw' by (rule act_carried [OF a k f]) (use inv cw in \<open>simp add: pinv_def\<close>)
  show ?thesis
    unfolding pinv_def t
    using acc act_counted [OF a c k f] act_knows [OF a k c f] act_flags [OF a k f] others mutex bound flags drain w' i
    by (auto simp: nth_list_update)
qed

interpretation pool_threads: safety_system pinit pstep pinv
  by unfold_locales (auto intro: pinv_init pinv_step)

subsection \<open>Running a schedule\<close>

text \<open>A schedule names, step by step, the goroutine that moves and the environment's choices.\<close>

fun prun :: "(nat \<times> bool \<times> chan_ref) list \<Rightarrow> pstate \<Rightarrow> pstate option" where
  "prun [] s = Some s"
| "prun ((i, b, x) # sched) s =
     (if i < length (pcs s)
      then (case act i b x (the_pool s) (mu s) (pcs s ! i) of
              None \<Rightarrow> None
            | Some (p', m', q) \<Rightarrow>
                prun sched \<lparr>the_pool = p', mu = m', pcs = (pcs s)[i := q],
                  open_amqp = amqp_effect b x (pcs s ! i) (open_amqp s)\<rparr>)
      else None)"

lemma prun_steps: "prun sched s = Some t \<Longrightarrow> pstep\<^sup>*\<^sup>* s t"
proof (induction sched s rule: prun.induct)
  case (2 i b x sched s)
  then show ?case
    by (auto split: if_splits option.splits prod.splits
        intro: converse_rtranclp_into_rtranclp pstep)
qed simp

lemma prun_reach: "prun sched s = Some t \<Longrightarrow> pinit s \<Longrightarrow> reach pinit pstep t"
  by (rule reach_steps [OF prun_steps]) (auto intro: reach_init)

section \<open>Properties\<close>

text \<open>
  C16: with any number of goroutines calling \<^verbatim>\<open>get\<close>, \<^verbatim>\<open>put\<close> and \<^verbatim>\<open>close\<close> in any interleaving, the
  counter never exceeds the maximum and always equals the channels in the buffer plus
  those goroutines hold; no goroutine ever sends on the closed Go channel or closes it
  twice; at most one is inside the critical section; and every AMQP channel that is open is
  in the buffer or in the hands of a goroutine.
\<close>

theorem pool_threads_safe:
  assumes "reach pinit pstep s"
  shows "currentPoolSize (the_pool s) \<le> maxPoolSize (the_pool s)
     \<and> currentPoolSize (the_pool s) = int (length (buf (channels (the_pool s))) + weights (pcs s))
     \<and> Crashed \<notin> set (pcs s)
     \<and> (\<forall>i j. i < length (pcs s) \<and> j < length (pcs s) \<and> holds (pcs s ! i) \<and> holds (pcs s ! j) \<longrightarrow> i = j)
     \<and> open_amqp s \<subseteq># mset (buf (channels (the_pool s))) + carrying (pcs s)"
proof -
  have inv: "pinv s" using assms by (rule pool_threads.reach_inv)
  then have "Crashed \<notin> set (pcs s)" by (auto simp: pinv_def in_set_conv_nth)
  with inv show ?thesis by (auto simp: pinv_def counted_def)
qed

text \<open>Two goroutines and one idle channel.\<close>

definition two_threads :: pstate where
  "two_threads = \<lparr>the_pool = \<lparr>pool_conn = 0, rawConn = None,
       channels = \<lparr>buf = [5], cap = 1, chan_closed = False\<rparr>,
       pool_size = 1, maxPoolSize = 2, closed = False, currentPoolSize = 1\<rparr>,
     mu = None, pcs = [Idle, Idle], open_amqp = {#5#}\<rparr>"

lemma two_threads_init: "pinit two_threads"
  by (simp add: pinit_def two_threads_def pool_ok_def in_int32_def)

theorem pool_threads_safe_witness:
  "\<exists>s. prun [(0, True, 0), (1, True, 0), (0, False, 0), (1, False, 0), (0, False, 0), (1, False, 0),
       (0, False, 0), (1, False, 0), (1, False, 0), (1, False, 0), (1, False, 0), (1, True, 9),
       (1, True, 0), (1, False, 0), (1, False, 0)] two_threads = Some s
     \<and> pcs s = [Using 5, Using 9] \<and> currentPoolSize (the_pool s) = 2
     \<and> currentPoolSize (the_pool s) \<le> maxPoolSize (the_pool s) \<and> Crashed \<notin> set (pcs s)"
proof -
  let ?s = "two_threads\<lparr>the_pool := (the_pool two_threads)\<lparr>channels := \<lparr>buf = [], cap = 1, chan_closed = False\<rparr>,
    currentPoolSize := 2\<rparr>, pcs := [Using 5, Using 9], open_amqp := {#9, 5#}\<rparr>"
  have run: "prun [(0, True, 0), (1, True, 0), (0, False, 0), (1, False, 0), (0, False, 0), (1, False, 0),
       (0, False, 0), (1, False, 0), (1, False, 0), (1, False, 0), (1, False, 0), (1, True, 9),
       (1, True, 0), (1, False, 0), (1, False, 0)] two_threads = Some ?s"
    by (simp add: two_threads_def chan_recv_def add_cur_def in_int32_def)
  show ?thesis
    using run pool_threads_safe [OF prun_reach [OF run two_threads_init]] by (simp add: two_threads_def)
qed

text \<open>
  Once \<^verbatim>\<open>close\<close> has marked the pool closed and every goroutine has finished its call, the
  buffer is empty, the counter is zero and no AMQP channel is open: none was left behind by
  the race between the draining loop and concurrent \<^verbatim>\<open>get\<close> and \<^verbatim>\<open>put\<close> calls.
\<close>

theorem closed_pool_drains:
  assumes "reach pinit pstep s" "closed (the_pool s)" "set (pcs s) \<subseteq> {Idle}"
  shows "buf (channels (the_pool s)) = [] \<and> currentPoolSize (the_pool s) = 0
     \<and> chan_closed (channels (the_pool s)) \<and> open_amqp s = {#}"
proof -
  have inv: "pinv s" using assms(1) by (rule pool_threads.reach_inv)
  have w: "weights (pcs s) = 0" using assms(3) by (auto simp: sum_list_eq_0_iff)
  have c: "chan_closed (channels (the_pool s))" using inv assms by (auto simp: pinv_def)
  then have "buf (channels (the_pool s)) = []"
    using inv assms(3) unfolding pinv_def by (metis (no_types, lifting) draining.simps(5) singletonD subset_iff)
  moreover have "carrying (pcs s) = {#}" using assms(3) by (rule idle_carry_nothing)
  ultimately show ?thesis using inv w c by (auto simp: pinv_def counted_def)
qed

theorem closed_pool_drains_witness:
  "\<exists>s. prun [(0, False, 0), (0, False, 0), (0, False, 0), (0, False, 0), (0, False, 0), (0, False, 0),
       (0, False, 0), (0, False, 0), (0, False, 0), (0, False, 0)] two_threads = Some s
     \<and> closed (the_pool s) \<and> buf (channels (the_pool s)) = [] \<and> currentPoolSize (the_pool s) = 0 \<and> open_amqp s = {#}"
proof -
  let ?s = "two_threads\<lparr>the_pool := (the_pool two_threads)\<lparr>channels := \<lparr>buf = [], cap = 1, chan_closed = True\<rparr>,
    closed := True, currentPoolSize := 0\<rparr>, open_amqp := {#}\<rparr>"
  have run: "prun [(0, False, 0), (0, False, 0), (0, False, 0), (0, False, 0), (0, False, 0), (0, False, 0),
       (0, False, 0), (0, False, 0), (0, False, 0), (0, False, 0)] two_threads = Some ?s"
    by (simp add: two_threads_def chan_recv_def chan_close_def add_cur_def in_int32_def)
  show ?thesis
    using run closed_pool_drains [OF prun_reach [OF run two_threads_init]]
    by (simp add: two_threads_def)
qed

end
