(* ===== verification/Pool_Wind_Down.thy ===== *)
theory Pool_Wind_Down
  imports Pool_Concurrency
begin

text \<open>
  A closed pool comes to rest. Once \<^verbatim>\<open>close\<close> has closed the Go channel, the goroutines that are
  inside \<^verbatim>\<open>get\<close>, \<^verbatim>\<open>put\<close> and \<^verbatim>\<open>close\<close> cannot block each other or themselves, those waiting for a
  channel are woken, and after a bounded number of steps every call has returned.
\<close>

section \<open>Steps of the calls under way\<close>

text \<open>A step of a goroutine that is inside a call; at \<open>Idle\<close> it would begin a new one.\<close>

inductive finishing :: "pstate \<Rightarrow> pstate \<Rightarrow> bool" where
  finishing: "i < length (pcs s) \<Longrightarrow> pcs s ! i \<noteq> Idle \<Longrightarrow>
    act i b x (the_pool s) (mu s) (pcs s ! i) = Some (p', m', q) \<Longrightarrow>
    finishing s \<lparr>the_pool = p', mu = m', pcs = (pcs s)[i := q], open_amqp = amqp_effect b x (pcs s ! i) (open_amqp s)\<rparr>"

inductive_cases finishingE: "finishing s t"

lemma finishing_pstep: "finishing s t \<Longrightarrow> pstep s t"
  by (elim finishingE) (auto intro: pstep)

text \<open>
  How many steps a goroutine can be away from the end of its call. Going round the loop of \<^verbatim>\<open>get\<close>
  or of the draining costs a channel out of the buffer, which is worth \<open>30\<close> steps.
\<close>

fun rank :: "pc \<Rightarrow> nat" where
  "rank GCtx = 20" | "rank GTake = 19" | "rank (GTook _) = 18" | "rank GDead = 17"
| "rank GLoad = 16" | "rank GLock = 15" | "rank GCheck = 14" | "rank GLoad2 = 13" | "rank GOpen = 12"
| "rank (GConfirm _) = 11" | "rank (GAdd _) = 10" | "rank (GUnlockRet _) = 9" | "rank GUnlockErr = 1"
| "rank GUnlockGo = 2" | "rank (GUnlockClose _) = 2" | "rank (GCloseNew _) = 1" | "rank GSelect = 1"
| "rank (GSelTook _) = 22" | "rank GSelDead = 21" | "rank (Using _) = 8" | "rank (PLock _) = 7"
| "rank (PCheck _) = 6" | "rank (PAlive _) = 5" | "rank (PSend _) = 4" | "rank (PDrop _) = 3"
| "rank (PClosing _) = 2" | "rank PUnlock = 1" | "rank CLock = 6" | "rank CCheck = 5" | "rank CSet = 4"
| "rank CCloseCh = 3" | "rank CUnlock = 2" | "rank CUnlockRet = 1" | "rank CDrain = 1"
| "rank (CGot _) = 3" | "rank (CClose _) = 2" | "rank Idle = 0" | "rank Crashed = 0"

definition pool_load :: "pstate \<Rightarrow> nat" where
  "pool_load s = 30 * length (buf (channels (the_pool s))) + sum_list (map rank (pcs s))"

definition shut :: "pstate \<Rightarrow> bool" where
  "shut s \<longleftrightarrow> pinv s \<and> chan_closed (channels (the_pool s))"

lemma act_rank:
  assumes "act i b x p m q = Some (p', m', q')" "knows p q" "q \<noteq> Idle" "chan_closed (channels p)" "closed p"
  shows "chan_closed (channels p')
     \<and> 30 * length (buf (channels p')) + rank q' < 30 * length (buf (channels p)) + rank q"
  using assms
  by (cases q) (auto simp: chan_recv_def chan_close_def split: if_splits list.splits)

lemma finishing_winds:
  assumes "shut s" "finishing s t"
  shows "shut t \<and> pool_load t < pool_load s"
proof -
  obtain i b x p' m' q' where i: "i < length (pcs s)" "pcs s ! i \<noteq> Idle"
    and a: "act i b x (the_pool s) (mu s) (pcs s ! i) = Some (p', m', q')"
    and t: "t = \<lparr>the_pool = p', mu = m', pcs = (pcs s)[i := q'], open_amqp = amqp_effect b x (pcs s ! i) (open_amqp s)\<rparr>"
    using assms(2) by (elim finishingE) blast
  have s: "pinv s" "chan_closed (channels (the_pool s))" "closed (the_pool s)" "knows (the_pool s) (pcs s ! i)"
    using assms(1) i by (auto simp: shut_def pinv_def)
  note r = act_rank [OF a s(4) i(2) s(2,3)]
  obtain rest where "sum_list (map rank (pcs s)) = rest + rank (pcs s ! i)"
    "sum_list (map rank ((pcs s)[i := q'])) = rest + rank q'"
    using sum_list_split [OF i(1)] by blast
  then show ?thesis
    using r pinv_step [OF s(1) finishing_pstep [OF assms(2)]] by (simp add: t shut_def pool_load_def)
qed

interpretation closed_pool: winding_system finishing shut pool_load
  by unfold_locales (rule finishing_winds)

section \<open>Nobody is stuck\<close>

text \<open>The holder of the mutex never waits, and without a holder nobody waits for it.\<close>

lemma act_unblocked:
  assumes "knows p q" "chan_closed (channels p)" "holds q \<or> m = None"
  shows "\<exists>p' m' q'. act i True x p m q = Some (p', m', q')"
  using assms by (cases q) (auto simp: chan_recv_def chan_send_def chan_close_def split: list.splits)

lemma shut_progress:
  assumes "shut s" "\<nexists>t. finishing s t"
  shows "set (pcs s) \<subseteq> {Idle}"
proof (rule ccontr)
  assume "\<not> ?thesis"
  then obtain i where i: "i < length (pcs s)" "pcs s ! i \<noteq> Idle" by (metis in_set_conv_nth singleton_iff subsetI)
  have inv: "pinv s" "chan_closed (channels (the_pool s))" using assms(1) by (simp_all add: shut_def)
  define j where "j = (case mu s of None \<Rightarrow> i | Some j \<Rightarrow> j)"
  have j: "j < length (pcs s)" "knows (the_pool s) (pcs s ! j)" "holds (pcs s ! j) \<or> mu s = None" "pcs s ! j \<noteq> Idle"
    using inv(1) i by (auto simp: pinv_def j_def split: option.splits)
  obtain p' m' q' where "act j True 0 (the_pool s) (mu s) (pcs s ! j) = Some (p', m', q')"
    using act_unblocked [OF j(2) inv(2) j(3)] by blast
  with assms(2) j(1,4) show False by (blast intro: finishing)
qed

section \<open>Properties\<close>

text \<open>
  C17: closing a pool brings it to rest. Once \<^verbatim>\<open>close\<close> has closed the Go channel, the calls under way have
  a bounded number of steps left, whatever the interleaving and the library do; none of them
  waits for ever, neither for the mutex nor for a channel; and when they have all returned the
  pool is empty, counts nothing and has left no AMQP channel open.
\<close>

theorem closed_pool_comes_to_rest:
  assumes "reach pinit pstep s" "chan_closed (channels (the_pool s))"
  shows "(\<forall>n t. (finishing ^^ n) s t \<longrightarrow> n \<le> pool_load s)
     \<and> (\<exists>t. finishing\<^sup>*\<^sup>* s t \<and> (\<nexists>u. finishing t u))
     \<and> (\<forall>t. finishing\<^sup>*\<^sup>* s t \<and> (\<nexists>u. finishing t u) \<longrightarrow>
          set (pcs t) \<subseteq> {Idle} \<and> buf (channels (the_pool t)) = [] \<and> currentPoolSize (the_pool t) = 0 \<and> open_amqp t = {#})"
proof -
  have s: "shut s" using pool_threads.reach_inv [OF assms(1)] assms(2) by (simp add: shut_def)
  have "n \<le> pool_load s" if "(finishing ^^ n) s t" for n t
    using closed_pool.run_bound [OF that s] by simp
  moreover have "set (pcs t) \<subseteq> {Idle} \<and> buf (channels (the_pool t)) = [] \<and> currentPoolSize (the_pool t) = 0 \<and> open_amqp t = {#}"
    if t: "finishing\<^sup>*\<^sup>* s t" "\<nexists>u. finishing t u" for t
  proof -
    have "shut t" using closed_pool.run_keeps [OF t(1) s] .
    then have idle: "set (pcs t) \<subseteq> {Idle}" and c: "closed (the_pool t)"
      using shut_progress [OF _ t(2)] by (auto simp: shut_def pinv_def)
    have "pstep\<^sup>*\<^sup>* s t" using t(1) by (rule rtranclp_mono [THEN predicate2D, rotated]) (auto intro: finishing_pstep)
    then have "reach pinit pstep t" using assms(1) by (rule reach_steps)
    then show ?thesis using closed_pool_drains [OF _ c idle] idle by simp
  qed
  ultimately show ?thesis using closed_pool.run_ends [OF s] by blast
qed

text \<open>Two goroutines: the first has taken the only channel, the second has closed the pool.\<close>

theorem closed_pool_comes_to_rest_witness:
  "\<exists>s t. prun [(0, True, 0), (0, False, 0), (0, False, 0), (1, False, 0), (1, False, 0), (1, False, 0), (1, False, 0),
       (1, False, 0)] two_threads = Some s
     \<and> pcs s = [GTook 5, CUnlock] \<and> pool_load s = 20 \<and> finishing\<^sup>*\<^sup>* s t \<and> set (pcs t) \<subseteq> {Idle} \<and> open_amqp t = {#}"
proof -
  let ?s = "two_threads\<lparr>the_pool := (the_pool two_threads)\<lparr>channels := \<lparr>buf = [], cap = 1, chan_closed = True\<rparr>,
    closed := True\<rparr>, mu := Some 1, pcs := [GTook 5, CUnlock]\<rparr>"
  have run: "prun [(0, True, 0), (0, False, 0), (0, False, 0), (1, False, 0), (1, False, 0), (1, False, 0), (1, False, 0),
       (1, False, 0)] two_threads = Some ?s"
    by (simp add: two_threads_def chan_recv_def chan_close_def)
  have "chan_closed (channels (the_pool ?s))" by simp
  note rest = closed_pool_comes_to_rest [OF prun_reach [OF run two_threads_init] this]
  then obtain t where "finishing\<^sup>*\<^sup>* ?s t" "\<nexists>u. finishing t u" by blast
  with rest have "finishing\<^sup>*\<^sup>* ?s t \<and> set (pcs t) \<subseteq> {Idle} \<and> open_amqp t = {#}" by blast
  moreover have "pcs ?s = [GTook 5, CUnlock] \<and> pool_load ?s = 20" by (simp add: pool_load_def)
  ultimately show ?thesis using run by blast
qed

end
