(* ===== verification/Topology.thy ===== *)
theory Topology
  imports Sdk_State
begin

text \<open>
  Queue validation, \<^verbatim>\<open>DeclareQueues\<close> and \<^verbatim>\<open>SetQos\<close> of \<^verbatim>\<open>rabbitmqsdk.go\<close>. What a queue
  configuration means on the broker is stated once, as the list of declarations
  \<open>topology q\<close>; the lemmas show that declaring performs exactly these, in order, stops at the
  first error, and remembers the queues for replay only when all of them succeeded.
\<close>

section \<open>validate\<close>

text \<open>
  \<^verbatim>\<open>strconv.Quote\<close>, the verb q: quotes and backslashes are escaped, control characters become
  their short escape or two hexadecimal digits; bytes from 128 on are kept (the encoding of a
  printable character).
\<close>

definition hex_digit :: "nat \<Rightarrow> char" where
  "hex_digit d = (if d < 10 then char_of (48 + d) else char_of (87 + d))"

definition quote_char :: "char \<Rightarrow> string" where
  "quote_char c =
     (let n = (of_char c :: nat); bs = char_of (92 :: nat) in
      if n = 34 \<or> n = 92 then [bs, c]
      else case map_of [(7, CHR ''a''), (8, CHR ''b''), (9, CHR ''t''), (10, CHR ''n''),
                        (11, CHR ''v''), (12, CHR ''f''), (13, CHR ''r'')] n of
             Some e \<Rightarrow> [bs, e]
           | None \<Rightarrow> if n < 32 \<or> n = 127 then [bs, CHR ''x'', hex_digit (n div 16), hex_digit (n mod 16)]
                     else [c])"

definition quote :: "string \<Rightarrow> string" where
  "quote s = [CHR 0x22] @ concat (map quote_char s) @ [CHR 0x22]"

definition queue_validate :: "QueueConfig \<Rightarrow> err option" where
  "queue_validate q =
     (if Name q = [] then Some (ErrNew ''queue name is required'')
      else if QueueType q \<noteq> [] \<and> QueueType q \<noteq> Classic \<and> QueueType q \<noteq> Quorum
        then Some (ErrNew (''queue '' @ Name q @ '': unsupported queue type '' @ quote (QueueType q)))
      else if MaxRedelivery q < -1
        then Some (ErrNew (''queue '' @ Name q @ '': maximum redelivery cannot be less than -1''))
      else if DummyMessageFrequency q < 0
        then Some (ErrNew (''queue '' @ Name q @ '': dummy message frequency cannot be negative''))
      else if QueueType q = Quorum \<and> \<not> Durable q
        then Some (ErrNew (''quorum queue '' @ Name q @ '' must be durable''))
      else if QueueType q = Quorum \<and> AutoDelete q
        then Some (ErrNew (''quorum queue '' @ Name q @ '' cannot be auto-delete''))
      else if QueueType q = Quorum \<and> Exclusive q
        then Some (ErrNew (''quorum queue '' @ Name q @ '' cannot be exclusive''))
      else if IsDelayQueue q \<and> Exchange q = []
        then Some (ErrNew (''queue '' @ Name q @ '': delay queue exchange is required''))
      else if IsDelayQueue q \<and> DelayStrategy q \<noteq> DelayDLXTTL
        then Some (ErrNew (''queue '' @ Name q @ '': unsupported delay strategy '' @ show_int (DelayStrategy q)))
      else if IsDelayQueue q \<and> DelayStrategy q = DelayDLXTTL
            \<and> (DLXTTL q \<le> 0 \<or> milliseconds (DLXTTL q) > maxInt32)
        then Some (ErrNew (''queue '' @ Name q @ '': DLX+TTL must be between 1 millisecond and 2147483647 milliseconds''))
      else None)"

section \<open>Declaring\<close>

text \<open>Go on with \<open>f\<close> unless there was an error: \<^verbatim>\<open>if err != nil { return err }\<close>.\<close>

definition and_then :: "err option \<times> hist \<Rightarrow> (hist \<Rightarrow> err option \<times> hist) \<Rightarrow> err option \<times> hist" where
  "and_then r f = (case r of (Some e, h) \<Rightarrow> (Some e, h) | (None, h) \<Rightarrow> f h)"

definition wrapped :: "string \<Rightarrow> err option \<times> hist \<Rightarrow> err option \<times> hist" where
  "wrapped m r = (wrap_err m (fst r), snd r)"

text \<open>\<^verbatim>\<open>if args == nil { args = Table{} }; args[k] = v\<close>.\<close>

definition args_put :: "table option \<Rightarrow> string \<Rightarrow> field \<Rightarrow> table option" where
  "args_put t k v = Some (AList.update k v (case t of None \<Rightarrow> [] | Some xs \<Rightarrow> xs))"

definition dlxName :: "QueueConfig \<Rightarrow> string" where
  "dlxName q = Name q @ ''.DLX''"

definition dlqName :: "QueueConfig \<Rightarrow> string" where
  "dlqName q = Name q @ ''.DLQ''"

definition declare_dlq :: "lib \<Rightarrow> chan_ref \<Rightarrow> QueueConfig \<Rightarrow> hist \<Rightarrow> err option \<times> hist" where
  "declare_dlq L ch q h =
     and_then (wrapped (''failed to declare DLX '' @ dlxName q)
                 (ch_exchange_declare L ch (dlxName q) ''direct'' True False False False None h))
       (\<lambda>h. and_then (wrapped (''failed to declare DLQ '' @ dlqName q)
                        (ch_queue_declare L ch (dlqName q) True False False False None h))
       (\<lambda>h. wrapped (''failed to bind DLQ '' @ dlqName q @ '' to DLX '' @ dlxName q)
              (ch_queue_bind L ch (dlqName q) (dlqName q) (dlxName q) False None h)))"

definition delay_args :: "QueueConfig \<Rightarrow> table option" where
  "delay_args q =
     (let a = Some [(''x-message-ttl'', FInt32 (wrap32 (milliseconds (DLXTTL q)))),
                    (''x-dead-letter-exchange'', FStr (Exchange q)),
                    (''x-dead-letter-routing-key'', FStr (RoutingKey q))]
      in if QueueType q = Quorum then args_put a ''x-queue-type'' (FStr ''quorum'') else a)"

definition declare_delay :: "lib \<Rightarrow> chan_ref \<Rightarrow> QueueConfig \<Rightarrow> hist \<Rightarrow> err option \<times> hist" where
  "declare_delay L ch q h =
     (if DelayStrategy q = DelayDLXTTL
      then and_then (wrapped (''failed to declare DLX+TTL exchange: '' @ Exchange q)
                       (ch_exchange_declare L ch (Exchange q) ''direct'' True False False False None h))
             (\<lambda>h. wrapped (''failed to declare DLX+TTL delay queue '' @ getDelayQueueName (Name q))
                    (ch_queue_declare L ch (getDelayQueueName (Name q)) True False False False
                       (delay_args q) h))
      else (None, h))"

text \<open>One round of the loop of \<^verbatim>\<open>declareQueuesLocked\<close>; \<open>q\<close> is the loop's copy of the entry.\<close>

definition declare_one :: "lib \<Rightarrow> chan_ref \<Rightarrow> ctx \<Rightarrow> QueueConfig \<Rightarrow> hist \<Rightarrow> err option \<times> hist" where
  "declare_one L ch c q0 h =
     and_then (ctx_err L c h) (\<lambda>h.
     and_then (queue_validate q0, h) (\<lambda>h.
       let args0 = (if QueueType q0 = Quorum then args_put None ''x-queue-type'' (FStr ''quorum'') else None);
           q = (if RoutingKey q0 = [] then q0\<lparr>RoutingKey := Name q0\<rparr> else q0)
       in and_then (if EnableDLQ q then declare_dlq L ch q h else (None, h)) (\<lambda>h.
       let args1 = (if EnableDLQ q
                    then args_put (args_put args0 ''x-dead-letter-exchange'' (FStr (dlxName q)))
                           ''x-dead-letter-routing-key'' (FStr (dlqName q))
                    else args0)
       in and_then (if IsDelayQueue q then declare_delay L ch q h else (None, h)) (\<lambda>h.
       let args2 = (if ConsumerTimeout q > 0
                    then args_put args1 ''x-consumer-timeout'' (FInt64 (milliseconds (ConsumerTimeout q)))
                    else args1)
       in and_then (wrapped (''failed to declare a queue '' @ Name q)
                      (ch_queue_declare L ch (Name q) (Durable q) (AutoDelete q) (Exclusive q) (NoWait q)
                         args2 h)) (\<lambda>h.
          if IsDelayQueue q
          then wrapped (''failed to bind a delayed queue to the delayed exchange '' @ Name q)
                 (ch_queue_bind L ch (Name q) (RoutingKey q) (Exchange q) False None h)
          else (None, h))))))"

fun declare_loop :: "lib \<Rightarrow> chan_ref \<Rightarrow> ctx \<Rightarrow> QueueConfig list \<Rightarrow> hist \<Rightarrow> err option \<times> hist" where
  "declare_loop L ch c [] h = (None, h)"
| "declare_loop L ch c (q # qs) h = and_then (declare_one L ch c q h) (declare_loop L ch c qs)"

definition declareQueuesLocked ::
  "lib \<Rightarrow> ctx \<Rightarrow> QueueConfig list \<Rightarrow> bool \<Rightarrow> SDK \<Rightarrow> hist \<Rightarrow> err option \<times> SDK \<times> hist" where
  "declareQueuesLocked L c qs store s h =
     (case declare_loop L (channel s) c qs h of
        (Some e, h1) \<Rightarrow> (Some e, s, h1)
      | (None, h1) \<Rightarrow>
          (None, if store then s\<lparr>declaredQueues := declaredQueues s @ cloneQueueConfigs qs\<rparr> else s, h1))"

definition DeclareQueues :: "lib \<Rightarrow> ctx \<Rightarrow> QueueConfig list \<Rightarrow> SDK \<Rightarrow> hist \<Rightarrow> err option \<times> SDK \<times> hist" where
  "DeclareQueues L c qs s h =
     (case validateContext L c h of
        (Some e, h1) \<Rightarrow> (Some e, s, h1)
      | (None, h1) \<Rightarrow> declareQueuesLocked L c qs True s h1)"

section \<open>SetQos\<close>

definition SetQos :: "lib \<Rightarrow> ctx \<Rightarrow> int \<Rightarrow> int \<Rightarrow> bool \<Rightarrow> SDK \<Rightarrow> hist \<Rightarrow> err option \<times> SDK \<times> hist" where
  "SetQos L c prefetchCount prefetchSize global s h =
     (case validateContext L c h of
        (Some e, h1) \<Rightarrow> (Some e, s, h1)
      | (None, h1) \<Rightarrow>
          (case ch_qos L (channel s) prefetchCount prefetchSize global h1 of
             (Some e, h2) \<Rightarrow> (Some e, s, h2)
           | (None, h2) \<Rightarrow>
               (None, s\<lparr>qosConfigured := True, qosPrefetchCount := prefetchCount,
                        qosPrefetchSize := prefetchSize, qosGlobal := global\<rparr>, h2)))"

section \<open>The topology of a queue\<close>

datatype decl =
    DeclExchange string string bool bool bool bool "table option"
  | DeclQueue string bool bool bool bool "table option"
  | DeclBind string string string bool "table option"

text \<open>The declarations a history asked the broker for on channel \<open>ch\<close>, successful or not.\<close>

fun decl_of :: "chan_ref \<Rightarrow> event \<Rightarrow> decl list" where
  "decl_of ch (EvExchangeDeclare c n k d a i w t r) = (if c = ch then [DeclExchange n k d a i w t] else [])"
| "decl_of ch (EvQueueDeclare c n d a x w t r) = (if c = ch then [DeclQueue n d a x w t] else [])"
| "decl_of ch (EvQueueBind c n k x w t r) = (if c = ch then [DeclBind n k x w t] else [])"
| "decl_of ch _ = []"

definition decls :: "chan_ref \<Rightarrow> hist \<Rightarrow> decl list" where
  "decls ch h = concat (map (decl_of ch) h)"

definition routing_key :: "QueueConfig \<Rightarrow> string" where
  "routing_key q = (if RoutingKey q = [] then Name q else RoutingKey q)"

definition queue_args :: "QueueConfig \<Rightarrow> table option" where
  "queue_args q =
     (let t = (if QueueType q = Quorum then [(''x-queue-type'', FStr ''quorum'')] else [])
            @ (if EnableDLQ q then [(''x-dead-letter-exchange'', FStr (dlxName q)),
                                    (''x-dead-letter-routing-key'', FStr (dlqName q))] else [])
            @ (if ConsumerTimeout q > 0
               then [(''x-consumer-timeout'', FInt64 (milliseconds (ConsumerTimeout q)))] else [])
      in if t = [] then None else Some t)"

definition topology :: "QueueConfig \<Rightarrow> decl list" where
  "topology q =
     (if EnableDLQ q
      then [DeclExchange (dlxName q) ''direct'' True False False False None,
            DeclQueue (dlqName q) True False False False None,
            DeclBind (dlqName q) (dlqName q) (dlxName q) False None] else [])
   @ (if IsDelayQueue q
      then [DeclExchange (Exchange q) ''direct'' True False False False None,
            DeclQueue (getDelayQueueName (Name q)) True False False False
              (delay_args (q\<lparr>RoutingKey := routing_key q\<rparr>))] else [])
   @ [DeclQueue (Name q) (Durable q) (AutoDelete q) (Exclusive q) (NoWait q) (queue_args q)]
   @ (if IsDelayQueue q then [DeclBind (Name q) (routing_key q) (Exchange q) False None] else [])"

section \<open>Lemmas\<close>

lemma and_then_simps [simp]:
  "and_then (Some e, h) f = (Some e, h)"
  "and_then (None, h) f = f h"
  by (simp_all add: and_then_def)

lemma and_then_None:
  "and_then r f = (None, h') \<longleftrightarrow> (\<exists>h1. r = (None, h1) \<and> f h1 = (None, h'))"
  by (auto simp: and_then_def split: prod.splits option.splits)

lemma decls_append [simp]: "decls ch (h @ es) = decls ch h @ decls ch es"
  by (simp add: decls_def)

lemma decls_simps [simp]:
  "decls ch [] = []"
  "decls ch (e # es) = decl_of ch e @ decls ch es"
  by (simp_all add: decls_def)

text \<open>
  A piece of declaring code performs the declarations \<open>ds\<close>: all of them when it succeeds, an
  initial part otherwise; it opens and closes nothing.
\<close>

definition declares :: "chan_ref \<Rightarrow> decl list \<Rightarrow> (hist \<Rightarrow> err option \<times> hist) \<Rightarrow> bool" where
  "declares ch ds f \<longleftrightarrow> (\<forall>h. \<exists>es. decls ch (snd (f h)) = decls ch h @ es
     \<and> (\<exists>rest. ds = es @ rest) \<and> (fst (f h) = None \<longrightarrow> es = ds)
     \<and> live_chans (snd (f h)) = live_chans h \<and> live_conns (snd (f h)) = live_conns h)"

lemma declares_seq:
  assumes "declares ch ds f" "declares ch ds' g"
  shows "declares ch (ds @ ds') (\<lambda>h. and_then (f h) g)"
  unfolding declares_def
proof
  fix h
  obtain es rest where f: "decls ch (snd (f h)) = decls ch h @ es" "ds = es @ rest"
    "fst (f h) = None \<longrightarrow> es = ds" "live_chans (snd (f h)) = live_chans h" "live_conns (snd (f h)) = live_conns h"
    using assms(1) unfolding declares_def by blast
  show "\<exists>es. decls ch (snd (and_then (f h) g)) = decls ch h @ es \<and> (\<exists>rest. ds @ ds' = es @ rest)
     \<and> (fst (and_then (f h) g) = None \<longrightarrow> es = ds @ ds')
     \<and> live_chans (snd (and_then (f h) g)) = live_chans h \<and> live_conns (snd (and_then (f h) g)) = live_conns h"
  proof (cases "fst (f h)")
    case None
    obtain es' rest' where g: "decls ch (snd (g (snd (f h)))) = decls ch (snd (f h)) @ es'" "ds' = es' @ rest'"
      "fst (g (snd (f h))) = None \<longrightarrow> es' = ds'" "live_chans (snd (g (snd (f h)))) = live_chans (snd (f h))"
      "live_conns (snd (g (snd (f h)))) = live_conns (snd (f h))"
      using assms(2) unfolding declares_def by blast
    have eq: "and_then (f h) g = g (snd (f h))" using None by (auto simp: and_then_def split: prod.splits)
    have es: "es = ds" using f(3) None by simp
    have "\<exists>rest. ds @ ds' = (ds @ es') @ rest" using g(2) by simp
    moreover have "fst (g (snd (f h))) = None \<longrightarrow> ds @ es' = ds @ ds'" using g(3) by simp
    ultimately show ?thesis
      unfolding eq by - (rule exI [of _ "ds @ es'"], intro conjI, simp_all add: f(1,4,5) g(1,4,5) es)
  next
    case (Some e)
    then have eq: "and_then (f h) g = f h" by (auto simp: and_then_def split: prod.splits)
    show ?thesis
      unfolding eq using f(2) by - (rule exI [of _ es], intro conjI, simp_all add: f(1,4,5) Some)
  qed
qed

lemma declares_Nil: "declares ch [] (\<lambda>h. (e, h))"
  by (simp add: declares_def)

lemma declares_ctx: "declares ch [] (ctx_err L c)"
  by (simp add: declares_def ctx_err_def Let_def)

lemma declares_wrapped: "declares ch ds f \<Longrightarrow> declares ch ds (\<lambda>h. wrapped m (f h))"
  by (simp add: declares_def wrapped_def wrap_err_def)

lemma declares_calls:
  "declares ch [DeclExchange n k d a i w t] (ch_exchange_declare L ch n k d a i w t)"
  "declares ch [DeclQueue n d a x w t] (ch_queue_declare L ch n d a x w t)"
  "declares ch [DeclBind n k y w t] (ch_queue_bind L ch n k y w t)"
  by (simp_all add: declares_def env_defs Let_def)

lemma declares_dlq:
  "declares ch [DeclExchange (dlxName q) ''direct'' True False False False None,
      DeclQueue (dlqName q) True False False False None,
      DeclBind (dlqName q) (dlqName q) (dlxName q) False None] (declare_dlq L ch q)"
  unfolding declare_dlq_def
  using declares_seq [OF declares_wrapped [OF declares_calls(1)]
      declares_seq [OF declares_wrapped [OF declares_calls(2)] declares_wrapped [OF declares_calls(3)]]]
  by simp

lemma declares_delay:
  assumes "DelayStrategy q = DelayDLXTTL"
  shows "declares ch [DeclExchange (Exchange q) ''direct'' True False False False None,
      DeclQueue (getDelayQueueName (Name q)) True False False False (delay_args q)] (declare_delay L ch q)"
  unfolding declare_delay_def
  using assms declares_seq [OF declares_wrapped [OF declares_calls(1)] declares_wrapped [OF declares_calls(2)]]
  by simp

lemma declares_fail: "declares ch ds (\<lambda>h. (Some e, h))"
  by (simp add: declares_def)

lemma declares_if:
  "(b \<Longrightarrow> declares ch ds f) \<Longrightarrow> declares ch (if b then ds else []) (\<lambda>h. if b then f h else (None, h))"
  by (cases b) (simp_all add: declares_Nil)

text \<open>The arguments collected along the way are those of \<open>queue_args\<close>.\<close>

lemma queue_args_eq:
  "(let args0 = (if QueueType q0 = Quorum then args_put None ''x-queue-type'' (FStr ''quorum'') else None);
        args1 = (if EnableDLQ q0
                 then args_put (args_put args0 ''x-dead-letter-exchange'' (FStr (dlxName q0)))
                        ''x-dead-letter-routing-key'' (FStr (dlqName q0))
                 else args0)
    in if ConsumerTimeout q0 > 0
       then args_put args1 ''x-consumer-timeout'' (FInt64 (milliseconds (ConsumerTimeout q0)))
       else args1) = queue_args q0"
  by (simp add: args_put_def queue_args_def Let_def)

lemma queue_names_routing [simp]:
  "dlxName (q\<lparr>RoutingKey := k\<rparr>) = dlxName q" "dlqName (q\<lparr>RoutingKey := k\<rparr>) = dlqName q"
  by (simp_all add: dlxName_def dlqName_def)

definition with_routing :: "QueueConfig \<Rightarrow> QueueConfig" where
  "with_routing q = q\<lparr>RoutingKey := routing_key q\<rparr>"

lemma with_routing_fields [simp]:
  "Name (with_routing q) = Name q" "QueueType (with_routing q) = QueueType q"
  "EnableDLQ (with_routing q) = EnableDLQ q" "IsDelayQueue (with_routing q) = IsDelayQueue q"
  "Exchange (with_routing q) = Exchange q" "Durable (with_routing q) = Durable q"
  "AutoDelete (with_routing q) = AutoDelete q" "Exclusive (with_routing q) = Exclusive q"
  "NoWait (with_routing q) = NoWait q" "ConsumerTimeout (with_routing q) = ConsumerTimeout q"
  "DelayStrategy (with_routing q) = DelayStrategy q" "RoutingKey (with_routing q) = routing_key q"
  "dlxName (with_routing q) = dlxName q" "dlqName (with_routing q) = dlqName q"
  by (simp_all add: with_routing_def)

lemma with_routing_eq: "(if RoutingKey q = [] then q\<lparr>RoutingKey := Name q\<rparr> else q) = with_routing q"
  by (simp add: with_routing_def routing_key_def)

text \<open>The loop body, with its arguments and its copy of the queue named.\<close>

lemma declare_one_unfold:
  "declare_one L ch c q h =
     and_then (ctx_err L c h) (\<lambda>h.
     and_then (queue_validate q, h) (\<lambda>h.
     and_then (if EnableDLQ q then declare_dlq L ch (with_routing q) h else (None, h)) (\<lambda>h.
     and_then (if IsDelayQueue q then declare_delay L ch (with_routing q) h else (None, h)) (\<lambda>h.
     and_then (wrapped (''failed to declare a queue '' @ Name q)
                 (ch_queue_declare L ch (Name q) (Durable q) (AutoDelete q) (Exclusive q) (NoWait q)
                    (queue_args q) h)) (\<lambda>h.
       if IsDelayQueue q
       then wrapped (''failed to bind a delayed queue to the delayed exchange '' @ Name q)
              (ch_queue_bind L ch (Name q) (routing_key q) (Exchange q) False None h)
       else (None, h))))))"
  by (simp only: declare_one_def with_routing_eq Let_def with_routing_fields queue_args_eq [unfolded Let_def])

lemma validate_delay: "queue_validate q = None \<Longrightarrow> IsDelayQueue q \<Longrightarrow> DelayStrategy q = DelayDLXTTL"
  by (auto simp: queue_validate_def split: if_splits)

lemma topology_eq:
  "topology q = (if EnableDLQ q
      then [DeclExchange (dlxName (with_routing q)) ''direct'' True False False False None,
            DeclQueue (dlqName (with_routing q)) True False False False None,
            DeclBind (dlqName (with_routing q)) (dlqName (with_routing q)) (dlxName (with_routing q)) False None] else [])
   @ (if IsDelayQueue q
      then [DeclExchange (Exchange (with_routing q)) ''direct'' True False False False None,
            DeclQueue (getDelayQueueName (Name (with_routing q))) True False False False
              (delay_args (with_routing q))] else [])
   @ [DeclQueue (Name q) (Durable q) (AutoDelete q) (Exclusive q) (NoWait q) (queue_args q)]
   @ (if IsDelayQueue q then [DeclBind (Name q) (routing_key q) (Exchange q) False None] else [])"
  by (simp add: topology_def with_routing_def)

lemma declares_one: "declares ch (topology q) (declare_one L ch c q)"
proof (cases "queue_validate q")
  case (Some e)
  have "declares ch ([] @ topology q) (\<lambda>h. and_then (ctx_err L c h) (\<lambda>h. (Some e, h)))"
    by (rule declares_seq [OF declares_ctx declares_fail])
  with Some show ?thesis by (simp add: declare_one_unfold [abs_def])
next
  case None
  have delay: "IsDelayQueue q \<Longrightarrow> DelayStrategy (with_routing q) = DelayDLXTTL"
    using validate_delay [OF None] by simp
  have "declares ch ([] @ topology q) (\<lambda>h. and_then (ctx_err L c h) (\<lambda>h.
      and_then (if EnableDLQ q then declare_dlq L ch (with_routing q) h else (None, h)) (\<lambda>h.
      and_then (if IsDelayQueue q then declare_delay L ch (with_routing q) h else (None, h)) (\<lambda>h.
      and_then (wrapped (''failed to declare a queue '' @ Name q)
        (ch_queue_declare L ch (Name q) (Durable q) (AutoDelete q) (Exclusive q) (NoWait q) (queue_args q) h)) (\<lambda>h.
        if IsDelayQueue q
        then wrapped (''failed to bind a delayed queue to the delayed exchange '' @ Name q)
          (ch_queue_bind L ch (Name q) (routing_key q) (Exchange q) False None h)
        else (None, h))))))"
    unfolding topology_eq
    by (intro declares_seq declares_ctx declares_if declares_dlq declares_delay delay
        declares_wrapped declares_calls)
  with None show ?thesis by (simp add: declare_one_unfold [abs_def])
qed

lemma declares_loop: "declares ch (concat (map topology qs)) (declare_loop L ch c qs)"
proof (induction qs)
  case Nil
  then show ?case by (simp add: declares_Nil)
next
  case (Cons q qs)
  then show ?case using declares_seq [OF declares_one Cons.IH] by simp
qed

lemma declare_loop_None_valid:
  "declare_loop L ch c qs h = (None, h') \<Longrightarrow> q \<in> set qs \<Longrightarrow> queue_validate q = None"
  by (induction qs arbitrary: h) (auto simp: and_then_None declare_one_def)

lemma queue_validate_None:
  "queue_validate q = None \<longleftrightarrow>
     Name q \<noteq> [] \<and> QueueType q \<in> {[], Classic, Quorum} \<and> -1 \<le> MaxRedelivery q
   \<and> 0 \<le> DummyMessageFrequency q
   \<and> (QueueType q = Quorum \<longrightarrow> Durable q \<and> \<not> AutoDelete q \<and> \<not> Exclusive q)
   \<and> (IsDelayQueue q \<longrightarrow> Exchange q \<noteq> [] \<and> DelayStrategy q = DelayDLXTTL
        \<and> 0 < DLXTTL q \<and> DLXTTL q < 2147483648 * millisecond)"
proof -
  have ttl: "(d \<le> 0 \<or> milliseconds d > maxInt32) \<longleftrightarrow> \<not> (0 < d \<and> d < 2147483648 * millisecond)" for d
    by (cases "0 < d") (auto simp: milliseconds_pos maxInt32_def millisecond_def)
  have chain: "(if b then Some e else r) = None \<longleftrightarrow> \<not> b \<and> r = None" for b and e :: err and r
    by simp
  show ?thesis unfolding queue_validate_def chain ttl by (auto simp: not_less)
qed

lemma declareQueuesLocked_live [simp]:
  "live_chans (snd (snd (declareQueuesLocked L c qs store s h))) = live_chans h"
  "live_conns (snd (snd (declareQueuesLocked L c qs store s h))) = live_conns h"
  using declares_loop [of "channel s" qs L c]
  by (auto simp: declares_def declareQueuesLocked_def split: prod.splits option.splits)
    (metis snd_conv)+

lemma topology_dlq:
  "EnableDLQ q \<Longrightarrow>
     {DeclExchange (dlxName q) ''direct'' True False False False None,
      DeclQueue (dlqName q) True False False False None,
      DeclBind (dlqName q) (dlqName q) (dlxName q) False None,
      DeclQueue (Name q) (Durable q) (AutoDelete q) (Exclusive q) (NoWait q) (queue_args q)} \<subseteq> set (topology q)"
  by (simp add: topology_def)

lemma topology_delay:
  "IsDelayQueue q \<Longrightarrow>
     {DeclExchange (Exchange q) ''direct'' True False False False None,
      DeclQueue (getDelayQueueName (Name q)) True False False False (delay_args (with_routing q)),
      DeclBind (Name q) (routing_key q) (Exchange q) False None} \<subseteq> set (topology q)"
  by (simp add: topology_def with_routing_def)

lemma DeclareQueues_None:
  assumes "DeclareQueues L c qs s h = (None, s', h')" "q \<in> set qs"
  shows "queue_validate q = None \<and> set (topology q) \<subseteq> set (decls (channel s) h')"
proof -
  obtain h1 where l: "declare_loop L (channel s) c qs h1 = (None, h')"
    using assms(1) by (auto simp: DeclareQueues_def declareQueuesLocked_def split: prod.splits option.splits)
  then have "decls (channel s) h' = decls (channel s) h1 @ concat (map topology qs)"
    using declares_loop [of "channel s" qs L c] unfolding declares_def by (metis fst_conv snd_conv)
  with assms(2) declare_loop_None_valid [OF l assms(2)] show ?thesis by auto
qed

lemma queue_args_dlq:
  "EnableDLQ q \<Longrightarrow> table_get (queue_args q) ''x-dead-letter-exchange'' = Some (FStr (dlxName q))
     \<and> table_get (queue_args q) ''x-dead-letter-routing-key'' = Some (FStr (dlqName q))"
  by (simp add: queue_args_def table_get_def Let_def)

lemma delay_args_get:
  "table_get (delay_args q) ''x-message-ttl'' = Some (FInt32 (wrap32 (milliseconds (DLXTTL q))))
   \<and> table_get (delay_args q) ''x-dead-letter-exchange'' = Some (FStr (Exchange q))
   \<and> table_get (delay_args q) ''x-dead-letter-routing-key'' = Some (FStr (RoutingKey q))"
  by (simp add: delay_args_def args_put_def table_get_def Let_def)

section \<open>The queues of the example program\<close>

text \<open>
  The two queues of \<^verbatim>\<open>examples/dlq-and-delay/main.go\<close>; the handlers are opaque references.
\<close>

definition zero_queue :: QueueConfig where
  "zero_queue = \<lparr>Name = [], QueueType = [], Handler = None, NumWorkers = 0, IsDelayQueue = False,
     DelayStrategy = 0, DLXTTL = 0, MaxRedelivery = 0, Exchange = [], RoutingKey = [],
     Durable = False, AutoDelete = False, ConsumerTag = [], Exclusive = False, NoWait = False,
     ConsumerTimeout = 0, EnableDLQ = False, ProcessTimeout = 0, DummyMessageEnabled = False,
     DummyMessageFrequency = 0\<rparr>"

definition ordersQueue :: QueueConfig where
  "ordersQueue = zero_queue\<lparr>Name := ''huma.orders'', Durable := True, EnableDLQ := True,
     MaxRedelivery := 3, NumWorkers := 2, ProcessTimeout := 5 * second, Handler := Some 0\<rparr>"

definition scheduledQueue :: QueueConfig where
  "scheduledQueue = zero_queue\<lparr>Name := ''huma.scheduled'', Exchange := ''huma.scheduled.exchange'',
     RoutingKey := ''huma.scheduled'', Durable := True, IsDelayQueue := True,
     DelayStrategy := DelayDLXTTL, DLXTTL := 10 * second, NumWorkers := 1,
     ProcessTimeout := 5 * second, Handler := Some 1\<rparr>"

lemma example_queues_valid:
  "queue_validate ordersQueue = None" "queue_validate scheduledQueue = None"
  by (simp_all add: queue_validate_None ordersQueue_def scheduledQueue_def zero_queue_def
      Quorum_def second_def millisecond_def)

lemma calm_declares:
  assumes "\<And>q. q \<in> set qs \<Longrightarrow> queue_validate q = None"
  shows "fst (declare_loop calm_lib ch c qs h) = None"
  using assms
proof (induction qs arbitrary: h)
  case (Cons q qs)
  have "\<exists>h1. declare_one calm_lib ch c q h = (None, h1)"
    using Cons.prems
    by (auto simp: declare_one_unfold declare_dlq_def declare_delay_def wrapped_def wrap_err_def
        env_defs Let_def)
  with Cons show ?case by auto
qed simp

lemma calm_DeclareQueues:
  assumes "\<And>q. q \<in> set qs \<Longrightarrow> queue_validate q = None" "c \<noteq> CtxNil"
  shows "\<exists>s' h'. DeclareQueues calm_lib c qs s h = (None, s', h')"
proof -
  have "fst (declare_loop calm_lib (channel s) c qs (h @ [EvCtxErr c None])) = None"
    by (rule calm_declares [OF assms(1)])
  with assms(2) show ?thesis
    by (auto simp: DeclareQueues_def declareQueuesLocked_def validateContext_def ctx_err_def
        Let_def split: prod.splits option.splits)
qed

lemma example_declared:
  "\<exists>s' h'. DeclareQueues calm_lib (CtxOf 0) [ordersQueue, scheduledQueue] sample_sdk [] = (None, s', h')"
  by (rule calm_DeclareQueues) (use example_queues_valid in auto)

section \<open>Properties\<close>

text \<open>
  C23: \<^verbatim>\<open>DeclareQueues\<close> performs exactly the declarations of the topology, queue by queue and in
  order. On success all of them, and the queues are remembered for replay after a reconnect;
  on an error only an initial part, and the SDK is unchanged, so a failed batch is not
  replayed.
\<close>

theorem declare_queues_refines_topology:
  "case DeclareQueues L c qs s h of
     (None, s', h') \<Rightarrow>
       decls (channel s) h' = decls (channel s) h @ concat (map topology qs)
       \<and> s' = s\<lparr>declaredQueues := declaredQueues s @ qs\<rparr>
   | (Some e, s', h') \<Rightarrow>
       s' = s \<and> (\<exists>done rest. decls (channel s) h' = decls (channel s) h @ done
                     \<and> concat (map topology qs) = done @ rest)"
proof (cases "fst (validateContext L c h)")
  case (Some e)
  then have "decls (channel s) (snd (validateContext L c h)) = decls (channel s) h"
    by (auto simp: validateContext_def ctx_err_def Let_def)
  then show ?thesis
    using Some by (auto simp: DeclareQueues_def split: prod.splits)
next
  case None
  define h1 where "h1 = snd (validateContext L c h)"
  have h1: "decls (channel s) h1 = decls (channel s) h"
    by (auto simp: h1_def validateContext_def ctx_err_def Let_def)
  obtain es rest where es: "decls (channel s) (snd (declare_loop L (channel s) c qs h1)) = decls (channel s) h1 @ es"
    "concat (map topology qs) = es @ rest"
    "fst (declare_loop L (channel s) c qs h1) = None \<longrightarrow> es = concat (map topology qs)"
    using declares_loop [of "channel s" qs L c] unfolding declares_def by blast
  have "DeclareQueues L c qs s h = declareQueuesLocked L c qs True s h1"
    using None by (auto simp: DeclareQueues_def h1_def split: prod.splits)
  with es h1 show ?thesis
    by (auto simp: declareQueuesLocked_def split: prod.splits option.splits)
qed

text \<open>
  C24: after a successful \<^verbatim>\<open>DeclareQueues\<close>, what RabbitMQ dead-letters from a queue with
  \<^verbatim>\<open>EnableDLQ\<close> is routed to its dead-letter queue: the queue was declared with a dead-letter
  exchange and key, that exchange was declared as a direct exchange, and the queue
  \<^verbatim>\<open><queue>.DLQ\<close> was declared and bound to it under that same key.
\<close>

theorem dlq_is_wired:
  assumes "DeclareQueues L c qs s h = (None, s', h')" "q \<in> set qs" "EnableDLQ q"
  shows "\<exists>x k args. DeclQueue (Name q) (Durable q) (AutoDelete q) (Exclusive q) (NoWait q) args \<in> set (decls (channel s) h')
     \<and> table_get args ''x-dead-letter-exchange'' = Some (FStr x)
     \<and> table_get args ''x-dead-letter-routing-key'' = Some (FStr k)
     \<and> DeclExchange x ''direct'' True False False False None \<in> set (decls (channel s) h')
     \<and> DeclQueue (Name q @ ''.DLQ'') True False False False None \<in> set (decls (channel s) h')
     \<and> DeclBind (Name q @ ''.DLQ'') k x False None \<in> set (decls (channel s) h')"
proof (intro exI conjI)
  have sub: "set (topology q) \<subseteq> set (decls (channel s) h')"
    using DeclareQueues_None [OF assms(1,2)] by simp
  note wired = topology_dlq [OF assms(3)]
  show "DeclQueue (Name q) (Durable q) (AutoDelete q) (Exclusive q) (NoWait q) (queue_args q) \<in> set (decls (channel s) h')"
    using sub wired by auto
  show "table_get (queue_args q) ''x-dead-letter-exchange'' = Some (FStr (dlxName q))"
    "table_get (queue_args q) ''x-dead-letter-routing-key'' = Some (FStr (dlqName q))"
    using queue_args_dlq [OF assms(3)] by simp_all
  show "DeclExchange (dlxName q) ''direct'' True False False False None \<in> set (decls (channel s) h')"
    using sub wired by auto
  show "DeclQueue (Name q @ ''.DLQ'') True False False False None \<in> set (decls (channel s) h')"
    using sub wired by (auto simp: dlqName_def)
  show "DeclBind (Name q @ ''.DLQ'') (dlqName q) (dlxName q) False None \<in> set (decls (channel s) h')"
    using sub wired by (auto simp: dlqName_def)
qed

theorem dlq_is_wired_witness:
  "\<exists>s' h' x args. DeclareQueues calm_lib (CtxOf 0) [ordersQueue, scheduledQueue] sample_sdk [] = (None, s', h')
     \<and> table_get args ''x-dead-letter-exchange'' = Some (FStr x)
     \<and> DeclQueue ''huma.orders'' True False False False args \<in> set (decls 2 h')
     \<and> DeclExchange x ''direct'' True False False False None \<in> set (decls 2 h')"
proof -
  obtain s' h' where d: "DeclareQueues calm_lib (CtxOf 0) [ordersQueue, scheduledQueue] sample_sdk [] = (None, s', h')"
    using example_declared by blast
  have "EnableDLQ ordersQueue" by (simp add: ordersQueue_def)
  from dlq_is_wired [OF d _ this] d show ?thesis
    by (auto simp: ordersQueue_def zero_queue_def sample_sdk_def)
qed

text \<open>
  C25: after a successful \<^verbatim>\<open>DeclareQueues\<close>, a message left in the delay queue of a queue \<open>q\<close> comes
  back to \<open>q\<close> after the configured time: \<^verbatim>\<open><queue>.delay\<close> was declared with exactly the
  configured whole milliseconds as time to live (the conversion to 32 bits loses nothing) and
  dead-letters to the exchange and key under which \<open>q\<close> itself is bound.
\<close>

theorem delay_queue_is_wired:
  assumes "DeclareQueues L c qs s h = (None, s', h')" "q \<in> set qs" "IsDelayQueue q"
  shows "\<exists>k args. DeclQueue (getDelayQueueName (Name q)) True False False False args \<in> set (decls (channel s) h')
     \<and> table_get args ''x-message-ttl'' = Some (FInt32 (DLXTTL q div millisecond))
     \<and> table_get args ''x-dead-letter-exchange'' = Some (FStr (Exchange q))
     \<and> table_get args ''x-dead-letter-routing-key'' = Some (FStr k)
     \<and> DeclExchange (Exchange q) ''direct'' True False False False None \<in> set (decls (channel s) h')
     \<and> DeclBind (Name q) k (Exchange q) False None \<in> set (decls (channel s) h')"
proof (intro exI conjI)
  have sub: "set (topology q) \<subseteq> set (decls (channel s) h')" and v: "queue_validate q = None"
    using DeclareQueues_None [OF assms(1,2)] by simp_all
  have "0 < DLXTTL q" "DLXTTL q < 2147483648 * millisecond"
    using v assms(3) by (auto simp: queue_validate_None)
  then have ttl: "wrap32 (milliseconds (DLXTTL q)) = DLXTTL q div millisecond"
    by (auto simp: milliseconds_pos millisecond_def in_int32_def intro!: wrap32_id)
  note wired = topology_delay [OF assms(3)]
  show "DeclQueue (getDelayQueueName (Name q)) True False False False (delay_args (with_routing q)) \<in> set (decls (channel s) h')"
    using sub wired by auto
  show "table_get (delay_args (with_routing q)) ''x-message-ttl'' = Some (FInt32 (DLXTTL q div millisecond))"
    "table_get (delay_args (with_routing q)) ''x-dead-letter-exchange'' = Some (FStr (Exchange q))"
    "table_get (delay_args (with_routing q)) ''x-dead-letter-routing-key'' = Some (FStr (routing_key q))"
    using delay_args_get [of "with_routing q"] ttl by (simp_all add: with_routing_def)
  show "DeclExchange (Exchange q) ''direct'' True False False False None \<in> set (decls (channel s) h')"
    using sub wired by auto
  show "DeclBind (Name q) (routing_key q) (Exchange q) False None \<in> set (decls (channel s) h')"
    using sub wired by auto
qed

theorem delay_queue_is_wired_witness:
  "\<exists>s' h' args. DeclareQueues calm_lib (CtxOf 0) [ordersQueue, scheduledQueue] sample_sdk [] = (None, s', h')
     \<and> table_get args ''x-message-ttl'' = Some (FInt32 10000)
     \<and> DeclQueue ''huma.scheduled.delay'' True False False False args \<in> set (decls 2 h')"
proof -
  obtain s' h' where d: "DeclareQueues calm_lib (CtxOf 0) [ordersQueue, scheduledQueue] sample_sdk [] = (None, s', h')"
    using example_declared by blast
  have "IsDelayQueue scheduledQueue" by (simp add: scheduledQueue_def)
  from delay_queue_is_wired [OF d _ this] d show ?thesis
    by (auto simp: scheduledQueue_def zero_queue_def sample_sdk_def getDelayQueueName_def
        second_def millisecond_def)
qed

text \<open>
  C40: the validation message promises a delay of at least one millisecond, but any positive
  duration is accepted: take a delay queue that validation accepts and shorten its delay to any positive
  duration \<open>t\<close> below a millisecond; it is still accepted, and the delay queue is declared with a time
  to live of zero, that is, with no delay at all.
\<close>

theorem sub_millisecond_delay_accepted:
  assumes "queue_validate q = None" "IsDelayQueue q" "0 < t" "t < millisecond"
  shows "queue_validate (q\<lparr>DLXTTL := t\<rparr>) = None
     \<and> table_get (delay_args (with_routing (q\<lparr>DLXTTL := t\<rparr>))) ''x-message-ttl'' = Some (FInt32 0)"
  using assms delay_args_get [of "with_routing (q\<lparr>DLXTTL := t\<rparr>)"]
  by (auto simp: queue_validate_None milliseconds_pos millisecond_def with_routing_def wrap32_def)

theorem sub_millisecond_delay_accepted_witness:
  "queue_validate scheduledQueue = None \<and> queue_validate (scheduledQueue\<lparr>DLXTTL := 500000\<rparr>) = None
     \<and> table_get (delay_args (with_routing (scheduledQueue\<lparr>DLXTTL := 500000\<rparr>))) ''x-message-ttl'' = Some (FInt32 0)"
  using sub_millisecond_delay_accepted [OF example_queues_valid(2), of 500000] example_queues_valid(2)
  by (simp add: scheduledQueue_def millisecond_def)

end
