(* ===== verification/Publish.thy ===== *)
theory Publish
  imports Sdk_State Messages Trace_Carrier
begin

text \<open>
  Publishing (\<^verbatim>\<open>publishAMQP\<close>, \<^verbatim>\<open>Publish\<close>, \<^verbatim>\<open>BatchPublish\<close> and \<^verbatim>\<open>PublishWithDelayDLXTTL\<close> of
  \<^verbatim>\<open>rabbitmqsdk.go\<close>). Messages are passed by pointer and changed in place (defaults, trace
  headers), so they live in a heap \<open>M\<close> that every operation returns. The lemmas show that a
  publish sends at most one message, reports success exactly when the broker confirmed it,
  and always gives its channel back to the pool.
\<close>

section \<open>publishAMQP\<close>

text \<open>
  What happens while a channel is borrowed. The goroutine issues the publish; the \<^verbatim>\<open>select\<close>
  then takes its result or, when the context is done, may give up on it, which interrupts the
  connection. The event of the publish stands where it is issued.
\<close>

definition publish_on ::
  "lib \<Rightarrow> pool \<Rightarrow> chan_ref \<Rightarrow> ctx \<Rightarrow> string \<Rightarrow> string \<Rightarrow> publishing \<Rightarrow> hist \<Rightarrow> err option \<times> hist" where
  "publish_on L p ch c exchange routingKey publishing h =
     (case validateContext L c h of
        (Some e, h1) \<Rightarrow> (Some e, h1)
      | (None, h1) \<Rightarrow>
          (case ch_publish L ch exchange routingKey False False publishing h1 of (result, h2) \<Rightarrow>
             (case select_done L c h2 of
                (Some e, h3) \<Rightarrow>
                  (case pool_interrupt L p h3 of (interruptErr, h4) \<Rightarrow>
                     (Some (ErrWrap ''publish message'' e), h4))
              | (None, h3) \<Rightarrow>
                  (case result of
                     Inl e \<Rightarrow> (Some (ErrWrap ''publish message'' e), h3)
                   | Inr confirmation \<Rightarrow>
                       (case confirm_wait L confirmation c h3 of (waited, h4) \<Rightarrow>
                          (case waited of
                             Inl e \<Rightarrow> (Some (ErrWrap ''wait for publisher confirmation'' e), h4)
                           | Inr acked \<Rightarrow>
                               if \<not> acked
                               then (Some (ErrNew ''RabbitMQ negatively acknowledged the published message''), h4)
                               else (None, h4)))))))"

text \<open>The deferred \<^verbatim>\<open>put\<close> runs however the rest ends; its error is only logged.\<close>

definition publishAMQP ::
  "lib \<Rightarrow> ctx \<Rightarrow> string \<Rightarrow> string \<Rightarrow> publishing \<Rightarrow> SDK \<Rightarrow> hist \<Rightarrow> (err option \<times> SDK) outcome \<times> hist" where
  "publishAMQP L c exchange routingKey publishing s h =
     (case validateContext L c h of
        (Some e, h1) \<Rightarrow> (Returns (Some e, s), h1)
      | (None, h1) \<Rightarrow>
          (case publisherPool s of
             None \<Rightarrow> (Returns (Some (ErrNew ''publisher pool is unavailable''), s), h1)
           | Some p \<Rightarrow>
               (case get L (WithTimeout c (publisherPoolWait s)) p h1 of (r, p1, h2) \<Rightarrow>
                  (case r of
                     Inl e \<Rightarrow>
                       (Returns (Some (ErrWrap ''get publisher channel'' e), s\<lparr>publisherPool := Some p1\<rparr>), h2)
                   | Inr ch \<Rightarrow>
                       (case publish_on L p1 ch c exchange routingKey publishing h2 of (e, h3) \<Rightarrow>
                          obind (put L (Some ch) p1 h3)
                            (\<lambda>(putErr, p2) h4. (Returns (e, s\<lparr>publisherPool := Some p2\<rparr>), h4)))))))"

section \<open>Publish, BatchPublish, PublishWithDelayDLXTTL\<close>

type_synonym msg_heap = "nat \<Rightarrow> Message"

definition the_publishing :: "table option \<Rightarrow> Message \<Rightarrow> publishing" where
  "the_publishing headers m = zero_publishing
     \<lparr>p_Headers := headers, p_ContentType := m_ContentType m, p_Body := m_Body m,
      p_Expiration := formatDurationToExpiration (m_Expiration m), p_Priority := m_Priority m,
      p_MessageId := m_MessageID m, p_Timestamp := m_Timestamp m\<rparr>"

text \<open>The headers after the propagator has injected the trace context, if it does.\<close>

definition trace_headers :: "lib \<Rightarrow> SDK \<Rightarrow> ctx \<Rightarrow> table option \<Rightarrow> hist \<Rightarrow> table option outcome \<times> hist" where
  "trace_headers L s c headers h =
     (if enableTracing s \<and> spanValid L h c
      then (inject_all carrier_Set (otelInject L c) headers, h)
      else (Returns headers, h))"

definition final_headers :: "SDK \<Rightarrow> ctx \<Rightarrow> table option \<Rightarrow> table option" where
  "final_headers s c headers =
     (let hs = (case injectHeaders s of None \<Rightarrow> headers | Some f \<Rightarrow> f c headers)
      in if hs = None then Some [] else hs)"

definition Publish ::
  "lib \<Rightarrow> ctx \<Rightarrow> string \<Rightarrow> string \<Rightarrow> nat option \<Rightarrow> msg_heap \<Rightarrow> SDK \<Rightarrow> hist
     \<Rightarrow> (err option \<times> msg_heap \<times> SDK) outcome \<times> hist" where
  "Publish L c exchange routingKey msg M s h =
     (case validateContext L c h of
        (Some e, h1) \<Rightarrow> (Returns (Some e, M, s), h1)
      | (None, h1) \<Rightarrow>
          (case msg_validate L (map_option M msg) h1 of (v, h2) \<Rightarrow>
             (case v of
                Inl e \<Rightarrow> (Returns (Some e, M, s), h2)
              | Inr m \<Rightarrow>
                  obind (trace_headers L s c (m_Headers m) h2) (\<lambda>hs h3.
                    let m1 = m\<lparr>m_Headers := hs\<rparr>;
                        M1 = (case msg of None \<Rightarrow> M | Some a \<Rightarrow> M(a := m1));
                        label = chooseQueueNameLabel exchange routingKey
                    in obind (publishAMQP L c exchange routingKey (the_publishing (final_headers s c hs) m1) s h3)
                         (\<lambda>(e, s1) h4.
                            case e of
                              Some x \<Rightarrow>
                                (Returns (Some (ErrWrap ''failed to publish msg on rabbitmq'' x), M1, s1),
                                 IncPublishFailed (sdk_metrics s) c label h4)
                            | None \<Rightarrow>
                                (Returns (None, M1, s1), IncPublishSuccess (sdk_metrics s) c label h4))))))"

fun batch_loop ::
  "lib \<Rightarrow> ctx \<Rightarrow> string \<Rightarrow> string \<Rightarrow> nat option list \<Rightarrow> msg_heap \<Rightarrow> SDK \<Rightarrow> hist
     \<Rightarrow> (err option \<times> msg_heap \<times> SDK) outcome \<times> hist" where
  "batch_loop L c exchange routingKey [] M s h = (Returns (None, M, s), h)"
| "batch_loop L c exchange routingKey (msg # msgs) M s h =
     obind (Publish L c exchange routingKey msg M s h)
       (\<lambda>(e, M1, s1) h1.
          case e of
            Some x \<Rightarrow> (Returns (Some x, M1, s1), h1)
          | None \<Rightarrow> batch_loop L c exchange routingKey msgs M1 s1 h1)"

definition BatchPublish ::
  "lib \<Rightarrow> ctx \<Rightarrow> string \<Rightarrow> string \<Rightarrow> nat option list \<Rightarrow> msg_heap \<Rightarrow> SDK \<Rightarrow> hist
     \<Rightarrow> (err option \<times> msg_heap \<times> SDK) outcome \<times> hist" where
  "BatchPublish L c exchange routingKey messages M s h =
     (case validateContext L c h of
        (Some e, h1) \<Rightarrow> (Returns (Some e, M, s), h1)
      | (None, h1) \<Rightarrow> batch_loop L c exchange routingKey messages M s h1)"

definition PublishWithDelayDLXTTL ::
  "lib \<Rightarrow> ctx \<Rightarrow> string \<Rightarrow> nat option \<Rightarrow> msg_heap \<Rightarrow> SDK \<Rightarrow> hist
     \<Rightarrow> (err option \<times> msg_heap \<times> SDK) outcome \<times> hist" where
  "PublishWithDelayDLXTTL L c queueName msg M s h =
     (case validateContext L c h of
        (Some e, h1) \<Rightarrow> (Returns (Some e, M, s), h1)
      | (None, h1) \<Rightarrow>
          (case msg_validate L (map_option M msg) h1 of (v, h2) \<Rightarrow>
             (case v of
                Inl e \<Rightarrow> (Returns (Some e, M, s), h2)
              | Inr m \<Rightarrow>
                  Publish L c [] (getDelayQueueName queueName) msg
                    (case msg of None \<Rightarrow> M | Some a \<Rightarrow> M(a := m)) s h2)))"

section \<open>What was sent and what was confirmed\<close>

text \<open>The messages a history handed to the broker, and the positive confirmations received.\<close>

fun sent_of :: "event \<Rightarrow> (string \<times> string \<times> publishing) list" where
  "sent_of (EvPublish _ x k _ _ pub _) = [(x, k, pub)]"
| "sent_of _ = []"

definition sent :: "hist \<Rightarrow> (string \<times> string \<times> publishing) list" where
  "sent h = concat (map sent_of h)"

fun confirmed_of :: "event \<Rightarrow> nat list" where
  "confirmed_of (EvConfirmWait k _ (Inr True)) = [k]"
| "confirmed_of _ = []"

definition confirmed :: "hist \<Rightarrow> nat list" where
  "confirmed h = concat (map confirmed_of h)"

text \<open>The pool, when there is one, satisfies its invariant with \<open>n\<close> channels borrowed.\<close>

definition sdk_pool_ok :: "nat \<Rightarrow> SDK \<Rightarrow> bool" where
  "sdk_pool_ok n s \<longleftrightarrow> (case publisherPool s of None \<Rightarrow> True | Some p \<Rightarrow> pool_ok n p)"

lemma sent_simps [simp]:
  "sent [] = []" "sent (e # es) = sent_of e @ sent es" "sent (h @ es) = sent h @ sent es"
  by (simp_all add: sent_def)

lemma confirmed_simps [simp]:
  "confirmed [] = []" "confirmed (e # es) = confirmed_of e @ confirmed es"
  "confirmed (h @ es) = confirmed h @ confirmed es"
  by (simp_all add: confirmed_def)

text \<open>Events that neither send nor confirm.\<close>

fun silent :: "event \<Rightarrow> bool" where
  "silent (EvPublish _ _ _ _ _ _ _) = False"
| "silent (EvConfirmWait _ _ _) = False"
| "silent _ = True"

lemma silent_nothing: "silent e \<Longrightarrow> sent_of e = [] \<and> confirmed_of e = []"
  by (cases e) auto

lemma pool_event_silent: "pool_event e \<Longrightarrow> silent e"
  by (cases e) auto

lemma metric_silent: "is_metric e \<Longrightarrow> silent e"
  by (cases e) auto

lemma grows_silent:
  assumes "grows silent h h'"
  shows "sent h' = sent h" "confirmed h' = confirmed h"
  using grows_concat_map [OF assms, of sent_of] grows_concat_map [OF assms, of confirmed_of]
  by (simp_all add: sent_def confirmed_def silent_nothing)

lemma grows_pool_silent: "grows pool_event h h' \<Longrightarrow> grows silent h h'"
  by (erule grows_mono) (rule pool_event_silent)

lemma metric_only_silent: "metric_only f \<Longrightarrow> grows silent h (f h)"
  unfolding metric_only_def grows_def by (metis list.pred_mono_strong metric_silent)

section \<open>The outcome of one publish\<close>

text \<open>
  What one attempt to publish did to the history: on success the message was sent once and
  its own confirmation is positive, on an error nothing was confirmed and the message was sent
  at most once.
\<close>

definition publish_result :: "string \<Rightarrow> string \<Rightarrow> publishing \<Rightarrow> err option \<Rightarrow> hist \<Rightarrow> hist \<Rightarrow> bool" where
  "publish_result x k pub e h h' \<longleftrightarrow> (\<exists>es. h' = h @ es \<and>
     (if e = None
      then sent es = [(x, k, pub)] \<and> (\<exists>ch conf. confirmed es = [conf] \<and>
             EvPublish ch x k False False pub (Inr conf) \<in> set es)
      else confirmed es = [] \<and> (sent es = [] \<or> sent es = [(x, k, pub)])))"

definition publish_event :: "event \<Rightarrow> bool" where
  "publish_event e \<longleftrightarrow> pool_event e \<or> \<not> silent e"

lemma silent_before:
  assumes "grows silent h h1" "publish_result x k pub e h1 h2"
  shows "publish_result x k pub e h h2"
proof -
  obtain es es' where "h1 = h @ es" "h2 = h1 @ es'" "sent es = []" "confirmed es = []"
    using assms grows_silent [OF assms(1)] by (auto simp: grows_def publish_result_def)
  with assms(2) show ?thesis
    by (auto simp: publish_result_def intro!: exI [of _ "es @ es'"] split: if_splits)
qed

lemma silent_after:
  assumes "publish_result x k pub e h h1" "grows silent h1 h2"
  shows "publish_result x k pub e h h2"
proof -
  obtain es es' where "h1 = h @ es" "h2 = h1 @ es'" "sent es' = []" "confirmed es' = []"
    using assms grows_silent [OF assms(2)] by (auto simp: grows_def publish_result_def)
  with assms(1) show ?thesis
    by (auto simp: publish_result_def intro!: exI [of _ "es @ es'"] split: if_splits)
qed

lemma silent_list: "list_all silent es \<Longrightarrow> sent es = [] \<and> confirmed es = []"
  by (auto simp: sent_def confirmed_def list_all_iff silent_nothing)

lemma publish_result_silent: "grows silent h h' \<Longrightarrow> publish_result x k pub (Some e) h h'"
  by (auto simp: publish_result_def grows_def silent_list)

text \<open>While a channel is borrowed.\<close>

lemma publish_on_spec:
  assumes "publish_on L p ch c x k pub h = (e, h')"
  shows "publish_result x k pub e h h' \<and> grows publish_event h h'"
proof (cases "fst (validateContext L c h)")
  case (Some e1)
  with assms have "h' = snd (validateContext L c h)" "e = Some e1"
    by (auto simp: publish_on_def split: prod.splits)
  then show ?thesis
    using validateContext_grows [of h L c]
    by (auto simp: publish_result_silent grows_pool_silent publish_event_def intro: grows_mono)
next
  case None
  define h1 where "h1 = snd (validateContext L c h)"
  have v: "validateContext L c h = (None, h1)" using None by (simp add: h1_def prod_eq_iff)
  have g1: "grows pool_event h h1" unfolding h1_def by (rule validateContext_grows)
  define r where "r = chPublish L h1 ch pub"
  define h2 where "h2 = h1 @ [EvPublish ch x k False False pub r]"
  have *: "publish_result x k pub e h1 h' \<and> grows publish_event h1 h'"
  proof (cases "fst (select_done L c h2)")
    case (Some d)
    have "h' = snd (pool_interrupt L p (h2 @ [EvSelectDone c (Some d)]))" "e \<noteq> None"
      using assms v Some
      by (auto simp: publish_on_def ch_publish_def select_done_def h2_def r_def Let_def split: prod.splits)
    then obtain es where "h' = h1 @ EvPublish ch x k False False pub r # EvSelectDone c (Some d) # es"
      "list_all pool_event es" "e \<noteq> None"
      using pool_interrupt_grows [of "h2 @ [EvSelectDone c (Some d)]" L p] by (auto simp: grows_def h2_def)
    moreover from this(2) have "sent es = []" "confirmed es = []"
      by (auto simp: sent_def confirmed_def list_all_iff silent_nothing [OF pool_event_silent])
    ultimately show ?thesis
      by (auto simp: publish_result_def grows_def publish_event_def list_all_iff)
  next
    case None
    then have d: "select_done L c h2 = (None, h2 @ [EvSelectDone c None])"
      by (simp add: select_done_def Let_def)
    have pub: "ch_publish L ch x k False False pub h1 = (r, h2)"
      by (simp add: ch_publish_def r_def h2_def Let_def)
    show ?thesis
    proof (cases r)
      case (Inl e1)
      with assms v d pub have "h' = h2 @ [EvSelectDone c None]" "e \<noteq> None" by (auto simp: publish_on_def)
      then show ?thesis by (auto simp: h2_def publish_result_def grows_def publish_event_def)
    next
      case (Inr conf)
      define w where "w = confirmWait L (h2 @ [EvSelectDone c None]) conf"
      have "h' = h2 @ [EvSelectDone c None, EvConfirmWait conf c w]" "e = None \<longleftrightarrow> w = Inr True"
        using assms v d pub Inr
        by (auto simp: publish_on_def confirm_wait_def Let_def w_def [symmetric] split: sum.splits if_splits)
      then show ?thesis
        using Inr by (cases w) (auto simp: h2_def publish_result_def grows_def publish_event_def)
    qed
  qed
  have "grows publish_event h h1"
    using g1 by (rule grows_mono) (simp add: publish_event_def)
  with * show ?thesis
    using silent_before [OF grows_pool_silent [OF g1]] grows_trans by blast
qed

lemma grows_pool_publish: "grows pool_event h h' \<Longrightarrow> grows publish_event h h'"
  by (erule grows_mono) (simp add: publish_event_def)

lemma publishAMQP_spec:
  assumes "sdk_pool_ok n s"
  shows "\<exists>e s' h'. publishAMQP L c x k pub s h = (Returns (e, s'), h') \<and> sdk_pool_ok n s'
     \<and> s'\<lparr>publisherPool := publisherPool s\<rparr> = s \<and> publish_result x k pub e h h' \<and> grows publish_event h h'"
proof -
  obtain v h1 where v: "validateContext L c h = (v, h1)" by fastforce
  have g1: "grows pool_event h h1" using validateContext_grows [of h L c] v by simp
  show ?thesis
  proof (cases "v = None \<and> publisherPool s \<noteq> None")
    case False
    then show ?thesis
      using v assms g1
      by (cases v) (auto simp: publishAMQP_def publish_result_silent grows_pool_silent grows_pool_publish)
  next
    case True
    then obtain p where p: "publisherPool s = Some p" by auto
    have ok: "pool_ok n p" using assms p by (simp add: sdk_pool_ok_def)
    obtain r p1 h2 where g: "get L (WithTimeout c (publisherPoolWait s)) p h1 = (r, p1, h2)"
      by (metis prod_cases3)
    have g2: "grows pool_event h h2" using grows_trans [OF g1 get_grows [OF g]] .
    show ?thesis
    proof (cases r)
      case (Inl e)
      with g ok have "pool_ok n p1" by (blast intro: publisher_pool.acquire_failed)
      with Inl g v True p g2 show ?thesis
        by (auto simp: publishAMQP_def publish_result_silent grows_pool_silent grows_pool_publish sdk_pool_ok_def)
    next
      case (Inr ch)
      obtain e h3 where on: "publish_on L p1 ch c x k pub h2 = (e, h3)" by fastforce
      obtain pe p2 h4 where put: "put L (Some ch) p1 h3 = (Returns (pe, p2), h4)" "pool_ok n p2"
        using publisher_pool.borrow [OF ok] g Inr by blast
      have "publish_result x k pub e h h4"
        using publish_on_spec [OF on] silent_before [OF grows_pool_silent [OF g2]]
          silent_after [OF _ grows_pool_silent [OF put_grows [OF put(1)]]] by blast
      moreover have "grows publish_event h h4"
        using grows_pool_publish [OF g2] publish_on_spec [OF on] grows_pool_publish [OF put_grows [OF put(1)]]
        by (blast intro: grows_trans)
      ultimately show ?thesis
        using v True p g Inr on put by (auto simp: publishAMQP_def sdk_pool_ok_def)
    qed
  qed
qed

section \<open>The outcome of Publish and BatchPublish\<close>

text \<open>
  The publishing carries what the caller put into the message. The content type and the
  timestamp are the caller's unless they were not set. The headers are the caller's, entry by
  entry, except for the fields the propagator injects when tracing is on; they go through the
  user's hook if there is one, and are never nil.
\<close>

definition traced :: "lib \<Rightarrow> SDK \<Rightarrow> ctx \<Rightarrow> table option \<Rightarrow> table \<Rightarrow> bool" where
  "traced L s c hs t \<longleftrightarrow> (\<forall>key. table_get (Some t) key = table_get hs key
     \<or> enableTracing s \<and> (\<exists>v. map_of (rev (otelInject L c)) key = Some v \<and> table_get (Some t) key = Some (FStr v)))"

definition carries :: "lib \<Rightarrow> SDK \<Rightarrow> ctx \<Rightarrow> Message \<Rightarrow> publishing \<Rightarrow> bool" where
  "carries L s c m pub \<longleftrightarrow> p_Body pub = m_Body m \<and> p_Priority pub = m_Priority m
     \<and> p_MessageId pub = m_MessageID m \<and> p_Expiration pub = formatDurationToExpiration (m_Expiration m)
     \<and> p_ContentType pub = (if m_ContentType m = [] then ''text/plain'' else m_ContentType m)
     \<and> (if m_Timestamp m = zero_time then \<exists>g. p_Timestamp pub = timeNow L g else p_Timestamp pub = m_Timestamp m)
     \<and> (\<exists>t. traced L s c (m_Headers m) t
          \<and> p_Headers pub = (case injectHeaders s of
               None \<Rightarrow> Some t
             | Some f \<Rightarrow> (case f c (Some t) of None \<Rightarrow> Some [] | Some t' \<Rightarrow> Some t')))"

lemma inject_all_get:
  "inject_all carrier_Set kvs (Some t) = Returns (Some t') \<Longrightarrow>
     table_get (Some t') key = (case map_of (rev kvs) key of None \<Rightarrow> table_get (Some t) key | Some v \<Rightarrow> Some (FStr v))"
proof (induction kvs arbitrary: t)
  case (Cons kv kvs)
  then show ?case
    by (cases kv) (auto simp: carrier_Set_returns table_get_def update_conv' map_add_def split: option.splits if_splits)
qed simp

lemma final_headers_hook:
  "final_headers s c (Some t) = (case injectHeaders s of
     None \<Rightarrow> Some t | Some f \<Rightarrow> (case f c (Some t) of None \<Rightarrow> Some [] | Some t' \<Rightarrow> Some t'))"
  by (simp add: final_headers_def Let_def split: option.splits)

lemma trace_headers_traced:
  assumes "trace_headers L s c (Some t0) h = (Returns (Some t), h')"
  shows "traced L s c (Some t0) t"
proof (cases "enableTracing s \<and> spanValid L h c")
  case True
  with assms have i: "inject_all carrier_Set (otelInject L c) (Some t0) = Returns (Some t)" by (simp add: trace_headers_def)
  show ?thesis unfolding traced_def inject_all_get [OF i] using True by (auto split: option.splits)
qed (use assms in \<open>auto simp: trace_headers_def traced_def\<close>)

lemma inject_headers_returns: "\<exists>t'. inject_all carrier_Set kvs (Some t) = Returns (Some t')"
proof (induction kvs arbitrary: t)
  case (Cons kv kvs)
  then show ?case by (cases kv) (simp add: carrier_Set_returns)
qed simp

lemma trace_headers_returns:
  "hs \<noteq> None \<Longrightarrow> \<exists>t'. trace_headers L s c hs h = (Returns (Some t'), h)"
  using inject_headers_returns by (auto simp: trace_headers_def)

text \<open>No header hook: the headers are the caller's, after the trace headers were set.\<close>

lemma final_headers_Some: "final_headers s c hs \<noteq> None"
  by (simp add: final_headers_def Let_def)

lemma msg_validate_grows: "grows silent h (snd (msg_validate L mp h))"
  by (auto simp: msg_validate_def now_def Let_def split: option.splits)

text \<open>
  One publish: it returns, the pool keeps its invariant, nothing else of the SDK changes, and
  bodies of messages are untouched.
\<close>

definition published_one ::
  "lib \<Rightarrow> SDK \<Rightarrow> ctx \<Rightarrow> string \<Rightarrow> string \<Rightarrow> nat option \<Rightarrow> msg_heap \<Rightarrow> err option \<Rightarrow> hist \<Rightarrow> hist \<Rightarrow> bool" where
  "published_one L s c x k msg M e h h' \<longleftrightarrow>
     (\<exists>pub. publish_result x k pub e h h' \<and> (\<forall>a. msg = Some a \<longrightarrow> carries L s c (M a) pub))
     \<and> (msg = None \<longrightarrow> e \<noteq> None \<and> sent h' = sent h)"

text \<open>Validating the message and adding the trace headers, before anything is sent.\<close>

lemma Publish_prepare:
  assumes ok: "sdk_pool_ok n s" and v: "validateContext L c h = (None, h1)"
    and m: "msg_validate L (Some (M a)) h1 = (Inr m, h2)"
  shows "\<exists>e M' s' h'. Publish L c x k (Some a) M s h = (Returns (e, M', s'), h') \<and> sdk_pool_ok n s'
     \<and> s'\<lparr>publisherPool := publisherPool s\<rparr> = s \<and> (\<forall>b. m_Body (M' b) = m_Body (M b))
     \<and> published_one L s c x k (Some a) M e h h'"
proof -
  have g: "grows silent h h2"
    using validateContext_grows [of h L c] msg_validate_grows [of h1 L "Some (M a)"] v m
    by (auto intro: grows_trans grows_pool_silent)
  have "m_Headers m \<noteq> None" using msg_validate_ready [OF m] by (simp add: msg_ready_def)
  then obtain t where t: "trace_headers L s c (m_Headers m) h2 = (Returns (Some t), h2)"
    using trace_headers_returns by blast
  let ?pub = "the_publishing (final_headers s c (Some t)) (m\<lparr>m_Headers := Some t\<rparr>)"
  let ?M = "M(a := m\<lparr>m_Headers := Some t\<rparr>)"
  obtain e s' h3 where p: "publishAMQP L c x k ?pub s h2 = (Returns (e, s'), h3)" "sdk_pool_ok n s'"
    "s'\<lparr>publisherPool := publisherPool s\<rparr> = s" "publish_result x k ?pub e h2 h3"
    using publishAMQP_spec [OF ok] by blast
  obtain t0 where t0: "m_Headers m = Some t0" "\<And>key. table_get (m_Headers (M a)) key = table_get (Some t0) key"
    using msg_validate_keeps [OF m] \<open>m_Headers m \<noteq> None\<close> by (auto simp: fun_eq_iff)
  have tr: "traced L s c (m_Headers (M a)) t"
    using trace_headers_traced [OF t [unfolded t0(1)]] t0(2) by (simp add: traced_def)
  have set_: "if m_Timestamp (M a) = zero_time then \<exists>g. m_Timestamp m = timeNow L g else m_Timestamp m = m_Timestamp (M a)"
    "m_ContentType m = (if m_ContentType (M a) = [] then ''text/plain'' else m_ContentType (M a))"
    "m_Priority m = m_Priority (M a)" "m_MessageID m = m_MessageID (M a)" "m_Expiration m = m_Expiration (M a)"
    using m by (auto simp: msg_validate_def now_def Let_def split: option.splits if_splits)
  have carr: "carries L s c (M a) ?pub"
    unfolding carries_def using tr set_ msg_validate_keeps [OF m]
    by (intro conjI exI [of _ t]) (simp_all add: the_publishing_def final_headers_hook)
  have body: "m_Body (?M b) = m_Body (M b)" for b
    using msg_validate_keeps [OF m] by simp
  have pr: "publish_result x k ?pub e h h3" by (rule silent_before [OF g p(4)])
  have "\<exists>e' h'. Publish L c x k (Some a) M s h = (Returns (e', ?M, s'), h') \<and> (e' = None \<longleftrightarrow> e = None)
     \<and> grows silent h3 h'"
    using v m t p(1)
    by (cases e) (auto simp: Publish_def Let_def metric_only_silent sink.published sink.failed)
  then obtain e' h' where P: "Publish L c x k (Some a) M s h = (Returns (e', ?M, s'), h')"
    "e' = None \<longleftrightarrow> e = None" "grows silent h3 h'" by blast
  have "publish_result x k ?pub e' h h'"
    using silent_after [OF pr P(3)] P(2) by (auto simp: publish_result_def)
  with P(1) p carr body show ?thesis by (auto simp: published_one_def)
qed

lemma Publish_spec:
  assumes "sdk_pool_ok n s"
  shows "\<exists>e M' s' h'. Publish L c x k msg M s h = (Returns (e, M', s'), h') \<and> sdk_pool_ok n s'
     \<and> s'\<lparr>publisherPool := publisherPool s\<rparr> = s \<and> (\<forall>b. m_Body (M' b) = m_Body (M b))
     \<and> published_one L s c x k msg M e h h'"
proof -
  have skip: "published_one L s c x k msg M (Some e) h h'" if "grows silent h h'" for e h'
  proof -
    let ?m = "M (the msg)"
    let ?t = "case m_Headers ?m of None \<Rightarrow> [] | Some t \<Rightarrow> t"
    let ?pub = "the_publishing (final_headers s c (Some ?t)) (?m
      \<lparr>m_ContentType := if m_ContentType ?m = [] then ''text/plain'' else m_ContentType ?m,
       m_Timestamp := if m_Timestamp ?m = zero_time then timeNow L h else m_Timestamp ?m\<rparr>)"
    have "traced L s c (m_Headers ?m) ?t" by (auto simp: traced_def table_get_def split: option.splits)
    then have "msg = Some a \<Longrightarrow> carries L s c (M a) ?pub" for a
      by (auto simp: carries_def the_publishing_def final_headers_hook)
    then show ?thesis
      unfolding published_one_def using publish_result_silent [OF that] grows_silent(1) [OF that] by blast
  qed
  obtain v h1 where v: "validateContext L c h = (v, h1)" by fastforce
  have g1: "grows silent h h1" using validateContext_grows [of h L c] v by (auto intro: grows_pool_silent)
  obtain r h2 where m: "msg_validate L (map_option M msg) h1 = (r, h2)" by fastforce
  have g2: "grows silent h h2"
    using g1 msg_validate_grows [of h1 L "map_option M msg"] m by (auto intro: grows_trans)
  show ?thesis
  proof (cases "v \<noteq> None \<or> (\<exists>e. r = Inl e)")
    case True
    with v m assms show ?thesis
      using skip [OF g1] skip [OF g2] by (cases v) (auto simp: Publish_def)
  next
    case False
    then obtain m' where r: "r = Inr m'" by (cases r) auto
    with m obtain a where a: "msg = Some a" by (cases msg) (auto simp: msg_validate_def)
    show ?thesis
      using Publish_prepare [OF assms, of L c h h1 M a m' h2 x k] v m a r False by simp
  qed
qed

text \<open>Without a pool nothing is sent.\<close>

lemma publishAMQP_no_pool:
  assumes "publisherPool s = None"
  shows "\<exists>x h'. publishAMQP L c exch k pub s h = (Returns (Some x, s), h') \<and> grows silent h h'"
proof -
  obtain v h1 where v: "validateContext L c h = (v, h1)" by fastforce
  then have "grows silent h h1" using validateContext_grows [of h L c] by (auto intro: grows_pool_silent)
  with v assms show ?thesis by (cases v) (auto simp: publishAMQP_def)
qed

lemma Publish_no_pool:
  assumes "publisherPool s = None"
  shows "\<exists>x M' h'. Publish L c exch k msg M s h = (Returns (Some x, M', s), h') \<and> grows silent h h'"
proof -
  obtain v h1 where v: "validateContext L c h = (v, h1)" by fastforce
  have g1: "grows silent h h1" using validateContext_grows [of h L c] v by (auto intro: grows_pool_silent)
  obtain r h2 where m: "msg_validate L (map_option M msg) h1 = (r, h2)" by fastforce
  have g2: "grows silent h h2"
    using g1 msg_validate_grows [of h1 L "map_option M msg"] m by (auto intro: grows_trans)
  show ?thesis
  proof (cases "v \<noteq> None \<or> (\<exists>e. r = Inl e)")
    case True
    with v m g1 g2 show ?thesis by (cases v) (auto simp: Publish_def)
  next
    case False
    then obtain m' where r: "r = Inr m'" by (cases r) auto
    have "m_Headers m' \<noteq> None" using msg_validate_ready m r by (auto simp: msg_ready_def)
    then obtain t where t: "trace_headers L s c (m_Headers m') h2 = (Returns (Some t), h2)"
      using trace_headers_returns by blast
    let ?pub = "the_publishing (final_headers s c (Some t)) (m'\<lparr>m_Headers := Some t\<rparr>)"
    obtain x h3 where p: "publishAMQP L c exch k ?pub s h2 = (Returns (Some x, s), h3)" "grows silent h2 h3"
      using publishAMQP_no_pool [OF assms] by blast
    have "grows silent h (IncPublishFailed (sdk_metrics s) c (chooseQueueNameLabel exch k) h3)"
      using g2 p(2) metric_only_silent [OF sink.failed] by (blast intro: grows_trans)
    with v m r t p(1) False show ?thesis by (auto simp: Publish_def Let_def)
  qed
qed

text \<open>
  A batch: the messages sent are a prefix of the batch, in order and to the given destination;
  all but possibly the last one sent were confirmed.
\<close>

definition batch_result ::
  "string \<Rightarrow> string \<Rightarrow> nat option list \<Rightarrow> msg_heap \<Rightarrow> err option \<Rightarrow> hist \<Rightarrow> hist \<Rightarrow> bool" where
  "batch_result x k msgs M e h h' \<longleftrightarrow> (\<exists>es. h' = h @ es
     \<and> map (\<lambda>(y, l, pub). (y, l, p_Body pub)) (sent es)
         = map (\<lambda>msg. (x, k, m_Body (M (the msg)))) (take (length (sent es)) msgs)
     \<and> (e = None \<longrightarrow> length (confirmed es) = length msgs)
     \<and> (msgs \<noteq> [] \<longrightarrow> length (confirmed es) = length msgs \<longrightarrow> e = None)
     \<and> length (confirmed es) \<le> length (sent es) \<and> length (sent es) \<le> Suc (length (confirmed es))
     \<and> length (sent es) \<le> length msgs)"

lemma batch_first_fails:
  assumes "published_one L s c x k msg M (Some e) h h'"
  shows "batch_result x k (msg # msgs) M (Some e) h h'"
proof -
  obtain pub es where "h' = h @ es" "confirmed es = []" "sent es = [] \<or> sent es = [(x, k, pub)]"
    "\<forall>a. msg = Some a \<longrightarrow> carries L s c (M a) pub" "msg = None \<longrightarrow> sent es = []"
    using assms by (auto simp: published_one_def publish_result_def)
  then show ?thesis
    by (cases msg) (auto simp: batch_result_def carries_def intro!: exI [of _ es])
qed

lemma batch_next:
  assumes one: "published_one L s c x k msg M None h h1"
    and rest: "batch_result x k msgs M1 e h1 h2"
    and body: "\<And>b. m_Body (M1 b) = m_Body (M b)"
    and empty: "msgs = [] \<Longrightarrow> e = None"
  shows "batch_result x k (msg # msgs) M e h h2"
proof -
  obtain pub es conf where es: "h1 = h @ es" "sent es = [(x, k, pub)]" "confirmed es = [conf]"
    "\<forall>a. msg = Some a \<longrightarrow> carries L s c (M a) pub" "msg \<noteq> None"
    using one by (auto simp: published_one_def publish_result_def)
  obtain es' where es': "h2 = h1 @ es'"
    "map (\<lambda>(y, l, pub). (y, l, p_Body pub)) (sent es')
       = map (\<lambda>msg. (x, k, m_Body (M1 (the msg)))) (take (length (sent es')) msgs)"
    "e = None \<longrightarrow> length (confirmed es') = length msgs" "msgs \<noteq> [] \<longrightarrow> length (confirmed es') = length msgs \<longrightarrow> e = None"
    "length (confirmed es') \<le> length (sent es')" "length (sent es') \<le> Suc (length (confirmed es'))"
    "length (sent es') \<le> length msgs"
    using rest by (auto simp: batch_result_def)
  show ?thesis
    unfolding batch_result_def
    using es es' by (intro exI [of _ "es @ es'"]) (auto simp: carries_def body empty)
qed

lemma batch_loop_spec:
  "sdk_pool_ok n s \<Longrightarrow>
     \<exists>e M' s' h'. batch_loop L c x k msgs M s h = (Returns (e, M', s'), h') \<and> sdk_pool_ok n s'
       \<and> batch_result x k msgs M e h h'"
proof (induction msgs arbitrary: M s h)
  case Nil
  then show ?case by (simp add: batch_result_def)
next
  case (Cons msg msgs)
  obtain e M1 s1 h1 where P: "Publish L c x k msg M s h = (Returns (e, M1, s1), h1)" "sdk_pool_ok n s1"
    "\<forall>b. m_Body (M1 b) = m_Body (M b)" "published_one L s c x k msg M e h h1"
    using Publish_spec [OF Cons.prems] by blast
  show ?case
  proof (cases e)
    case (Some x)
    with P batch_first_fails show ?thesis by fastforce
  next
    case None
    obtain e2 M2 s2 h2 where B: "batch_loop L c x k msgs M1 s1 h1 = (Returns (e2, M2, s2), h2)"
      "sdk_pool_ok n s2" "batch_result x k msgs M1 e2 h1 h2"
      using Cons.IH [OF P(2)] by blast
    moreover have "e2 = None" if "msgs = []" using B(1) that by simp
    ultimately show ?thesis using P None batch_next [of L s c x k msg M h h1 msgs M1 e2 h2] by auto
  qed
qed

lemma BatchPublish_spec:
  assumes "sdk_pool_ok n s"
  shows "\<exists>e M' s' h'. BatchPublish L c x k msgs M s h = (Returns (e, M', s'), h') \<and> sdk_pool_ok n s'
     \<and> batch_result x k msgs M e h h'"
proof -
  obtain v h1 where v: "validateContext L c h = (v, h1)" by fastforce
  have g1: "grows silent h h1" using validateContext_grows [of h L c] v by (auto intro: grows_pool_silent)
  then obtain es where es: "h1 = h @ es" "sent es = []" "confirmed es = []"
    by (auto simp: grows_def silent_list)
  show ?thesis
  proof (cases v)
    case (Some e)
    with v assms es show ?thesis by (auto simp: BatchPublish_def batch_result_def)
  next
    case None
    obtain e M' s' h' where B: "batch_loop L c x k msgs M s h1 = (Returns (e, M', s'), h')"
      "sdk_pool_ok n s'" "batch_result x k msgs M e h1 h'"
      using batch_loop_spec [OF assms] by blast
    obtain es' where "h' = h1 @ es'" using B(3) by (auto simp: batch_result_def)
    with B(3) es have "batch_result x k msgs M e h h'"
      by (simp add: batch_result_def)
    with B v None show ?thesis by (auto simp: BatchPublish_def)
  qed
qed

section \<open>Properties\<close>

text \<open>A message ready to be sent, at every address.\<close>

definition sample_heap :: msg_heap where
  "sample_heap a = \<lparr>m_Body = ''hello'', m_Headers = Some [], m_ContentType = ''text/plain'',
     m_Expiration = 0, m_Priority = 0, m_MessageID = ''m1'', m_Timestamp = 1, m_err = None\<rparr>"

lemma sample_sdk_pool_ok: "sdk_pool_ok 0 sample_sdk"
  using sample_pool_ok by (simp add: sdk_pool_ok_def sample_sdk_def)

text \<open>
  C7: \<^verbatim>\<open>Publish\<close> returns whenever the client library answers (it never panics on a nil header map and
  never blocks on its own pool); it hands the broker at most one message, to the given destination,
  which carries the caller's data: the body, priority, identifier and expiration,
  the content type and the timestamp if the caller set them (otherwise text/plain and the clock), and every
  header entry the caller set, except those the trace propagator overwrites and
  what the user's own hook makes of them; it answers nil exactly when the broker positively
  confirmed that very message; and the pool is left with no channel borrowed.
\<close>

theorem publish_success_iff_confirmed:
  assumes "sdk_pool_ok n s"
  shows "\<exists>e M' s' h' es. Publish L c x k (Some a) M s h = (Returns (e, M', s'), h') \<and> h' = h @ es
     \<and> sdk_pool_ok n s' \<and> length (sent es) \<le> 1
     \<and> (\<forall>(y, l, pub) \<in> set (sent es). y = x \<and> l = k \<and> carries L s c (M a) pub)
     \<and> (e = None \<longleftrightarrow> (\<exists>ch pub conf. EvPublish ch x k False False pub (Inr conf) \<in> set es \<and> confirmed es = [conf]))"
proof -
  obtain e M' s' h' where P: "Publish L c x k (Some a) M s h = (Returns (e, M', s'), h')" "sdk_pool_ok n s'"
    "published_one L s c x k (Some a) M e h h'"
    using Publish_spec [OF assms] by blast
  from P(3) obtain pub es where "h' = h @ es" "carries L s c (M a) pub"
    "if e = None then sent es = [(x, k, pub)] \<and> (\<exists>ch conf. confirmed es = [conf] \<and>
             EvPublish ch x k False False pub (Inr conf) \<in> set es)
      else confirmed es = [] \<and> (sent es = [] \<or> sent es = [(x, k, pub)])"
    by (auto simp: published_one_def publish_result_def)
  with P(1,2) show ?thesis by (cases e) auto
qed

text \<open>A message with an entry in its headers, and an SDK that puts nothing else there.\<close>

definition header_heap :: msg_heap where
  "header_heap a = (sample_heap a)\<lparr>m_Headers := Some [(''tenant'', FStr ''t1'')], m_Timestamp := 7\<rparr>"

lemma header_sent:
  "length (sent (snd (Publish calm_lib (CtxOf 0) [] ''q'' (Some 0) header_heap sample_sdk []))) = 1"
  by code_simp

theorem publish_success_iff_confirmed_witness:
  "\<exists>e M' s' es y l pub. Publish calm_lib (CtxOf 0) [] ''q'' (Some 0) header_heap sample_sdk [] = (Returns (e, M', s'), es)
     \<and> sdk_pool_ok 0 s' \<and> sent es = [(y, l, pub)] \<and> p_Body pub = ''hello'' \<and> p_Timestamp pub = 7
     \<and> table_get (p_Headers pub) ''tenant'' = Some (FStr ''t1'')"
proof -
  obtain e M' s' es where P: "Publish calm_lib (CtxOf 0) [] ''q'' (Some 0) header_heap sample_sdk [] = (Returns (e, M', s'), es)"
    "sdk_pool_ok 0 s'" "\<forall>(y, l, pub) \<in> set (sent es). carries calm_lib sample_sdk (CtxOf 0) (header_heap 0) pub"
    using publish_success_iff_confirmed [OF sample_sdk_pool_ok, of calm_lib "CtxOf 0" "[]" "''q''" 0 header_heap "[]"]
    by fastforce
  have "length (sent es) = 1" using header_sent P(1) by simp
  then obtain y l pub where s: "sent es = [(y, l, pub)]" by (auto simp: length_Suc_conv)
  have "enableTracing sample_sdk = False" "injectHeaders sample_sdk = None" by (simp_all add: sample_sdk_def)
  moreover have "table_get (Some [(''tenant'', FStr ''t1'')]) ''tenant'' = Some (FStr ''t1'')" by (simp add: table_get_def)
  ultimately have "p_Body pub = ''hello''" "p_Timestamp pub = 7" "table_get (p_Headers pub) ''tenant'' = Some (FStr ''t1'')"
    using P(3) s by (auto simp: carries_def traced_def header_heap_def sample_heap_def zero_time_def)
  with P(1,2) s show ?thesis by blast
qed

text \<open>
  C26: \<^verbatim>\<open>BatchPublish\<close> sends a prefix of the batch, in order and to the given destination, and
  stops at the first failure: it answers nil only when every message was confirmed, and for
  a batch that is not empty whenever every message was (for an empty batch the answer is the check of the context);
  whatever happens at most one message was sent without its confirmation.
\<close>

theorem batch_publish_prefix:
  assumes "sdk_pool_ok n s"
  shows "\<exists>e M' s' es. BatchPublish L c x k msgs M s h = (Returns (e, M', s'), h @ es)
     \<and> map (\<lambda>(y, l, pub). (y, l, p_Body pub)) (sent es)
         = map (\<lambda>msg. (x, k, m_Body (M (the msg)))) (take (length (sent es)) msgs)
     \<and> (e = None \<longrightarrow> length (confirmed es) = length msgs)
     \<and> (msgs \<noteq> [] \<longrightarrow> length (confirmed es) = length msgs \<longrightarrow> e = None)
     \<and> (msgs = [] \<longrightarrow> e = fst (validateContext L c h) \<and> sent es = [])
     \<and> length (confirmed es) \<le> length (sent es) \<and> length (sent es) \<le> Suc (length (confirmed es))"
proof -
  obtain e M' s' es where B: "BatchPublish L c x k msgs M s h = (Returns (e, M', s'), h @ es)"
    and r: "batch_result x k msgs M e h (h @ es)"
    using BatchPublish_spec [OF assms, of L c x k msgs M h] by (auto simp: batch_result_def)
  have "e = fst (validateContext L c h)" if "msgs = []"
    using B that by (cases "validateContext L c h") (auto simp: BatchPublish_def split: option.splits)
  with B r show ?thesis unfolding batch_result_def by auto
qed

lemma batch_sample:
  "length (confirmed (snd (BatchPublish calm_lib (CtxOf 0) [] ''q'' [Some 0, Some 1] sample_heap sample_sdk []))) = 2"
  by code_simp

theorem batch_publish_prefix_witness:
  "\<exists>M' s' es. BatchPublish calm_lib (CtxOf 0) [] ''q'' [Some 0, Some 1] sample_heap sample_sdk []
       = (Returns (None, M', s'), es)
     \<and> length (confirmed es) = 2 \<and> length (sent es) \<le> Suc (length (confirmed es))"
  using batch_publish_prefix [OF sample_sdk_pool_ok,
      of calm_lib "CtxOf 0" "[]" "''q''" "[Some 0, Some 1]" sample_heap "[]"] batch_sample
  by auto

text \<open>
  A delayed publish is sent, if at all, to the default exchange with the name of the delay
  queue as routing key, so RabbitMQ stores it in \<^verbatim>\<open><queue>.delay\<close>; a message that is nil or
  carries an encoding error is refused before anything is sent.
\<close>

theorem delayed_publish_goes_to_delay_queue:
  assumes "sdk_pool_ok n s"
  shows "\<exists>e M' s' es. PublishWithDelayDLXTTL L c q msg M s h = (Returns (e, M', s'), h @ es)
     \<and> (\<forall>(x, k, pub) \<in> set (sent es). x = [] \<and> k = q @ ''.delay'')
     \<and> (msg = None \<or> (\<exists>a. msg = Some a \<and> m_err (M a) \<noteq> None) \<longrightarrow> e \<noteq> None \<and> sent es = [])"
proof -
  obtain v h1 where v: "validateContext L c h = (v, h1)" by fastforce
  have g1: "grows silent h h1" using validateContext_grows [of h L c] v by (auto intro: grows_pool_silent)
  obtain r h2 where m: "msg_validate L (map_option M msg) h1 = (r, h2)" by fastforce
  have g2: "grows silent h h2"
    using g1 msg_validate_grows [of h1 L "map_option M msg"] m by (auto intro: grows_trans)
  obtain es1 es2 where es: "h1 = h @ es1" "sent es1 = []" "h2 = h @ es2" "sent es2 = []"
    using g1 g2 by (auto simp: grows_def silent_list)
  show ?thesis
  proof (cases "v \<noteq> None \<or> (\<exists>e. r = Inl e)")
    case True
    with v m es show ?thesis by (cases v) (auto simp: PublishWithDelayDLXTTL_def)
  next
    case False
    then obtain m' where r: "r = Inr m'" by (cases r) auto
    have good: "\<not> (msg = None \<or> (\<exists>a. msg = Some a \<and> m_err (M a) \<noteq> None))"
      using msg_validate_error_iff [of L "map_option M msg" h1] m r by auto
    obtain e M' s' h' where P: "Publish L c [] (getDelayQueueName q) msg
        (case msg of None \<Rightarrow> M | Some a \<Rightarrow> M(a := m')) s h2 = (Returns (e, M', s'), h')"
      "published_one L s c [] (getDelayQueueName q) msg (case msg of None \<Rightarrow> M | Some a \<Rightarrow> M(a := m')) e h2 h'"
      using Publish_spec [OF assms] by blast
    then obtain es' where "h' = h2 @ es'" "\<forall>(x, k, pub) \<in> set (sent es'). x = [] \<and> k = q @ ''.delay''"
      by (cases e) (auto simp: published_one_def publish_result_def getDelayQueueName_def)
    with P(1) v m r es False good show ?thesis
      by (auto simp: PublishWithDelayDLXTTL_def)
  qed
qed

theorem delayed_publish_goes_to_delay_queue_witness:
  "\<exists>e M' s' es. PublishWithDelayDLXTTL calm_lib (CtxOf 0) ''q'' None sample_heap sample_sdk []
       = (Returns (e, M', s'), es) \<and> e \<noteq> None \<and> sent es = []"
  using delayed_publish_goes_to_delay_queue [OF sample_sdk_pool_ok,
      of calm_lib "CtxOf 0" "''q''" None sample_heap "[]"]
  by auto

end
