(* ===== verification/Consume.thy ===== *)
theory Consume
  imports Publish Topology
begin

text \<open>
  Consuming (\<^verbatim>\<open>Start\<close>, \<^verbatim>\<open>startWithStoreQueuesFlag\<close>, \<^verbatim>\<open>consume\<close>, \<^verbatim>\<open>processDelivery\<close>,
  \<^verbatim>\<open>handleDeliveryFailure\<close> and their helpers in \<^verbatim>\<open>rabbitmqsdk.go\<close>). The lemmas show that every
  delivery is settled exactly once whatever the handler and the broker do, that a failed
  message is given up only when its retries are used up, and that starting a queue is refused
  before anything happens when its configuration is wrong.
\<close>

section \<open>handleDeliveryFailure\<close>

definition deliveryRetryCount :: "table option \<Rightarrow> int" where
  "deliveryRetryCount headers =
     (case table_get headers retryCountHeader of
        Some (FInt n) \<Rightarrow> n
      | Some (FInt32 n) \<Rightarrow> n
      | Some (FInt64 n) \<Rightarrow> n
      | _ \<Rightarrow> 0)"

text \<open>The loop that copies the entries of a map into a new one.\<close>

fun copy_table :: "table \<Rightarrow> table \<Rightarrow> table" where
  "copy_table [] t = t"
| "copy_table ((k, v) # kvs) t = copy_table kvs (AList.update k v t)"

definition retry_headers :: "table option \<Rightarrow> int \<Rightarrow> table option" where
  "retry_headers hs retryCount =
     Some (AList.update retryCountHeader (FInt64 (wrap64 (retryCount + 1)))
       (copy_table (case hs of None \<Rightarrow> [] | Some t \<Rightarrow> t) []))"

definition retry_publishing :: "delivery \<Rightarrow> table option \<Rightarrow> publishing" where
  "retry_publishing d headers =
     \<lparr>p_Headers = headers, p_ContentType = d_ContentType d, p_ContentEncoding = d_ContentEncoding d,
      p_DeliveryMode = d_DeliveryMode d, p_Priority = d_Priority d, p_CorrelationId = d_CorrelationId d,
      p_ReplyTo = d_ReplyTo d, p_Expiration = d_Expiration d, p_MessageId = d_MessageId d,
      p_Timestamp = d_Timestamp d, p_Type = d_Type d, p_UserId = d_UserId d, p_AppId = d_AppId d,
      p_Body = d_Body d\<rparr>"

text \<open>The end of the function: \<^verbatim>\<open>Nack\<close>, counted when it succeeded.\<close>

definition nack_delivery :: "lib \<Rightarrow> ctx \<Rightarrow> delivery \<Rightarrow> QueueConfig \<Rightarrow> bool \<Rightarrow> SDK \<Rightarrow> hist \<Rightarrow> SDK outcome \<times> hist" where
  "nack_delivery L c d q requeue s h =
     (case d_nack L d False requeue h of
        (Some e, h1) \<Rightarrow> (Returns s, h1)
      | (None, h1) \<Rightarrow> (Returns s, IncMessagesNacked (sdk_metrics s) c (Name q) h1))"

definition handleDeliveryFailure :: "lib \<Rightarrow> ctx \<Rightarrow> delivery \<Rightarrow> QueueConfig \<Rightarrow> SDK \<Rightarrow> hist \<Rightarrow> SDK outcome \<times> hist" where
  "handleDeliveryFailure L c d q s h =
     (let requeue = (MaxRedelivery q = 0); retryCount = deliveryRetryCount (d_Headers d)
      in if MaxRedelivery q > 0 \<and> retryCount < MaxRedelivery q
         then obind (publishAMQP L c (d_Exchange d) (d_RoutingKey d)
                       (retry_publishing d (retry_headers (d_Headers d) retryCount)) s h)
                (\<lambda>(err, s1) h1.
                   case err of
                     None \<Rightarrow>
                       (case d_ack L d False h1 of
                          (Some e, h2) \<Rightarrow> (Returns s1, h2)
                        | (None, h2) \<Rightarrow> (Returns s1, IncMessagesNacked (sdk_metrics s1) c (Name q) h2))
                   | Some e \<Rightarrow> nack_delivery L c d q True s1 h1)
         else nack_delivery L c d q requeue s h)"

section \<open>processDelivery\<close>

text \<open>
  \<open>span\<close> says whether there is a tracing span. A nil handler panics when it is called, and
  \<^verbatim>\<open>context.WithTimeout\<close> panics on a nil parent (which a user's \<^verbatim>\<open>ExtractContext\<close> may return).
\<close>

definition record_span :: "bool \<Rightarrow> err \<Rightarrow> hist \<Rightarrow> hist" where
  "record_span span e h = (if span then h @ [EvSpanError e] else h)"

definition run_handler :: "lib \<Rightarrow> ctx \<Rightarrow> delivery \<Rightarrow> QueueConfig \<Rightarrow> hist \<Rightarrow> handler_result \<times> hist" where
  "run_handler L c d q h =
     (if ProcessTimeout q > 0 \<and> c = CtxNil then (HandlerPanic ''cannot create context from nil parent'', h)
      else let handlerCtx = (if ProcessTimeout q > 0 then WithTimeout c (ProcessTimeout q) else c)
           in case Handler q of
                None \<Rightarrow> (HandlerPanic ''invalid memory address or nil pointer dereference'', h)
              | Some f \<Rightarrow> call_handler L f handlerCtx (Name q) d h)"

text \<open>The deferred observation, which runs before a panic is recovered from.\<close>

definition observe_duration :: "lib \<Rightarrow> ctx \<Rightarrow> QueueConfig \<Rightarrow> int \<Rightarrow> SDK \<Rightarrow> hist \<Rightarrow> hist" where
  "observe_duration L c q start s h =
     (case now L h of (t, h1) \<Rightarrow> ObserveProcessingDuration (sdk_metrics s) c (Name q) (t - start) h1)"

text \<open>
  The recovery from a panic of the handler. A panic of \<open>handleDeliveryFailure\<close> itself would end
  up here as well; that there is none is part of the theorems below.
\<close>

definition recover_panic ::
  "lib \<Rightarrow> ctx \<Rightarrow> delivery \<Rightarrow> QueueConfig \<Rightarrow> bool \<Rightarrow> int \<Rightarrow> string \<Rightarrow> SDK \<Rightarrow> hist \<Rightarrow> SDK outcome \<times> hist" where
  "recover_panic L c d q span start recovered s h =
     handleDeliveryFailure L c d q s
       (record_span span (ErrNew (''handler panic: '' @ recovered)) (observe_duration L c q start s h))"

definition processDelivery :: "lib \<Rightarrow> ctx \<Rightarrow> delivery \<Rightarrow> QueueConfig \<Rightarrow> bool \<Rightarrow> SDK \<Rightarrow> hist \<Rightarrow> SDK outcome \<times> hist" where
  "processDelivery L c d q span s h =
     (case now L h of (start, h1) \<Rightarrow>
      case run_handler L c d q h1 of (result, h2) \<Rightarrow>
        (case result of
           HandlerPanic m \<Rightarrow> recover_panic L c d q span start m s h2
         | HandlerErr e \<Rightarrow>
             (case handleDeliveryFailure L c d q s (record_span span e h2) of (r, h3) \<Rightarrow>
                (case r of
                   Returns s1 \<Rightarrow> (Returns s1, observe_duration L c q start s1 h3)
                 | Panics m \<Rightarrow> recover_panic L c d q span start m s h3
                 | Blocks \<Rightarrow> (Blocks, h3)))
         | HandlerOk \<Rightarrow>
             (case d_ack L d False h2 of
                (Some e, h3) \<Rightarrow> (Returns s, observe_duration L c q start s h3)
              | (None, h3) \<Rightarrow>
                  (Returns s, observe_duration L c q start s (IncMessagesAcked (sdk_metrics s) c (Name q) h3)))))"

section \<open>consume\<close>

definition isHeartbeatDummyMessage :: "delivery \<Rightarrow> bool" where
  "isHeartbeatDummyMessage d =
     (case table_get (d_Headers d) ''type'' of
        None \<Rightarrow> False
      | Some typeHeader \<Rightarrow> Some typeHeader = table_get (p_Headers heartBeatMSG) ''type'')"

text \<open>A ticker's period must be positive, or \<^verbatim>\<open>NewTicker\<close> and \<^verbatim>\<open>Reset\<close> panic.\<close>

definition ticker_reset :: "duration \<Rightarrow> 's \<Rightarrow> hist \<Rightarrow> 's outcome \<times> hist" where
  "ticker_reset f s h =
     (if f \<le> 0 then (Panics ''non-positive interval for Ticker.Reset'', h) else (Returns s, h @ [EvTickerReset f]))"

definition consume_context :: "lib \<Rightarrow> ctx \<Rightarrow> delivery \<Rightarrow> SDK \<Rightarrow> hist \<Rightarrow> ctx \<times> bool \<times> hist" where
  "consume_context L c d s h =
     (let c1 = (case extractContext s of None \<Rightarrow> c | Some f \<Rightarrow> f c d)
      in if enableTracing s
         then (let c2 = spanCtx L (otelExtract L c1 (carrier_Get (d_Headers d)))
               in (c2, True, h @ [EvSpanStart c2 ''huma.consume'']))
         else (c1, False, h))"

text \<open>One delivery, and one tick of the heartbeat.\<close>

definition consume_delivery :: "lib \<Rightarrow> ctx \<Rightarrow> delivery \<Rightarrow> QueueConfig \<Rightarrow> SDK \<Rightarrow> hist \<Rightarrow> SDK outcome \<times> hist" where
  "consume_delivery L c d q s h =
     (if DummyMessageEnabled q \<and> isHeartbeatDummyMessage d
      then (case d_ack L d False h of (e, h1) \<Rightarrow> ticker_reset (DummyMessageFrequency q) s h1)
      else (case consume_context L c d s h of (messageCtx, span, h1) \<Rightarrow>
              obind (processDelivery L messageCtx d q span s
                       (IncMessagesReceived (sdk_metrics s) messageCtx (Name q) h1))
                (\<lambda>s1 h2. (Returns s1, if span then h2 @ [EvSpanEnd] else h2))))"

definition consume_tick :: "lib \<Rightarrow> ctx \<Rightarrow> QueueConfig \<Rightarrow> SDK \<Rightarrow> hist \<Rightarrow> SDK outcome \<times> hist" where
  "consume_tick L c q s h =
     obind (publishAMQP L c [] (Name q) heartBeatMSG s h)
       (\<lambda>(e, s1) h1. ticker_reset (DummyMessageFrequency q) s1 h1)"

text \<open>
  The loop, for at most \<open>n\<close> rounds: a worker runs until its context is done or its channel is
  closed, so it is still \<open>Working\<close> or has \<open>Stopped\<close>. Without a heartbeat the ticker's channel
  is nil and its case never fires.
\<close>

datatype worker_status = Working SDK | Stopped SDK

fun consume_loop ::
  "lib \<Rightarrow> nat \<Rightarrow> ctx \<Rightarrow> nat \<Rightarrow> QueueConfig \<Rightarrow> SDK \<Rightarrow> hist \<Rightarrow> worker_status outcome \<times> hist" where
  "consume_loop L 0 c msgs q s h = (Returns (Working s), h)"
| "consume_loop L (Suc n) c msgs q s h =
     (case worker_select L msgs h of (ev, h1) \<Rightarrow>
        (case ev of
           CtxDone \<Rightarrow> (Returns (Stopped s), h1)
         | MsgsClosed \<Rightarrow> (Returns (Stopped s), h1)
         | GotDelivery d \<Rightarrow>
             obind (consume_delivery L c d q s h1) (\<lambda>s1 h2. consume_loop L n c msgs q s1 h2)
         | HeartbeatTick \<Rightarrow>
             if DummyMessageEnabled q
             then obind (consume_tick L c q s h1) (\<lambda>s1 h2. consume_loop L n c msgs q s1 h2)
             else consume_loop L n c msgs q s h1))"

definition consume :: "lib \<Rightarrow> nat \<Rightarrow> ctx \<Rightarrow> nat \<Rightarrow> QueueConfig \<Rightarrow> SDK \<Rightarrow> hist \<Rightarrow> worker_status outcome \<times> hist" where
  "consume L n c msgs q s h =
     (if DummyMessageEnabled q
      then if DummyMessageFrequency q \<le> 0 then (Panics ''non-positive interval for NewTicker'', h)
           else obind (consume_loop L n c msgs q s (h @ [EvTickerNew (DummyMessageFrequency q)]))
                  (\<lambda>w h1. (Returns w, case w of Stopped _ \<Rightarrow> h1 @ [EvTickerStop] | Working _ \<Rightarrow> h1))
      else consume_loop L n c msgs q s h)"

section \<open>Start\<close>

fun start_validate :: "QueueConfig list \<Rightarrow> err option" where
  "start_validate [] = None"
| "start_validate (q # qs) =
     (case queue_validate q of
        Some e \<Rightarrow> Some e
      | None \<Rightarrow>
          if Handler q = None then Some (ErrNew (''queue '' @ Name q @ '': handler is required''))
          else if NumWorkers q \<le> 0
          then Some (ErrNew (''queue '' @ Name q @ '': number of workers must be positive''))
          else start_validate qs)"

fun spawn_workers :: "nat \<Rightarrow> nat \<Rightarrow> QueueConfig \<Rightarrow> hist \<Rightarrow> hist" where
  "spawn_workers 0 msgs q h = h"
| "spawn_workers (Suc n) msgs q h = spawn_workers n msgs q (h @ [EvSpawnWorker msgs q])"

definition default_frequency :: "QueueConfig \<Rightarrow> QueueConfig" where
  "default_frequency q = (if DummyMessageFrequency q = 0 then q\<lparr>DummyMessageFrequency := minute\<rparr> else q)"

fun start_loop :: "lib \<Rightarrow> chan_ref \<Rightarrow> QueueConfig list \<Rightarrow> hist \<Rightarrow> err option \<times> hist" where
  "start_loop L ch [] h = (None, h)"
| "start_loop L ch (q0 # qs) h =
     (let q = default_frequency q0
      in case ch_consume L ch (Name q) (ConsumerTag q) False (Exclusive q) False (NoWait q) None h of (r, h1) \<Rightarrow>
         (case r of
            Inl e \<Rightarrow> (Some (ErrWrap ''consume on rabbitmq channel encounter error'' e), h1)
          | Inr msgs \<Rightarrow> start_loop L ch qs (spawn_workers (nat (NumWorkers q)) msgs q h1)))"

definition startWithStoreQueuesFlag ::
  "lib \<Rightarrow> ctx \<Rightarrow> QueueConfig list \<Rightarrow> bool \<Rightarrow> SDK \<Rightarrow> hist \<Rightarrow> err option \<times> SDK \<times> hist" where
  "startWithStoreQueuesFlag L c qs store s h =
     (case ctx_err L c h of
        (Some e, h1) \<Rightarrow> (Some e, s, h1)
      | (None, h1) \<Rightarrow>
          (case start_validate qs of
             Some e \<Rightarrow> (Some e, s, h1)
           | None \<Rightarrow>
               (let s1 = (if store
                          then if length (queues s) > 0
                               then s\<lparr>queues := queues s @ cloneQueueConfigs qs\<rparr>
                               else s\<lparr>queues := cloneQueueConfigs qs\<rparr>
                          else s)
                in case start_loop L (channel s1) qs h1 of (e, h2) \<Rightarrow> (e, s1, h2))))"

definition Start :: "lib \<Rightarrow> ctx \<Rightarrow> QueueConfig list \<Rightarrow> SDK \<Rightarrow> hist \<Rightarrow> err option \<times> SDK \<times> hist" where
  "Start L c qs s h =
     (case validateContext L c h of
        (Some e, h1) \<Rightarrow> (Some e, s, h1)
      | (None, h1) \<Rightarrow> startWithStoreQueuesFlag L c qs True s h1)"

section \<open>How deliveries are settled\<close>

datatype settlement = Acked | Nacked bool

text \<open>A settlement of one delivery; with the flag \<^verbatim>\<open>multiple\<close> it would be one of many.\<close>

fun settle_of :: "event \<Rightarrow> (nat \<times> settlement) list" where
  "settle_of (EvAck t False _) = [(t, Acked)]"
| "settle_of (EvNack t False requeue _) = [(t, Nacked requeue)]"
| "settle_of _ = []"

definition settled :: "hist \<Rightarrow> (nat \<times> settlement) list" where
  "settled h = concat (map settle_of h)"

fun handled_of :: "event \<Rightarrow> (delivery \<times> handler_result) list" where
  "handled_of (EvHandler _ _ _ d r) = [(d, r)]"
| "handled_of _ = []"

definition handled :: "hist \<Rightarrow> (delivery \<times> handler_result) list" where
  "handled h = concat (map handled_of h)"

fun received_of :: "event \<Rightarrow> nat list" where
  "received_of (EvWorker _ (GotDelivery d)) = [d_DeliveryTag d]"
| "received_of _ = []"

definition received :: "hist \<Rightarrow> nat list" where
  "received h = concat (map received_of h)"

lemma settled_simps [simp]:
  "settled [] = []" "settled (e # es) = settle_of e @ settled es" "settled (h @ es) = settled h @ settled es"
  by (simp_all add: settled_def)

lemma handled_simps [simp]:
  "handled [] = []" "handled (e # es) = handled_of e @ handled es" "handled (h @ es) = handled h @ handled es"
  by (simp_all add: handled_def)

lemma received_simps [simp]:
  "received [] = []" "received (e # es) = received_of e @ received es" "received (h @ es) = received h @ received es"
  by (simp_all add: received_def)

text \<open>Events that no projection sees.\<close>

fun idle_event :: "event \<Rightarrow> bool" where
  "idle_event (EvMetric _ _ _) = True"
| "idle_event (EvNow _) = True"
| "idle_event (EvSpanStart _ _) = True"
| "idle_event (EvSpanError _) = True"
| "idle_event EvSpanEnd = True"
| "idle_event (EvTickerNew _) = True"
| "idle_event (EvTickerReset _) = True"
| "idle_event EvTickerStop = True"
| "idle_event _ = False"

lemma idle_nothing:
  "idle_event e \<Longrightarrow> sent_of e = [] \<and> confirmed_of e = [] \<and> settle_of e = [] \<and> handled_of e = [] \<and> received_of e = []"
  by (cases e) auto

lemma idle_list:
  "list_all idle_event es \<Longrightarrow>
     sent es = [] \<and> confirmed es = [] \<and> settled es = [] \<and> handled es = [] \<and> received es = []"
  by (induction es) (auto simp: idle_nothing)

lemma publish_event_nothing:
  "publish_event e \<Longrightarrow> settle_of e = [] \<and> handled_of e = [] \<and> received_of e = []"
  by (cases e) (auto simp: publish_event_def)

lemma publish_event_list:
  "list_all publish_event es \<Longrightarrow> settled es = [] \<and> handled es = [] \<and> received es = []"
  by (induction es) (auto simp: publish_event_nothing)

lemma metric_only_idle:
  assumes "metric_only f"
  shows "\<exists>es. f h = h @ es \<and> list_all idle_event es"
proof -
  have "is_metric e \<Longrightarrow> idle_event e" for e by (cases e) auto
  with assms show ?thesis unfolding metric_only_def by (metis list.pred_mono_strong)
qed

text \<open>What a stretch of code did, as its five projections; stretches compose by appending them.\<close>

definition does ::
  "hist \<Rightarrow> hist \<Rightarrow> (string \<times> string \<times> publishing) list \<Rightarrow> nat list \<Rightarrow> (nat \<times> settlement) list
     \<Rightarrow> (delivery \<times> handler_result) list \<Rightarrow> nat list \<Rightarrow> bool" where
  "does h h' se co st ha re \<longleftrightarrow> (\<exists>es. h' = h @ es \<and> sent es = se \<and> confirmed es = co \<and> settled es = st
     \<and> handled es = ha \<and> received es = re)"

lemma does_trans:
  "does h h1 se co st ha re \<Longrightarrow> does h1 h2 se' co' st' ha' re' \<Longrightarrow>
     does h h2 (se @ se') (co @ co') (st @ st') (ha @ ha') (re @ re')"
  by (fastforce simp: does_def)

lemma does_refl: "does h h [] [] [] [] []"
  by (simp add: does_def)

lemma does_event: "does h (h @ [e]) (sent_of e) (confirmed_of e) (settle_of e) (handled_of e) (received_of e)"
  by (simp add: does_def)

abbreviation does_nothing :: "hist \<Rightarrow> hist \<Rightarrow> bool" where
  "does_nothing h h' \<equiv> does h h' [] [] [] [] []"

lemma does_before: "does_nothing h h1 \<Longrightarrow> does h1 h2 se co st ha re \<Longrightarrow> does h h2 se co st ha re"
  using does_trans by fastforce

lemma does_after: "does h h1 se co st ha re \<Longrightarrow> does_nothing h1 h2 \<Longrightarrow> does h h2 se co st ha re"
  using does_trans by fastforce

lemma does_metric: "metric_only f \<Longrightarrow> does_nothing h (f h)"
  using metric_only_idle [of f h] by (auto simp: does_def idle_list)

lemma does_publish:
  assumes "publish_result x k pub e h h'" "grows publish_event h h'"
  shows "(if e = None then \<exists>conf. does h h' [(x, k, pub)] [conf] [] [] []
          else does_nothing h h' \<or> does h h' [(x, k, pub)] [] [] [] [])"
proof -
  obtain es where es: "h' = h @ es" "list_all publish_event es" using assms(2) by (auto simp: grows_def)
  with assms(1) publish_event_list [OF es(2)] show ?thesis
    by (auto simp: publish_result_def does_def)
qed

section \<open>The verdict on a failed delivery\<close>

text \<open>
  The specification of \<^verbatim>\<open>MaxRedelivery\<close> (\<^verbatim>\<open>types.go\<close>): with a positive limit not yet reached
  the message is replaced by a confirmed copy, or requeued if no copy was confirmed; without a
  limit it is requeued; otherwise it is rejected.
\<close>

definition verdict :: "int \<Rightarrow> int \<Rightarrow> bool \<Rightarrow> settlement" where
  "verdict mx retries copied =
     (if 0 < mx \<and> retries < mx then if copied then Acked else Nacked True else Nacked (mx = 0))"

definition retry_copy :: "delivery \<Rightarrow> string \<times> string \<times> publishing" where
  "retry_copy d = (d_Exchange d, d_RoutingKey d,
     retry_publishing d (retry_headers (d_Headers d) (deliveryRetryCount (d_Headers d))))"

text \<open>A failed delivery: at most one copy, sent only below the limit, and one settlement.\<close>

definition failed_delivery ::
  "delivery \<Rightarrow> QueueConfig \<Rightarrow> (delivery \<times> handler_result) list \<Rightarrow> hist \<Rightarrow> hist \<Rightarrow> bool" where
  "failed_delivery d q ha h h' \<longleftrightarrow> (\<exists>se co. does h h' se co
     [(d_DeliveryTag d, verdict (MaxRedelivery q) (deliveryRetryCount (d_Headers d)) (co \<noteq> []))] ha []
     \<and> (se = [] \<and> co = [] \<or> 0 < MaxRedelivery q \<and> deliveryRetryCount (d_Headers d) < MaxRedelivery q
          \<and> se = [retry_copy d] \<and> length co \<le> 1))"

lemma does_handled:
  "does h h1 [] [] [] ha [] \<Longrightarrow> does h1 h2 se co st ha' re \<Longrightarrow> does h h2 se co st (ha @ ha') re"
  using does_trans by fastforce

lemma failed_before:
  assumes "does h h1 [] [] [] ha []" "failed_delivery d q ha' h1 h2"
  shows "failed_delivery d q (ha @ ha') h h2"
  using assms(2) does_handled [OF assms(1)] unfolding failed_delivery_def by blast

lemma failed_after: "failed_delivery d q ha h h1 \<Longrightarrow> does_nothing h1 h2 \<Longrightarrow> failed_delivery d q ha h h2"
  unfolding failed_delivery_def using does_after by blast

lemma does_nack:
  "\<exists>h'. nack_delivery L c d q rq s h = (Returns s, h') \<and> does h h' [] [] [(d_DeliveryTag d, Nacked rq)] [] []"
proof -
  define e where "e = dNack L h (d_DeliveryTag d)"
  have "does h (h @ [EvNack (d_DeliveryTag d) False rq e]) [] [] [(d_DeliveryTag d, Nacked rq)] [] []"
    by (simp add: does_def)
  then show ?thesis
    by (cases e) (auto simp: nack_delivery_def d_nack_def Let_def e_def [symmetric]
        intro: does_after does_metric sink.nacked)
qed

lemma handleDeliveryFailure_spec:
  assumes "sdk_pool_ok n s"
  shows "\<exists>s' h'. handleDeliveryFailure L c d q s h = (Returns s', h') \<and> sdk_pool_ok n s'
     \<and> s'\<lparr>publisherPool := publisherPool s\<rparr> = s \<and> failed_delivery d q [] h h'"
proof (cases "0 < MaxRedelivery q \<and> deliveryRetryCount (d_Headers d) < MaxRedelivery q")
  case False
  obtain h' where "nack_delivery L c d q (MaxRedelivery q = 0) s h = (Returns s, h')"
    "does h h' [] [] [(d_DeliveryTag d, Nacked (MaxRedelivery q = 0))] [] []"
    using does_nack by blast
  with False assms show ?thesis
    by (auto simp: handleDeliveryFailure_def failed_delivery_def verdict_def Let_def)
next
  case True
  let ?pub = "retry_publishing d (retry_headers (d_Headers d) (deliveryRetryCount (d_Headers d)))"
  obtain e s' h1 where p: "publishAMQP L c (d_Exchange d) (d_RoutingKey d) ?pub s h = (Returns (e, s'), h1)"
    "sdk_pool_ok n s'" "s'\<lparr>publisherPool := publisherPool s\<rparr> = s"
    "publish_result (d_Exchange d) (d_RoutingKey d) ?pub e h h1" "grows publish_event h h1"
    using publishAMQP_spec [OF assms] by blast
  note pub = does_publish [OF p(4,5)]
  show ?thesis
  proof (cases e)
    case None
    define a where "a = dAck L h1 (d_DeliveryTag d)"
    obtain conf where conf: "does h h1 [retry_copy d] [conf] [] [] []" using pub None by (auto simp: retry_copy_def)
    have ack: "does h1 (h1 @ [EvAck (d_DeliveryTag d) False a]) [] [] [(d_DeliveryTag d, Acked)] [] []"
      by (simp add: does_def)
    have d: "does h (h1 @ [EvAck (d_DeliveryTag d) False a]) [retry_copy d] [conf] [(d_DeliveryTag d, Acked)] [] []"
      using does_trans [OF conf ack] by simp
    have "\<exists>h'. handleDeliveryFailure L c d q s h = (Returns s', h')
        \<and> does h h' [retry_copy d] [conf] [(d_DeliveryTag d, Acked)] [] []"
      using True p(1) None d does_after [OF d does_metric [OF sink.nacked]]
      by (cases a) (auto simp: handleDeliveryFailure_def d_ack_def Let_def a_def [symmetric])
    then obtain h' where "handleDeliveryFailure L c d q s h = (Returns s', h')"
      "does h h' [retry_copy d] [conf] [(d_DeliveryTag d, Acked)] [] []" by blast
    moreover from this(2) have "failed_delivery d q [] h h'"
      unfolding failed_delivery_def using True
      by (intro exI [of _ "[retry_copy d]"] exI [of _ "[conf]"]) (simp add: verdict_def)
    ultimately show ?thesis using p(2,3) by blast
  next
    case (Some x)
    obtain h' where h': "nack_delivery L c d q True s' h1 = (Returns s', h')"
      "does h1 h' [] [] [(d_DeliveryTag d, Nacked True)] [] []" using does_nack by blast
    have "handleDeliveryFailure L c d q s h = (Returns s', h')"
      using True p(1) Some h'(1) by (simp add: handleDeliveryFailure_def Let_def)
    moreover obtain se where "se = [] \<or> se = [retry_copy d]" "does h h1 se [] [] [] []"
      using pub Some by (auto simp: retry_copy_def)
    then have "failed_delivery d q [] h h'"
      using True does_trans [OF _ h'(2)] unfolding failed_delivery_def
      by (intro exI [of _ se] exI [of _ "[]"]) (fastforce simp: verdict_def)
    ultimately show ?thesis using p(2,3) by blast
  qed
qed

section \<open>processDelivery and the worker loop\<close>

definition processed :: "delivery \<Rightarrow> QueueConfig \<Rightarrow> hist \<Rightarrow> hist \<Rightarrow> bool" where
  "processed d q h h' \<longleftrightarrow>
     does h h' [] [] [(d_DeliveryTag d, Acked)] [(d, HandlerOk)] []
     \<or> (\<exists>ha. failed_delivery d q ha h h' \<and> (ha = [] \<or> (\<exists>r. ha = [(d, r)] \<and> r \<noteq> HandlerOk)))"

lemma processed_failed:
  "failed_delivery d q ha h h' \<Longrightarrow> r \<noteq> HandlerOk \<Longrightarrow> ha = [] \<and> r \<noteq> HandlerOk \<or> ha = [(d, r)] \<Longrightarrow> processed d q h h'"
  unfolding processed_def by blast

lemma does_now: "does_nothing h (snd (now L h))"
  by (simp add: now_def does_def Let_def)

lemma does_observe: "does_nothing h (observe_duration L c q st s h)"
proof -
  have "does_nothing h (h @ [EvNow t])" for t by (simp add: does_def)
  then show ?thesis
    by (simp add: observe_duration_def now_def Let_def does_before [OF _ does_metric [OF sink.observed]])
qed

lemma does_record: "does_nothing h (record_span span e h)"
  by (simp add: record_span_def does_def)

lemma recover_panic_spec:
  assumes "sdk_pool_ok n s"
  shows "\<exists>s' h'. recover_panic L c d q span st m s h = (Returns s', h') \<and> sdk_pool_ok n s'
     \<and> s'\<lparr>publisherPool := publisherPool s\<rparr> = s \<and> failed_delivery d q [] h h'"
proof -
  let ?h = "record_span span (ErrNew (''handler panic: '' @ m)) (observe_duration L c q st s h)"
  have "does_nothing h ?h" by (rule does_before [OF does_observe does_record])
  with handleDeliveryFailure_spec [OF assms, of L c d q ?h] failed_before [of h ?h "[]"]
  show ?thesis by (fastforce simp: recover_panic_def)
qed

text \<open>The handler is called, or there is a panic before it.\<close>

lemma run_handler_cases:
  obtains (panicked) m where "run_handler L c d q h = (HandlerPanic m, h)"
  | (called) f c' where "Handler q = Some f"
      "run_handler L c d q h = (runHandler L h f c' (Name q) d, h @ [EvHandler f c' (Name q) d (runHandler L h f c' (Name q) d)])"
  by (cases "Handler q"; cases "0 < ProcessTimeout q \<and> c = CtxNil")
    (auto simp: run_handler_def call_handler_def Let_def)

lemma run_handler_does:
  assumes "run_handler L c d q h = (r, h')"
  shows "\<exists>ha. does h h' [] [] [] ha [] \<and> (ha = [] \<and> r \<noteq> HandlerOk \<or> ha = [(d, r)])"
  by (cases rule: run_handler_cases [of L c d q h]) (use assms in \<open>auto simp: does_def\<close>)

lemma processDelivery_spec:
  assumes "sdk_pool_ok n s"
  shows "\<exists>s' h'. processDelivery L c d q span s h = (Returns s', h') \<and> sdk_pool_ok n s'
     \<and> s'\<lparr>publisherPool := publisherPool s\<rparr> = s \<and> processed d q h h'"
proof -
  obtain st h1 where t: "now L h = (st, h1)" by fastforce
  obtain r h2 where r: "run_handler L c d q h1 = (r, h2)" by fastforce
  obtain ha where ha: "does h1 h2 [] [] [] ha []" "ha = [] \<and> r \<noteq> HandlerOk \<or> ha = [(d, r)]"
    using run_handler_does [OF r] by blast
  have g: "does h h2 [] [] [] ha []" using does_before [OF _ ha(1)] does_now [of h L] t by simp
  note fail = failed_before [OF g]
  show ?thesis
  proof (cases r)
    case (HandlerPanic m)
    obtain s' h' where p: "recover_panic L c d q span st m s h2 = (Returns s', h')" "sdk_pool_ok n s'"
      "s'\<lparr>publisherPool := publisherPool s\<rparr> = s" "failed_delivery d q [] h2 h'"
      using recover_panic_spec [OF assms] by blast
    have "processed d q h h'" using processed_failed [of d q ha h h' r] fail [OF p(4)] ha(2) HandlerPanic by simp
    moreover have "processDelivery L c d q span s h = (Returns s', h')"
      using t r HandlerPanic p(1) by (simp add: processDelivery_def)
    ultimately show ?thesis using p(2,3) by blast
  next
    case (HandlerErr e)
    obtain s' h3 where p: "handleDeliveryFailure L c d q s (record_span span e h2) = (Returns s', h3)"
      "sdk_pool_ok n s'" "s'\<lparr>publisherPool := publisherPool s\<rparr> = s"
      "failed_delivery d q [] (record_span span e h2) h3"
      using handleDeliveryFailure_spec [OF assms] by blast
    let ?h' = "observe_duration L c q st s' h3"
    have "failed_delivery d q [] h2 h3" using failed_before [OF does_record p(4)] by simp
    from failed_after [OF fail [OF this] does_observe] have "processed d q h ?h'"
      using processed_failed [of d q ha h ?h' r] ha(2) HandlerErr by simp
    moreover have "processDelivery L c d q span s h = (Returns s', ?h')"
      using t r HandlerErr p(1) by (simp add: processDelivery_def)
    ultimately show ?thesis using p(2,3) by blast
  next
    case HandlerOk
    define a where "a = dAck L h2 (d_DeliveryTag d)"
    have ok: "ha = [(d, HandlerOk)]" using ha(2) HandlerOk by auto
    have "does h (h2 @ [EvAck (d_DeliveryTag d) False a]) [] [] [(d_DeliveryTag d, Acked)] ha []"
      using does_trans [OF g does_event [of h2 "EvAck (d_DeliveryTag d) False a"]] by simp
    then have "does h (observe_duration L c q st s (h2 @ [EvAck (d_DeliveryTag d) False a])) [] [] [(d_DeliveryTag d, Acked)] ha []"
      "does h (observe_duration L c q st s (IncMessagesAcked (sdk_metrics s) c (Name q)
         (h2 @ [EvAck (d_DeliveryTag d) False a]))) [] [] [(d_DeliveryTag d, Acked)] ha []"
      by (blast intro: does_after does_observe does_metric sink.acked)+
    with t r HandlerOk ok assms show ?thesis
      by (cases a) (auto simp: processDelivery_def processed_def d_ack_def Let_def a_def [symmetric])
  qed
qed

text \<open>The queue configuration of a worker: what \<^verbatim>\<open>Start\<close> guarantees for the ticker.\<close>

definition worker_queue :: "QueueConfig \<Rightarrow> bool" where
  "worker_queue q \<longleftrightarrow> 0 < DummyMessageFrequency q"

text \<open>
  What workers do: each delivery received is settled once and in order, and none that carries
  the heartbeat mark reaches the handler of a queue with heartbeats.
\<close>

definition orderly :: "QueueConfig \<Rightarrow> hist \<Rightarrow> hist \<Rightarrow> bool" where
  "orderly q h h' \<longleftrightarrow> (\<exists>es. h' = h @ es \<and> map fst (settled es) = received es
     \<and> (\<forall>(d, r) \<in> set (handled es). \<not> (DummyMessageEnabled q \<and> isHeartbeatDummyMessage d)))"

lemma orderly_refl: "orderly q h h"
  by (simp add: orderly_def)

lemma orderly_trans: "orderly q h h1 \<Longrightarrow> orderly q h1 h2 \<Longrightarrow> orderly q h h2"
  by (fastforce simp: orderly_def)

lemma orderly_does:
  "does h h' se co st ha re \<Longrightarrow> map fst st = re
     \<Longrightarrow> (\<forall>(d, r) \<in> set ha. \<not> (DummyMessageEnabled q \<and> isHeartbeatDummyMessage d)) \<Longrightarrow> orderly q h h'"
  by (auto simp: orderly_def does_def)

lemma processed_does:
  assumes "processed d q h h'"
  shows "\<exists>se co a ha. does h h' se co [(d_DeliveryTag d, a)] ha [] \<and> set ha \<subseteq> {d} \<times> UNIV"
  using assms unfolding processed_def failed_delivery_def by fastforce

lemma consume_context_does:
  "consume_context L c d s h = (c', sp, h') \<Longrightarrow> does_nothing h h'"
  by (auto simp: consume_context_def Let_def does_def split: if_splits)

lemma consume_delivery_spec:
  assumes "sdk_pool_ok n s" "worker_queue q"
  shows "\<exists>s' h'. consume_delivery L c d q s (h @ [EvWorker m (GotDelivery d)]) = (Returns s', h')
     \<and> sdk_pool_ok n s' \<and> s'\<lparr>publisherPool := publisherPool s\<rparr> = s \<and> orderly q h h'"
proof (cases "DummyMessageEnabled q \<and> isHeartbeatDummyMessage d")
  case True
  then show ?thesis
    using assms
    by (auto simp: consume_delivery_def d_ack_def ticker_reset_def worker_queue_def Let_def orderly_def)
next
  case False
  let ?h = "h @ [EvWorker m (GotDelivery d)]"
  obtain c' sp h1 where ctx: "consume_context L c d s ?h = (c', sp, h1)" by (metis prod_cases3)
  let ?h2 = "IncMessagesReceived (sdk_metrics s) c' (Name q) h1"
  obtain s' h3 where p: "processDelivery L c' d q sp s ?h2 = (Returns s', h3)" "sdk_pool_ok n s'"
    "s'\<lparr>publisherPool := publisherPool s\<rparr> = s" "processed d q ?h2 h3"
    using processDelivery_spec [OF assms(1)] by blast
  obtain se co a ha where a: "does ?h2 h3 se co [(d_DeliveryTag d, a)] ha []" "set ha \<subseteq> {d} \<times> UNIV"
    using processed_does [OF p(4)] by blast
  let ?h4 = "if sp then h3 @ [EvSpanEnd] else h3"
  have "does_nothing ?h ?h2"
    by (rule does_before [OF consume_context_does [OF ctx] does_metric [OF sink.received]])
  from does_before [OF this a(1)] have "does ?h ?h4 se co [(d_DeliveryTag d, a)] ha []"
    by (rule does_after) (simp add: does_def)
  then have "does h ?h4 se co [(d_DeliveryTag d, a)] ha [d_DeliveryTag d]"
    using does_trans [OF does_event [of h "EvWorker m (GotDelivery d)"]] by fastforce
  then have "orderly q h ?h4" by (rule orderly_does) (use a(2) False in auto)
  with p ctx False show ?thesis by (auto simp: consume_delivery_def)
qed

lemma consume_tick_spec:
  assumes "sdk_pool_ok n s" "worker_queue q"
  shows "\<exists>s' h'. consume_tick L c q s (h @ [EvWorker m HeartbeatTick]) = (Returns s', h')
     \<and> sdk_pool_ok n s' \<and> s'\<lparr>publisherPool := publisherPool s\<rparr> = s \<and> orderly q h h'"
proof -
  obtain e s' h1 where p: "publishAMQP L c [] (Name q) heartBeatMSG s (h @ [EvWorker m HeartbeatTick]) = (Returns (e, s'), h1)"
    "sdk_pool_ok n s'" "s'\<lparr>publisherPool := publisherPool s\<rparr> = s"
    "grows publish_event (h @ [EvWorker m HeartbeatTick]) h1"
    using publishAMQP_spec [OF assms(1)] by blast
  then obtain es where "h1 = h @ EvWorker m HeartbeatTick # es" "settled es = []" "handled es = []" "received es = []"
    by (auto simp: grows_def publish_event_list)
  then have "orderly q h (h1 @ [EvTickerReset (DummyMessageFrequency q)])" by (auto simp: orderly_def)
  with p assms(2) show ?thesis by (auto simp: consume_tick_def ticker_reset_def worker_queue_def)
qed

lemma consume_loop_spec:
  assumes "sdk_pool_ok n s" "worker_queue q"
  shows "\<exists>w h'. consume_loop L k c msgs q s h = (Returns w, h') \<and> orderly q h h'"
  using assms(1)
proof (induction k arbitrary: s h)
  case (Suc k)
  define ev where "ev = workerSelect L h msgs"
  let ?h1 = "h @ [EvWorker msgs ev]"
  have sel: "worker_select L msgs h = (ev, ?h1)" by (simp add: worker_select_def ev_def Let_def)
  have go: "\<exists>w h'. consume_loop L k c msgs q s' h2 = (Returns w, h') \<and> orderly q h h'"
    if "sdk_pool_ok n s'" "orderly q h h2" for s' h2
    using Suc.IH [OF that(1)] orderly_trans [OF that(2)] by blast
  show ?case
  proof (cases ev)
    case (GotDelivery d)
    then show ?thesis
      using sel go consume_delivery_spec [OF Suc.prems assms(2), of L c d h msgs] by fastforce
  next
    case HeartbeatTick
    then show ?thesis
      using sel go [OF Suc.prems, of ?h1] go consume_tick_spec [OF Suc.prems assms(2), of L c h msgs]
      by (cases "DummyMessageEnabled q") (fastforce simp: orderly_def)+
  qed (use sel in \<open>auto simp: orderly_def\<close>)
qed (simp add: orderly_refl)

lemma consume_spec:
  assumes "sdk_pool_ok n s" "worker_queue q"
  shows "\<exists>w h'. consume L k c msgs q s h = (Returns w, h') \<and> orderly q h h'"
proof -
  have t: "orderly q h (h @ [EvTickerNew f])" "orderly q h (h @ [EvTickerStop])" for f h
    by (simp_all add: orderly_def)
  obtain w h' where "consume_loop L k c msgs q s (h @ [EvTickerNew (DummyMessageFrequency q)]) = (Returns w, h')"
    "orderly q (h @ [EvTickerNew (DummyMessageFrequency q)]) h'"
    using consume_loop_spec [OF assms] by blast
  then have "DummyMessageEnabled q \<Longrightarrow> ?thesis"
    using assms(2) orderly_trans [OF t(1)] orderly_trans [OF _ t(2)]
    by (cases w) (auto simp: consume_def worker_queue_def)
  with consume_loop_spec [OF assms, of L k c msgs h] show ?thesis
    by (auto simp: consume_def)
qed

section \<open>Starting consumers\<close>

fun spawn_of :: "event \<Rightarrow> QueueConfig list" where
  "spawn_of (EvSpawnWorker _ q) = [q]"
| "spawn_of _ = []"

definition spawned :: "hist \<Rightarrow> QueueConfig list" where
  "spawned h = concat (map spawn_of h)"

fun consumer_of :: "chan_ref \<Rightarrow> event \<Rightarrow> string list" where
  "consumer_of ch (EvConsume c q _ _ _ _ _ _ _) = (if c = ch then [q] else [])"
| "consumer_of ch _ = []"

definition consumers :: "chan_ref \<Rightarrow> hist \<Rightarrow> string list" where
  "consumers ch h = concat (map (consumer_of ch) h)"

lemma spawned_simps [simp]:
  "spawned [] = []" "spawned (e # es) = spawn_of e @ spawned es" "spawned (h @ es) = spawned h @ spawned es"
  by (simp_all add: spawned_def)

lemma consumers_simps [simp]:
  "consumers ch [] = []" "consumers ch (e # es) = consumer_of ch e @ consumers ch es"
  "consumers ch (h @ es) = consumers ch h @ consumers ch es"
  by (simp_all add: consumers_def)

text \<open>The workers a queue gets.\<close>

definition workers :: "QueueConfig \<Rightarrow> QueueConfig list" where
  "workers q = replicate (nat (NumWorkers q)) (default_frequency q)"

lemma spawn_workers_eq: "spawn_workers n m q h = h @ replicate n (EvSpawnWorker m q)"
proof (induction n arbitrary: h)
  case (Suc n)
  show ?case using Suc [of "h @ [EvSpawnWorker m q]"] by simp
qed simp

lemma replicate_spawn [simp]:
  "spawned (replicate n (EvSpawnWorker m q)) = replicate n q" "consumers ch (replicate n (EvSpawnWorker m q)) = []"
  by (induction n) simp_all

lemma default_frequency_keeps [simp]:
  "Name (default_frequency q) = Name q" "NumWorkers (default_frequency q) = NumWorkers q"
  by (simp_all add: default_frequency_def)

lemma start_loop_spec:
  "start_loop L ch qs h = (e, h') \<Longrightarrow>
     (e = None \<and> spawned h' = spawned h @ concat (map workers qs) \<and> consumers ch h' = consumers ch h @ map Name qs)
     \<or> (e \<noteq> None \<and> (\<exists>k < length qs. spawned h' = spawned h @ concat (map workers (take k qs))
          \<and> consumers ch h' = consumers ch h @ map Name (take (Suc k) qs)))"
proof (induction qs arbitrary: h)
  case (Cons q qs)
  let ?q = "default_frequency q"
  define r where "r = chConsume L h ch (Name q)"
  let ?h1 = "h @ [EvConsume ch (Name q) (ConsumerTag ?q) False (Exclusive ?q) False (NoWait ?q) None r]"
  show ?case
  proof (cases r)
    case (Inl x)
    with Cons.prems show ?thesis
      by (auto simp: ch_consume_def Let_def r_def [symmetric] intro!: exI [of _ 0])
  next
    case (Inr m)
    let ?h2 = "spawn_workers (nat (NumWorkers q)) m ?q ?h1"
    have l: "start_loop L ch qs ?h2 = (e, h')"
      using Cons.prems Inr by (simp add: ch_consume_def Let_def r_def [symmetric])
    have h2: "spawned ?h2 = spawned h @ workers q" "consumers ch ?h2 = consumers ch h @ [Name q]"
      by (simp_all add: spawn_workers_eq workers_def)
    consider "e = None" "spawned h' = spawned ?h2 @ concat (map workers qs)"
        "consumers ch h' = consumers ch ?h2 @ map Name qs"
      | k where "e \<noteq> None" "k < length qs" "spawned h' = spawned ?h2 @ concat (map workers (take k qs))"
        "consumers ch h' = consumers ch ?h2 @ map Name (take (Suc k) qs)"
      using Cons.IH [OF l] by blast
    then show ?thesis
    proof cases
      case 1
      with h2 show ?thesis by simp
    next
      case (2 k)
      with h2 show ?thesis by (intro disjI2 conjI exI [of _ "Suc k"]) simp_all
    qed
  qed
qed simp

lemma start_validate_None:
  "start_validate qs = None \<longleftrightarrow>
     (\<forall>q \<in> set qs. queue_validate q = None \<and> Handler q \<noteq> None \<and> 0 < NumWorkers q)"
  by (induction qs) (auto split: option.splits if_splits)

lemma default_worker_queue: "queue_validate q = None \<Longrightarrow> worker_queue (default_frequency q)"
  by (auto simp: queue_validate_None worker_queue_def default_frequency_def minute_def second_def)

lemma startWithStoreQueuesFlag_spec:
  assumes "startWithStoreQueuesFlag L c qs store s h = (e, s', h')"
  shows "(e = None \<and> start_validate qs = None \<and> s' = (if store then s\<lparr>queues := queues s @ qs\<rparr> else s)
      \<and> spawned h' = spawned h @ concat (map workers qs) \<and> consumers (channel s) h' = consumers (channel s) h @ map Name qs)
   \<or> (e \<noteq> None \<and> s' = s \<and> spawned h' = spawned h \<and> consumers (channel s) h' = consumers (channel s) h)
   \<or> (e \<noteq> None \<and> start_validate qs = None \<and> s' = (if store then s\<lparr>queues := queues s @ qs\<rparr> else s)
      \<and> (\<exists>k < length qs. spawned h' = spawned h @ concat (map workers (take k qs))
          \<and> consumers (channel s) h' = consumers (channel s) h @ map Name (take (Suc k) qs)))"
proof -
  let ?s = "if store then s\<lparr>queues := queues s @ qs\<rparr> else s"
  have s1: "(if store then if length (queues s) > 0 then s\<lparr>queues := queues s @ cloneQueueConfigs qs\<rparr>
      else s\<lparr>queues := cloneQueueConfigs qs\<rparr> else s) = ?s"
    by (cases "queues s") simp_all
  define x where "x = ctxErr L h c"
  let ?h1 = "h @ [EvCtxErr c x]"
  show ?thesis
  proof (cases "x = None \<and> start_validate qs = None")
    case False
    with assms show ?thesis
      by (cases x; cases "start_validate qs")
        (auto simp: startWithStoreQueuesFlag_def ctx_err_def Let_def x_def [symmetric])
  next
    case True
    have "channel ?s = channel s" by simp
    with True assms have l: "start_loop L (channel s) qs ?h1 = (e, h')" "s' = ?s"
      unfolding startWithStoreQueuesFlag_def s1
      by (auto simp: ctx_err_def Let_def x_def [symmetric] split: prod.splits)
    show ?thesis using start_loop_spec [OF l(1)] l(2) True by auto
  qed
qed

section \<open>Copies that are delivered again\<close>

lemma copy_table_get:
  "table_wf kvs \<Longrightarrow> table_get (Some (copy_table kvs t)) k =
     (case table_get (Some kvs) k of Some v \<Rightarrow> Some v | None \<Rightarrow> table_get (Some t) k)"
proof (induction kvs arbitrary: t)
  case (Cons kv kvs)
  obtain a b where kv: "kv = (a, b)" by (cases kv)
  have wf: "table_wf kvs" "map_of kvs a = None"
    using Cons.prems kv by (auto simp: table_wf_def map_of_eq_None_iff)
  show ?case
    using Cons.IH [OF wf(1), of "AList.update a b t"] wf(2) kv
    by (auto simp: table_get_def update_conv' split: option.splits)
qed simp

lemma copy_table_wf: "table_wf t \<Longrightarrow> table_wf (copy_table kvs t)"
  by (induction kvs t rule: copy_table.induct) auto

definition headers_wf :: "table option \<Rightarrow> bool" where
  "headers_wf hs \<longleftrightarrow> (case hs of None \<Rightarrow> True | Some t \<Rightarrow> table_wf t)"

lemma retry_headers_get:
  "headers_wf hs \<Longrightarrow> table_get (retry_headers hs n) k =
     (if k = retryCountHeader then Some (FInt64 (wrap64 (n + 1))) else table_get hs k)"
  using copy_table_get [of "case hs of None \<Rightarrow> [] | Some t \<Rightarrow> t" "[]" k]
  by (auto simp: retry_headers_def headers_wf_def table_wf_def split: option.splits)

lemma retry_headers_wf [simp]: "headers_wf (retry_headers hs n)"
  by (simp add: retry_headers_def headers_wf_def copy_table_wf) (simp add: table_wf_def copy_table_wf [unfolded table_wf_def] distinct_update)

lemma retry_headers_count:
  "in_int64 (n + 1) \<Longrightarrow> headers_wf hs \<Longrightarrow> deliveryRetryCount (retry_headers hs n) = n + 1"
  by (simp add: deliveryRetryCount_def retry_headers_get)

text \<open>
  What RabbitMQ promises of a message that was published: a delivery of it comes through the same exchange
  and key, with the body that was sent and with every header that was sent (it may add headers of
  its own), under any tag.
\<close>

definition delivers :: "string \<times> string \<times> publishing \<Rightarrow> delivery \<Rightarrow> bool" where
  "delivers m d \<longleftrightarrow> (case m of (x, key, pub) \<Rightarrow> d_Exchange d = x \<and> d_RoutingKey d = key
     \<and> d_Body d = p_Body pub \<and> headers_wf (d_Headers d)
     \<and> (\<forall>k v. table_get (p_Headers pub) k = Some v \<longrightarrow> table_get (d_Headers d) k = Some v))"

text \<open>
  \<open>retried q d k d'\<close>: the delivery \<open>d'\<close> descends from \<open>d\<close> by \<open>k\<close> copies, each of which the
  SDK sent while it processed the delivery before, in any state and environment.
\<close>

inductive retried :: "QueueConfig \<Rightarrow> delivery \<Rightarrow> nat \<Rightarrow> delivery \<Rightarrow> bool" for q d where
  first: "retried q d 0 d"
| again: "retried q d k d1 \<Longrightarrow> sdk_pool_ok n s \<Longrightarrow> processDelivery L c d1 q span s h = (r, h @ es)
    \<Longrightarrow> m \<in> set (sent es) \<Longrightarrow> delivers m d2 \<Longrightarrow> retried q d (Suc k) d2"

text \<open>What processing a delivery sends: a copy with the counter raised by one, below the limit only.\<close>

lemma sent_copy:
  assumes ok: "sdk_pool_ok n s" and run: "processDelivery L c d q span s h = (r, h @ es)"
    and m: "(x, key, pub) \<in> set (sent es)"
    and wf: "headers_wf (d_Headers d)" "0 \<le> deliveryRetryCount (d_Headers d)" "MaxRedelivery q < 2 ^ 63"
  shows "deliveryRetryCount (d_Headers d) < MaxRedelivery q \<and> x = d_Exchange d \<and> key = d_RoutingKey d
     \<and> p_Body pub = d_Body d
     \<and> table_get (p_Headers pub) retryCountHeader = Some (FInt64 (deliveryRetryCount (d_Headers d) + 1))
     \<and> (\<forall>k. k \<noteq> retryCountHeader \<longrightarrow> table_get (p_Headers pub) k = table_get (d_Headers d) k)"
proof -
  have "processed d q h (h @ es)" using processDelivery_spec [OF ok, of L c d q span h] run by auto
  with m have c: "(x, key, pub) = retry_copy d" "deliveryRetryCount (d_Headers d) < MaxRedelivery q"
    by (auto simp: processed_def failed_delivery_def does_def)
  then have "in_int64 (deliveryRetryCount (d_Headers d) + 1)" using wf by (simp add: in_int64_def)
  with c wf(1) show ?thesis by (simp add: retry_copy_def retry_publishing_def retry_headers_get)
qed

lemma retried_keeps:
  assumes "retried q d k dk" "headers_wf (d_Headers d)" "deliveryRetryCount (d_Headers d) = 0"
    "0 < MaxRedelivery q" "MaxRedelivery q < 2 ^ 63"
  shows "int k \<le> MaxRedelivery q \<and> headers_wf (d_Headers dk) \<and> deliveryRetryCount (d_Headers dk) = int k
     \<and> d_Body dk = d_Body d \<and> d_Exchange dk = d_Exchange d \<and> d_RoutingKey dk = d_RoutingKey d
     \<and> (\<forall>key v. key \<noteq> retryCountHeader \<longrightarrow> table_get (d_Headers d) key = Some v \<longrightarrow> table_get (d_Headers dk) key = Some v)"
  using assms
proof (induction rule: retried.induct)
  case (again k d1 n s L c span h r es m d2)
  obtain x key pub where m: "m = (x, key, pub)" by (rule prod_cases3)
  have d1: "headers_wf (d_Headers d1)" "deliveryRetryCount (d_Headers d1) = int k" "d_Body d1 = d_Body d"
    "d_Exchange d1 = d_Exchange d" "d_RoutingKey d1 = d_RoutingKey d"
    "\<forall>key v. key \<noteq> retryCountHeader \<longrightarrow> table_get (d_Headers d) key = Some v \<longrightarrow> table_get (d_Headers d1) key = Some v"
    using again by auto
  have c: "int k < MaxRedelivery q" "x = d_Exchange d1" "key = d_RoutingKey d1" "p_Body pub = d_Body d1"
    "table_get (p_Headers pub) retryCountHeader = Some (FInt64 (int k + 1))"
    "\<forall>k. k \<noteq> retryCountHeader \<longrightarrow> table_get (p_Headers pub) k = table_get (d_Headers d1) k"
    using sent_copy [OF again.hyps(2,3), of x key pub] again.hyps(4) m d1(1,2) again.prems(4) by auto
  have d2: "d_Exchange d2 = x" "d_RoutingKey d2 = key" "d_Body d2 = p_Body pub" "headers_wf (d_Headers d2)"
    "\<forall>k v. table_get (p_Headers pub) k = Some v \<longrightarrow> table_get (d_Headers d2) k = Some v"
    using again.hyps(5) m by (auto simp: delivers_def)
  have "deliveryRetryCount (d_Headers d2) = int (Suc k)" using d2(5) c(5) by (simp add: deliveryRetryCount_def)
  with c d1 d2 show ?case by simp
qed simp

text \<open>A first delivery of a message, and a broker whose handlers fail.\<close>

definition sample_delivery :: delivery where
  "sample_delivery = \<lparr>d_Headers = None, d_ContentType = [], d_ContentEncoding = [], d_DeliveryMode = 0,
     d_Priority = 0, d_CorrelationId = [], d_ReplyTo = [], d_Expiration = [], d_MessageId = [],
     d_Timestamp = 0, d_Type = [], d_UserId = [], d_AppId = [], d_DeliveryTag = 1, d_Exchange = [],
     d_RoutingKey = ''huma.orders'', d_Body = ''order''\<rparr>"

definition failing_lib :: lib where
  "failing_lib = calm_lib\<lparr>runHandler := \<lambda>h f c q d. HandlerErr (ErrLib ''db down'')\<rparr>"

text \<open>A broker that refuses the first attempt to consume.\<close>

definition refusing_lib :: lib where
  "refusing_lib = calm_lib\<lparr>chConsume := \<lambda>h ch q. if length h < 3 then Inl AmqpErrClosed else Inr 0\<rparr>"

section \<open>Properties\<close>

text \<open>
  C1: processing a delivery always returns, whether the handler succeeds, fails, panics or is
  nil and whatever the broker answers, and settles the delivery exactly once. It is
  acknowledged if the handler succeeded; otherwise the settlement is the specified verdict on
  the retry limit, the retries so far, and whether a retry copy was confirmed. At most the one
  retry copy is sent.
\<close>

theorem delivery_settled_exactly_once:
  assumes "sdk_pool_ok n s"
  shows "\<exists>s' es. processDelivery L c d q span s h = (Returns s', h @ es) \<and> sdk_pool_ok n s'
     \<and> length (handled es) \<le> 1
     \<and> settled es = [(d_DeliveryTag d,
         if (d, HandlerOk) \<in> set (handled es) then Acked
         else verdict (MaxRedelivery q) (deliveryRetryCount (d_Headers d)) (confirmed es \<noteq> []))]
     \<and> (sent es = [] \<or> sent es = [retry_copy d])"
proof -
  obtain s' h' where "processDelivery L c d q span s h = (Returns s', h')" "sdk_pool_ok n s'" "processed d q h h'"
    using processDelivery_spec [OF assms] by blast
  then show ?thesis
    unfolding processed_def failed_delivery_def does_def by fastforce
qed

theorem delivery_settled_exactly_once_witness:
  "\<exists>s' es. processDelivery calm_lib (CtxOf 0) sample_delivery ordersQueue False sample_sdk [] = (Returns s', es)
     \<and> length (settled es) = 1 \<and> sdk_pool_ok 0 s'"
  using delivery_settled_exactly_once [OF sample_sdk_pool_ok,
      of calm_lib "CtxOf 0" sample_delivery ordersQueue False "[]"]
  by auto

text \<open>
  C2: no message is lost by the SDK. A delivery is acknowledged only after its handler
  succeeded or after RabbitMQ confirmed a copy of it, sent through the same exchange and key, with the
  same body, content type, correlation and message identifier, with every header but the retry
  counter unchanged and the counter raised by exactly one; it is rejected for good
  only with \<^verbatim>\<open>MaxRedelivery = -1\<close> or when the counter has reached a positive limit. The counter and the limit
  are 64-bit integers, and the limit is a validated one.
\<close>

theorem no_message_lost:
  assumes "sdk_pool_ok n s" "processDelivery L c d q span s h = (r, h @ es)"
    and "headers_wf (d_Headers d)" "in_int64 (deliveryRetryCount (d_Headers d))"
    and "-1 \<le> MaxRedelivery q" "in_int64 (MaxRedelivery q)"
  shows "((d_DeliveryTag d, Acked) \<in> set (settled es) \<longrightarrow>
           (d, HandlerOk) \<in> set (handled es)
           \<or> (\<exists>pub. sent es = [(d_Exchange d, d_RoutingKey d, pub)] \<and> confirmed es \<noteq> []
                \<and> p_Body pub = d_Body d \<and> p_ContentType pub = d_ContentType d
                \<and> p_CorrelationId pub = d_CorrelationId d \<and> p_MessageId pub = d_MessageId d
                \<and> deliveryRetryCount (p_Headers pub) = deliveryRetryCount (d_Headers d) + 1
                \<and> (\<forall>key. key \<noteq> retryCountHeader \<longrightarrow> table_get (p_Headers pub) key = table_get (d_Headers d) key)))
     \<and> ((d_DeliveryTag d, Nacked False) \<in> set (settled es) \<longrightarrow>
           MaxRedelivery q = -1 \<or> 0 < MaxRedelivery q \<and> MaxRedelivery q \<le> deliveryRetryCount (d_Headers d))"
proof -
  obtain s' where p: "processDelivery L c d q span s h = (Returns s', h @ es)" "processed d q h (h @ es)"
    using processDelivery_spec [OF assms(1), of L c d q span h] assms(2) by auto
  have "in_int64 (deliveryRetryCount (d_Headers d) + 1)" if "deliveryRetryCount (d_Headers d) < MaxRedelivery q"
    using that assms(4,6) by (simp add: in_int64_def)
  then show ?thesis
    using p(2) assms(3,5)
    by (auto simp: processed_def failed_delivery_def does_def verdict_def retry_copy_def retry_publishing_def
        retry_headers_get retry_headers_count split: if_splits)
qed

lemma failing_sample:
  "settled (snd (processDelivery failing_lib (CtxOf 0) sample_delivery ordersQueue False sample_sdk [])) = [(1, Acked)]
     \<and> (sample_delivery, HandlerOk) \<notin> set (handled (snd (processDelivery failing_lib (CtxOf 0) sample_delivery ordersQueue False sample_sdk [])))"
  by code_simp

theorem no_message_lost_witness:
  "\<exists>r es pub. processDelivery failing_lib (CtxOf 0) sample_delivery ordersQueue False sample_sdk [] = (r, es)
     \<and> settled es = [(1, Acked)] \<and> sent es = [([], ''huma.orders'', pub)] \<and> confirmed es \<noteq> []
     \<and> p_Body pub = ''order'' \<and> deliveryRetryCount (p_Headers pub) = 1"
proof -
  obtain r es where p: "processDelivery failing_lib (CtxOf 0) sample_delivery ordersQueue False sample_sdk [] = (r, es)"
    by fastforce
  have d: "headers_wf (d_Headers sample_delivery)" "deliveryRetryCount (d_Headers sample_delivery) = 0"
    "d_DeliveryTag sample_delivery = 1" "d_Exchange sample_delivery = []" "d_RoutingKey sample_delivery = ''huma.orders''"
    "d_Body sample_delivery = ''order''"
    by (simp_all add: sample_delivery_def headers_wf_def deliveryRetryCount_def)
  have "in_int64 (deliveryRetryCount (d_Headers sample_delivery))" "-1 \<le> MaxRedelivery ordersQueue" "in_int64 (MaxRedelivery ordersQueue)"
    unfolding d by (simp_all add: ordersQueue_def in_int64_def)
  from no_message_lost [OF sample_sdk_pool_ok, of failing_lib "CtxOf 0" sample_delivery ordersQueue False "[]" r es, OF _ d(1) this]
  show ?thesis using p failing_sample d by (auto simp: p)
qed

text \<open>
  C8: retries are bounded. Follow a message, delivered without a counter to a queue with \<^verbatim>\<open>MaxRedelivery = N > 0\<close>, through
  the copies the SDK itself sends, each processed by any worker in any environment and delivered by
  RabbitMQ with the headers and the body that were sent. However long the chain, it has at
  most \<open>N\<close> copies; the \<open>k\<close>-th carries the counter \<open>k\<close>, the original body and all other
  headers. When its handler fails, below \<open>N\<close> it is replaced by a confirmed copy with counter \<open>k + 1\<close> (or
  requeued if none was confirmed), and the \<open>N\<close>-th is rejected without requeueing
  and not copied, so that the dead-letter routing applies.
\<close>

theorem retries_are_bounded:
  assumes new: "headers_wf (d_Headers d)" "deliveryRetryCount (d_Headers d) = 0"
    and lim: "0 < MaxRedelivery q" "MaxRedelivery q < 2 ^ 63"
    and dk: "retried q d k dk"
    and ok: "sdk_pool_ok n s" and run: "processDelivery L c dk q span s h = (r, h @ es)"
    and fails: "(dk, HandlerOk) \<notin> set (handled es)"
  shows "int k \<le> MaxRedelivery q \<and> deliveryRetryCount (d_Headers dk) = int k \<and> d_Body dk = d_Body d
     \<and> (\<forall>key v. key \<noteq> retryCountHeader \<longrightarrow> table_get (d_Headers d) key = Some v \<longrightarrow> table_get (d_Headers dk) key = Some v)
     \<and> settled es = [(d_DeliveryTag dk,
          if int k < MaxRedelivery q then if confirmed es \<noteq> [] then Acked else Nacked True else Nacked False)]
     \<and> (confirmed es \<noteq> [] \<longrightarrow> sent es \<noteq> [])
     \<and> (\<forall>(x, key, pub) \<in> set (sent es). deliveryRetryCount (p_Headers pub) = int k + 1 \<and> p_Body pub = d_Body d)
     \<and> (int k = MaxRedelivery q \<longrightarrow> sent es = [])"
proof -
  note keep = retried_keeps [OF dk new lim]
  have p: "processed dk q h (h @ es)"
    using processDelivery_spec [OF ok, of L c dk q span h] run by auto
  have "deliveryRetryCount (p_Headers pub) = int k + 1 \<and> p_Body pub = d_Body d" if "(x, key, pub) \<in> set (sent es)" for x key pub
    using sent_copy [OF ok run that] keep lim(2) by (simp add: deliveryRetryCount_def [of "p_Headers pub"])
  then show ?thesis
    using p fails keep lim
    by (auto simp: processed_def failed_delivery_def does_def verdict_def split: if_splits)
qed

text \<open>The copies of the sample delivery that are made while its handler fails.\<close>

definition sample_copy :: "nat \<Rightarrow> delivery" where
  "sample_copy k = sample_delivery\<lparr>d_Headers := Some [(retryCountHeader, FInt64 (int k))], d_DeliveryTag := Suc k\<rparr>"

lemma sample_copies_sent:
  "map (\<lambda>d. map (\<lambda>(x, key, pub). (x, key, p_Body pub, p_Headers pub))
       (sent (snd (processDelivery failing_lib (CtxOf 0) d ordersQueue False sample_sdk []))))
     [sample_delivery, sample_copy 1, sample_copy 2]
   = map (\<lambda>k. [([], ''huma.orders'', ''order'', Some [(retryCountHeader, FInt64 k)])]) [1, 2, 3]"
  by code_simp

lemma sample_copy_fails:
  "handled (snd (processDelivery failing_lib (CtxOf 0) (sample_copy 3) ordersQueue False sample_sdk []))
     = [(sample_copy 3, HandlerErr (ErrLib ''db down''))]"
  by code_simp

lemma sample_retry:
  assumes "retried ordersQueue sample_delivery k d"
    "map (\<lambda>(x, key, pub). (x, key, p_Body pub, p_Headers pub))
       (sent (snd (processDelivery failing_lib (CtxOf 0) d ordersQueue False sample_sdk [])))
     = [([], ''huma.orders'', ''order'', Some [(retryCountHeader, FInt64 (int (Suc k)))])]"
  shows "retried ordersQueue sample_delivery (Suc k) (sample_copy (Suc k))"
proof -
  obtain r es where p: "processDelivery failing_lib (CtxOf 0) d ordersQueue False sample_sdk [] = (r, [] @ es)" by fastforce
  then obtain pub where pub: "sent es = [([], ''huma.orders'', pub)]" "p_Body pub = ''order''"
    "p_Headers pub = Some [(retryCountHeader, FInt64 (int (Suc k)))]"
    using assms(2) by auto
  show ?thesis
    by (rule retried.again [OF assms(1) sample_sdk_pool_ok p, of "([], ''huma.orders'', pub)"])
      (auto simp: pub delivers_def sample_copy_def sample_delivery_def headers_wf_def table_wf_def)
qed

lemma sample_retried: "retried ordersQueue sample_delivery 3 (sample_copy 3)"
proof -
  have "retried ordersQueue sample_delivery (Suc 0) (sample_copy (Suc 0))"
    using sample_retry [OF retried.first] sample_copies_sent by simp
  then have "retried ordersQueue sample_delivery (Suc (Suc 0)) (sample_copy (Suc (Suc 0)))"
    by (rule sample_retry) (use sample_copies_sent in \<open>simp add: eval_nat_numeral\<close>)
  then have "retried ordersQueue sample_delivery (Suc (Suc (Suc 0))) (sample_copy (Suc (Suc (Suc 0))))"
    by (rule sample_retry) (use sample_copies_sent in \<open>simp add: eval_nat_numeral\<close>)
  then show ?thesis by (simp add: eval_nat_numeral)
qed

lemma sample_new: "headers_wf (d_Headers sample_delivery)" "deliveryRetryCount (d_Headers sample_delivery) = 0"
  by (simp_all add: sample_delivery_def headers_wf_def deliveryRetryCount_def)

theorem retries_are_bounded_witness:
  "\<exists>r es. retried ordersQueue sample_delivery 3 (sample_copy 3)
     \<and> processDelivery failing_lib (CtxOf 0) (sample_copy 3) ordersQueue False sample_sdk [] = (r, es)
     \<and> settled es = [(4, Nacked False)] \<and> sent es = []"
proof -
  obtain r es where p: "processDelivery failing_lib (CtxOf 0) (sample_copy 3) ordersQueue False sample_sdk [] = (r, [] @ es)"
    by fastforce
  have fails: "(sample_copy 3, HandlerOk) \<notin> set (handled es)" using sample_copy_fails p by auto
  have q: "MaxRedelivery ordersQueue = 3" "d_DeliveryTag (sample_copy 3) = 4"
    by (simp_all add: ordersQueue_def sample_copy_def)
  show ?thesis
    using retries_are_bounded [OF sample_new _ _ sample_retried sample_sdk_pool_ok p fails] p q sample_retried by auto
qed

text \<open>
  C11: a worker that \<^verbatim>\<open>Start\<close> spawned never panics and never hangs in its own code, for any
  number of rounds and any mix of deliveries, heartbeat ticks and cancellation; it settles
  every delivery it received once, in the order received; and a heartbeat message never
  reaches the handler.
\<close>

theorem worker_settles_in_order:
  assumes "sdk_pool_ok n s" "queue_validate q0 = None" "q = default_frequency q0"
  shows "\<exists>w es. consume L k c msgs q s h = (Returns w, h @ es)
     \<and> map fst (settled es) = received es
     \<and> (\<forall>(d, r) \<in> set (handled es). \<not> (DummyMessageEnabled q \<and> isHeartbeatDummyMessage d))"
  using consume_spec [OF assms(1), of q L k c msgs h] default_worker_queue [OF assms(2)] assms(3)
  by (auto simp: orderly_def)

definition one_delivery_lib :: lib where
  "one_delivery_lib = calm_lib\<lparr>workerSelect := \<lambda>h m. if h = [] then GotDelivery sample_delivery else MsgsClosed\<rparr>"

lemma one_delivery_received:
  "received (snd (consume one_delivery_lib 5 (CtxOf 0) 7 (default_frequency ordersQueue) sample_sdk [])) = [1]"
  by code_simp

theorem worker_settles_in_order_witness:
  "\<exists>w es. consume one_delivery_lib 5 (CtxOf 0) 7 (default_frequency ordersQueue) sample_sdk [] = (Returns w, es)
     \<and> received es = [1] \<and> map fst (settled es) = [1]"
  using worker_settles_in_order [OF sample_sdk_pool_ok example_queues_valid(1) refl, of one_delivery_lib 5 "CtxOf 0" 7 "[]"]
    one_delivery_received
  by auto

text \<open>
  C27: \<^verbatim>\<open>Start\<close> checks every queue before it does anything: with an invalid queue, without a
  handler or with no workers it returns an error, registers no consumer, spawns no worker and
  remembers nothing. When it succeeds every queue has one consumer and its configured number
  of workers, in order, and is remembered for replay.
\<close>

theorem start_validates_first:
  assumes "Start L c qs s h = (e, s', h')"
  shows "(start_validate qs \<noteq> None \<longrightarrow>
            e \<noteq> None \<and> s' = s \<and> spawned h' = spawned h \<and> consumers (channel s) h' = consumers (channel s) h)
     \<and> (e = None \<longrightarrow>
            s' = s\<lparr>queues := queues s @ qs\<rparr> \<and> consumers (channel s) h' = consumers (channel s) h @ map Name qs
            \<and> spawned h' = spawned h @ concat (map (\<lambda>q. replicate (nat (NumWorkers q)) (default_frequency q)) qs))"
proof -
  obtain v h1 where v: "validateContext L c h = (v, h1)" by fastforce
  have h1: "spawned h1 = spawned h" "consumers (channel s) h1 = consumers (channel s) h"
    using v by (auto simp: validateContext_def ctx_err_def Let_def split: if_splits)
  show ?thesis
  proof (cases v)
    case (Some x)
    with assms v h1 show ?thesis by (auto simp: Start_def)
  next
    case None
    with assms v have "startWithStoreQueuesFlag L c qs True s h1 = (e, s', h')" by (simp add: Start_def)
    from startWithStoreQueuesFlag_spec [OF this] h1 show ?thesis by (auto simp: workers_def [abs_def])
  qed
qed

theorem start_validates_first_witness:
  "\<exists>e s' h'. Start calm_lib (CtxOf 0) [ordersQueue, ordersQueue\<lparr>NumWorkers := 0\<rparr>] sample_sdk [] = (e, s', h')
     \<and> e \<noteq> None \<and> s' = sample_sdk \<and> spawned h' = []"
proof -
  have "start_validate [ordersQueue, ordersQueue\<lparr>NumWorkers := 0\<rparr>] \<noteq> None"
    unfolding start_validate_None by simp
  moreover obtain e s' h' where "Start calm_lib (CtxOf 0)
      [ordersQueue, ordersQueue\<lparr>NumWorkers := 0\<rparr>] sample_sdk [] = (e, s', h')"
    by (rule prod_cases3)
  ultimately show ?thesis
    using start_validates_first by (fastforce simp del: start_validate.simps)
qed

text \<open>
  C28: \<^verbatim>\<open>Start\<close> remembers its queues before it knows whether they can be consumed. When
  consuming fails the error is returned but the queues stay remembered, so that after a
  repeated call that succeeds each of them is remembered twice, and every reconnect registers
  two consumers and twice the configured number of workers for it.
\<close>

theorem failed_start_is_remembered:
  assumes fail: "Start L c qs s h = (Some e, s1, h1)" "consumers (channel s) h1 \<noteq> consumers (channel s) h"
    and again: "Start L' c' qs s1 g = (None, s2, g1)"
    and replay: "startWithStoreQueuesFlag L'' c'' (queues s2) False s3 f = (None, s4, f1)"
  shows "queues s2 = queues s @ qs @ qs
     \<and> spawned f1 = spawned f @ concat (map workers (queues s)) @ concat (map workers qs) @ concat (map workers qs)
     \<and> consumers (channel s3) f1 = consumers (channel s3) f @ map Name (queues s) @ map Name qs @ map Name qs"
proof -
  obtain v h0 where v: "validateContext L c h = (v, h0)" by fastforce
  have h0: "consumers (channel s) h0 = consumers (channel s) h"
    using v by (auto simp: validateContext_def ctx_err_def Let_def split: if_splits)
  have "v = None" using fail v h0 by (cases v) (auto simp: Start_def)
  then have "startWithStoreQueuesFlag L c qs True s h0 = (Some e, s1, h1)" using fail v by (simp add: Start_def)
  from startWithStoreQueuesFlag_spec [OF this] fail(2) h0 have s1: "queues s1 = queues s @ qs" by auto
  obtain g0 where "startWithStoreQueuesFlag L' c' qs True s1 g0 = (None, s2, g1)"
    using again by (auto simp: Start_def split: prod.splits option.splits)
  from startWithStoreQueuesFlag_spec [OF this] s1 have s2: "queues s2 = queues s @ qs @ qs" by auto
  show ?thesis using startWithStoreQueuesFlag_spec [OF replay] s2 by auto
qed

lemma calm_start_loop:
  assumes "\<And>h ch q. length h \<ge> m \<Longrightarrow> \<exists>k. chConsume L h ch q = Inr k" "length h \<ge> m"
  shows "\<exists>h'. start_loop L ch qs h = (None, h')"
  using assms(2)
proof (induction qs arbitrary: h)
  case (Cons q qs)
  obtain k where "chConsume L h ch (Name q) = Inr k" using assms(1) Cons.prems by blast
  then show ?case
    using Cons by (auto simp: ch_consume_def Let_def spawn_workers_eq)
qed simp

lemma refusing_ctx: "ctxErr refusing_lib h c = None"
  by (simp add: refusing_lib_def)

theorem failed_start_is_remembered_witness:
  "\<exists>e s1 h1 s2 g1 s4 f1. Start refusing_lib (CtxOf 0) [ordersQueue] sample_sdk [] = (Some e, s1, h1)
     \<and> Start refusing_lib (CtxOf 0) [ordersQueue] s1 h1 = (None, s2, g1)
     \<and> startWithStoreQueuesFlag calm_lib (CtxOf 0) (queues s2) False sample_sdk [] = (None, s4, f1)
     \<and> queues s2 = [ordersQueue, ordersQueue] \<and> length (consumers 2 f1) = 2"
proof -
  have valid: "start_validate [ordersQueue] = None" "start_validate [ordersQueue, ordersQueue] = None"
    using example_queues_valid by (auto simp: start_validate_None ordersQueue_def)
  have nm: "Name ordersQueue = ''huma.orders''" by (simp add: ordersQueue_def)
  define s1 where "s1 = sample_sdk\<lparr>queues := [ordersQueue]\<rparr>"
  define h1 where "h1 = [EvCtxErr (CtxOf 0) None, EvCtxErr (CtxOf 0) None,
     EvConsume 2 (Name ordersQueue) (ConsumerTag (default_frequency ordersQueue)) False
       (Exclusive (default_frequency ordersQueue)) False (NoWait (default_frequency ordersQueue)) None (Inl AmqpErrClosed)]"
  have f: "Start refusing_lib (CtxOf 0) [ordersQueue] sample_sdk []
     = (Some (ErrWrap ''consume on rabbitmq channel encounter error'' AmqpErrClosed), s1, h1)"
    using valid
    by (simp add: Start_def startWithStoreQueuesFlag_def validateContext_def ctx_err_def ch_consume_def Let_def
        refusing_lib_def s1_def h1_def sample_sdk_def)
  have ch: "channel sample_sdk = 2" "queues sample_sdk = []" by (simp_all add: sample_sdk_def)
  obtain g1 where g1: "start_loop refusing_lib 2 [ordersQueue] (h1 @ [EvCtxErr (CtxOf 0) None, EvCtxErr (CtxOf 0) None]) = (None, g1)"
    using calm_start_loop [of 3 refusing_lib "h1 @ [EvCtxErr (CtxOf 0) None, EvCtxErr (CtxOf 0) None]" 2 "[ordersQueue]"]
    by (auto simp: refusing_lib_def h1_def simp del: start_loop.simps)
  then have g: "Start refusing_lib (CtxOf 0) [ordersQueue] s1 h1 = (None, s1\<lparr>queues := [ordersQueue, ordersQueue]\<rparr>, g1)"
    using valid
    by (simp add: Start_def startWithStoreQueuesFlag_def validateContext_def ctx_err_def Let_def
        refusing_ctx s1_def ch del: start_loop.simps start_validate.simps)
  obtain f1 where r: "startWithStoreQueuesFlag calm_lib (CtxOf 0) [ordersQueue, ordersQueue] False sample_sdk [] = (None, sample_sdk, f1)"
    using calm_start_loop [of 0 calm_lib "[EvCtxErr (CtxOf 0) None]" 2 "[ordersQueue, ordersQueue]"] valid
    by (auto simp: startWithStoreQueuesFlag_def ctx_err_def Let_def ch simp del: start_loop.simps)
  have "consumers (channel sample_sdk) h1 \<noteq> consumers (channel sample_sdk) []"
    by (simp add: h1_def ch)
  from failed_start_is_remembered [OF f this g, of calm_lib "CtxOf 0" sample_sdk "[]" sample_sdk f1] r f g ch
  show ?thesis by auto
qed

end
