(* ===== verification/Metric_Counts.thy ===== *)
theory Metric_Counts
  imports Consume
begin

text \<open>
  What the metrics tell: the counters a worker and a publisher record (\<^verbatim>\<open>metrics.go\<close>, called from
  \<^verbatim>\<open>rabbitmqsdk.go\<close>) against what really happened, as the history of calls shows it. The
  ratios and rates of the documentation are computed from these counters.
\<close>

section \<open>Counting\<close>

definition tally :: "(event \<Rightarrow> bool) \<Rightarrow> hist \<Rightarrow> nat" where
  "tally P es = length (filter P es)"

text \<open>A metric of a family with the queue as its first label value.\<close>

fun recorded :: "family \<Rightarrow> string \<Rightarrow> event \<Rightarrow> bool" where
  "recorded f q (EvMetric g (v # _) _) = (f = g \<and> v = q)"
| "recorded f q _ = False"

fun settled_ok :: "event \<Rightarrow> bool" where
  "settled_ok (EvAck _ _ None) = True"
| "settled_ok (EvNack _ _ _ None) = True"
| "settled_ok _ = False"

fun handler_ok :: "event \<Rightarrow> bool" where
  "handler_ok (EvHandler _ _ _ _ HandlerOk) = True"
| "handler_ok _ = False"

fun message_in :: "QueueConfig \<Rightarrow> event \<Rightarrow> bool" where
  "message_in q (EvWorker _ (GotDelivery d)) = (\<not> (DummyMessageEnabled q \<and> isHeartbeatDummyMessage d))"
| "message_in q _ = False"

fun heartbeat_in :: "QueueConfig \<Rightarrow> event \<Rightarrow> bool" where
  "heartbeat_in q (EvWorker _ (GotDelivery d)) = (DummyMessageEnabled q \<and> isHeartbeatDummyMessage d)"
| "heartbeat_in q _ = False"

text \<open>
  The numbers of one worker: the four metrics of its queue, the settlements the broker accepted, the
  handler calls that succeeded, and the messages and heartbeats received.
\<close>

definition indicators :: "QueueConfig \<Rightarrow> (event \<Rightarrow> bool) list" where
  "indicators q = [recorded MessagesReceived (Name q), recorded ProcessingDuration (Name q),
     recorded MessagesAcked (Name q), recorded MessagesNacked (Name q),
     settled_ok, handler_ok, message_in q, heartbeat_in q]"

definition stats :: "QueueConfig \<Rightarrow> hist \<Rightarrow> nat list" where
  "stats q es = map (\<lambda>P. tally P es) (indicators q)"

lemma tally_simps [simp]:
  "tally P [] = 0" "tally P (e # es) = of_bool (P e) + tally P es" "tally P (xs @ ys) = tally P xs + tally P ys"
  by (simp_all add: tally_def)

lemma stats_Nil [simp]: "stats q [] = [0, 0, 0, 0, 0, 0, 0, 0]"
  by (simp add: stats_def indicators_def)

lemma stats_append: "stats q (xs @ ys) = map2 (+) (stats q xs) (stats q ys)"
  by (simp add: stats_def indicators_def)

lemma stats_Cons: "stats q (e # es) = map2 (+) (map (\<lambda>P. of_bool (P e)) (indicators q)) (stats q es)"
  by (simp add: stats_def indicators_def)

lemma publish_event_uncounted:
  assumes "publish_event e"
  shows "\<not> recorded f q e" "\<not> settled_ok e" "\<not> handler_ok e" "\<not> message_in k e" "\<not> heartbeat_in k e"
  using assms by (cases e; simp add: publish_event_def)+

lemma stats_publish: "list_all publish_event es \<Longrightarrow> stats q es = [0, 0, 0, 0, 0, 0, 0, 0]"
  by (induction es) (simp_all add: stats_Cons indicators_def publish_event_uncounted)

lemma stats_grows: "grows publish_event h h' \<Longrightarrow> \<exists>es. h' = h @ es \<and> stats q es = [0, 0, 0, 0, 0, 0, 0, 0]"
  by (auto simp: grows_def stats_publish)

lemmas count_simps = stats_append stats_Cons indicators_def prom_defs

section \<open>One delivery\<close>

lemma pool_only_metrics: "s'\<lparr>publisherPool := x\<rparr> = s \<Longrightarrow> sdk_metrics s' = sdk_metrics s"
  by auto

lemma nack_stats:
  assumes "sdk_metrics s = PrometheusMetrics m"
  shows "\<exists>es k. nack_delivery L c d q rq s h = (Returns s, h @ es) \<and> k \<le> 1 \<and> stats q es = [0, 0, 0, k, k, 0, 0, 0]"
  using assms
  by (cases "dNack L h (d_DeliveryTag d)") (auto simp: nack_delivery_def d_nack_def Let_def count_simps)

lemma ack_stats:
  assumes "sdk_metrics s = PrometheusMetrics m"
  shows "\<exists>es a. (case d_ack L d False h of (Some e, h1) \<Rightarrow> h1 | (None, h1) \<Rightarrow> IncMessagesAcked (sdk_metrics s) c (Name q) h1) = h @ es
     \<and> a \<le> 1 \<and> stats q es = [0, 0, a, 0, a, 0, 0, 0]"
  using assms by (cases "dAck L h (d_DeliveryTag d)") (auto simp: d_ack_def Let_def count_simps)

text \<open>A failed delivery counts as rejected exactly when the broker took the settlement.\<close>

lemma failure_stats:
  assumes "sdk_metrics s = PrometheusMetrics m" "sdk_pool_ok n s"
  shows "\<exists>s' es k. handleDeliveryFailure L c d q s h = (Returns s', h @ es) \<and> k \<le> 1
     \<and> stats q es = [0, 0, 0, k, k, 0, 0, 0] \<and> sdk_metrics s' = sdk_metrics s"
proof (cases "0 < MaxRedelivery q \<and> deliveryRetryCount (d_Headers d) < MaxRedelivery q")
  case False
  then show ?thesis
    using nack_stats [OF assms(1), of L c d q "MaxRedelivery q = 0" h]
    by (auto simp: handleDeliveryFailure_def Let_def)
next
  case True
  let ?pub = "retry_publishing d (retry_headers (d_Headers d) (deliveryRetryCount (d_Headers d)))"
  obtain e s' h1 where p: "publishAMQP L c (d_Exchange d) (d_RoutingKey d) ?pub s h = (Returns (e, s'), h1)"
    "s'\<lparr>publisherPool := publisherPool s\<rparr> = s" "grows publish_event h h1"
    using publishAMQP_spec [OF assms(2)] by blast
  obtain ps where h1: "h1 = h @ ps" "stats q ps = [0, 0, 0, 0, 0, 0, 0, 0]" using stats_grows [OF p(3)] by blast
  have m: "sdk_metrics s' = sdk_metrics s" using p(2) by (rule pool_only_metrics)
  show ?thesis
  proof (cases e)
    case None
    then show ?thesis
      using True p(1) h1 m assms(1)
      by (cases "dAck L h1 (d_DeliveryTag d)")
        (auto simp: handleDeliveryFailure_def d_ack_def Let_def count_simps)
  next
    case (Some x)
    obtain es k where "nack_delivery L c d q True s' h1 = (Returns s', h1 @ es)" "k \<le> 1"
      "stats q es = [0, 0, 0, k, k, 0, 0, 0]"
      using nack_stats [of s' m] m assms(1) by metis
    then show ?thesis
      using True p(1) h1 m Some
      by (auto simp: handleDeliveryFailure_def Let_def stats_append)
  qed
qed

text \<open>
  One processed message: timed once, counted as acknowledged only if the handler succeeded, as rejected
  only if it did not, and as one of the two exactly when the broker took the settlement.
\<close>

lemma process_stats:
  assumes m: "sdk_metrics s = PrometheusMetrics m" and ok: "sdk_pool_ok n s"
  shows "\<exists>s' es a k j. processDelivery L c d q span s h = (Returns s', h @ es)
     \<and> stats q es = [0, 1, a, k, a + k, j, 0, 0] \<and> a \<le> j \<and> k + j \<le> 1"
proof -
  define st where "st = timeNow L h"
  let ?h1 = "h @ [EvNow st]"
  have t: "now L h = (st, ?h1)" by (simp add: now_def st_def Let_def)
  have obs: "sdk_metrics u = PrometheusMetrics m \<Longrightarrow>
    \<exists>es. observe_duration L c q st u g = g @ es \<and> stats q es = [0, 1, 0, 0, 0, 0, 0, 0]" for u g
    by (auto simp: observe_duration_def now_def Let_def count_simps)
  have rec: "\<exists>es. record_span span e g = g @ es \<and> stats q es = [0, 0, 0, 0, 0, 0, 0, 0]" for e g
    by (auto simp: record_span_def count_simps)
  obtain r h2 where r: "run_handler L c d q ?h1 = (r, h2)" by fastforce
  obtain hs where hs: "h2 = ?h1 @ hs" "stats q hs = [0, 0, 0, 0, 0, of_bool (r = HandlerOk), 0, 0]"
    using r by (cases rule: run_handler_cases [of L c d q ?h1]; cases r) (auto simp: count_simps)
  show ?thesis
  proof (cases r)
    case (HandlerPanic p)
    obtain es1 where 1: "observe_duration L c q st s h2 = h2 @ es1" "stats q es1 = [0, 1, 0, 0, 0, 0, 0, 0]"
      using obs [OF m] by blast
    obtain es2 where 2: "record_span span (ErrNew (''handler panic: '' @ p)) (h2 @ es1) = (h2 @ es1) @ es2"
      "stats q es2 = [0, 0, 0, 0, 0, 0, 0, 0]" using rec by blast
    obtain s' es3 k where 3: "handleDeliveryFailure L c d q s ((h2 @ es1) @ es2) = (Returns s', ((h2 @ es1) @ es2) @ es3)"
      "k \<le> 1" "stats q es3 = [0, 0, 0, k, k, 0, 0, 0]" using failure_stats [OF m ok] by blast
    have "processDelivery L c d q span s h = (Returns s', h @ EvNow st # hs @ es1 @ es2 @ es3)"
      using t r HandlerPanic 1(1) 2(1) 3(1) hs(1) by (simp add: processDelivery_def recover_panic_def)
    moreover have "stats q (EvNow st # hs @ es1 @ es2 @ es3) = [0, 1, 0, k, 0 + k, 0, 0, 0]"
      using hs(2) HandlerPanic 1(2) 2(2) 3(3) by (simp add: count_simps)
    ultimately show ?thesis using 3(2) by (metis add_0 add.right_neutral le_refl)
  next
    case (HandlerErr e)
    obtain es1 where 1: "record_span span e h2 = h2 @ es1" "stats q es1 = [0, 0, 0, 0, 0, 0, 0, 0]"
      using rec by blast
    obtain s' es2 k where 2: "handleDeliveryFailure L c d q s (h2 @ es1) = (Returns s', (h2 @ es1) @ es2)"
      "k \<le> 1" "stats q es2 = [0, 0, 0, k, k, 0, 0, 0]" "sdk_metrics s' = sdk_metrics s"
      using failure_stats [OF m ok] by blast
    obtain es3 where 3: "observe_duration L c q st s' ((h2 @ es1) @ es2) = ((h2 @ es1) @ es2) @ es3"
      "stats q es3 = [0, 1, 0, 0, 0, 0, 0, 0]" using obs 2(4) m by metis
    have "processDelivery L c d q span s h = (Returns s', h @ EvNow st # hs @ es1 @ es2 @ es3)"
      using t r HandlerErr 1(1) 2(1) 3(1) hs(1) by (simp add: processDelivery_def)
    moreover have "stats q (EvNow st # hs @ es1 @ es2 @ es3) = [0, 1, 0, k, 0 + k, 0, 0, 0]"
      using hs(2) HandlerErr 1(2) 2(3) 3(2) by (simp add: count_simps)
    ultimately show ?thesis using 2(2) by (metis add_0 add.right_neutral le_refl)
  next
    case HandlerOk
    obtain es1 a where 1: "(case d_ack L d False h2 of (Some e, h3) \<Rightarrow> h3 | (None, h3) \<Rightarrow> IncMessagesAcked (sdk_metrics s) c (Name q) h3) = h2 @ es1"
      "a \<le> 1" "stats q es1 = [0, 0, a, 0, a, 0, 0, 0]"
      using ack_stats [OF m] by blast
    obtain es2 where 2: "observe_duration L c q st s (h2 @ es1) = (h2 @ es1) @ es2" "stats q es2 = [0, 1, 0, 0, 0, 0, 0, 0]"
      using obs [OF m] by blast
    have "processDelivery L c d q span s h = (Returns s, h @ EvNow st # hs @ es1 @ es2)"
      using t r HandlerOk 1(1) 2(1) hs(1) by (simp add: processDelivery_def split: prod.splits option.splits)
    moreover have "stats q (EvNow st # hs @ es1 @ es2) = [0, 1, a, 0, a + 0, 1, 0, 0]"
      using hs(2) HandlerOk 1(3) 2(2) by (simp add: count_simps)
    ultimately show ?thesis using 1(2) by (metis add_0 le_refl)
  qed
qed

section \<open>A worker\<close>

text \<open>
  The books of a worker balance: every message received was counted and timed once; no more were counted
  as acknowledged than the handler accepted, no more as rejected than it did not; and the two counters
  together are the settlements the broker took, those of heartbeats apart.
\<close>

fun balanced :: "nat list \<Rightarrow> bool" where
  "balanced [r, t, a, k, s, j, i, b] =
     (r = i \<and> t = i \<and> a \<le> j \<and> k + j \<le> i \<and> a + k \<le> s \<and> s \<le> a + k + b)"
| "balanced _ = False"

definition books :: "QueueConfig \<Rightarrow> hist \<Rightarrow> hist \<Rightarrow> bool" where
  "books q h h' \<longleftrightarrow> (\<exists>es. h' = h @ es \<and> balanced (stats q es))"

lemma balanced_append:
  assumes "balanced (stats q xs)" "balanced (stats q ys)"
  shows "balanced (stats q (xs @ ys))"
  using assms by (simp add: stats_def indicators_def)

lemma books_refl: "books q h h"
  by (simp add: books_def)

lemma books_trans: "books q h h1 \<Longrightarrow> books q h1 h2 \<Longrightarrow> books q h h2"
  by (auto simp: books_def balanced_append)

lemma books_event:
  assumes "stats q [e] = [0, 0, 0, 0, 0, 0, 0, 0]"
  shows "books q h (h @ [e])"
  using assms by (auto simp: books_def)

lemma consume_context_stats:
  "\<exists>c' sp es. consume_context L c d s h = (c', sp, h @ es) \<and> stats q es = [0, 0, 0, 0, 0, 0, 0, 0]"
  by (auto simp: consume_context_def Let_def count_simps)

lemma consume_delivery_books:
  assumes m: "sdk_metrics s = PrometheusMetrics m" and ok: "sdk_pool_ok n s" and w: "worker_queue q"
  shows "\<exists>s' h'. consume_delivery L c d q s (h @ [EvWorker r (GotDelivery d)]) = (Returns s', h') \<and> books q h h'"
proof (cases "DummyMessageEnabled q \<and> isHeartbeatDummyMessage d")
  case True
  then show ?thesis
    using w by (cases "dAck L (h @ [EvWorker r (GotDelivery d)]) (d_DeliveryTag d)")
      (auto simp: consume_delivery_def d_ack_def ticker_reset_def worker_queue_def Let_def books_def count_simps)
next
  case False
  let ?h = "h @ [EvWorker r (GotDelivery d)]"
  obtain c' sp es1 where 1: "consume_context L c d s ?h = (c', sp, ?h @ es1)"
    "stats q es1 = [0, 0, 0, 0, 0, 0, 0, 0]" using consume_context_stats by blast
  let ?e = "EvMetric MessagesReceived (Name q # extraLabel m c') 1"
  have inc: "IncMessagesReceived (sdk_metrics s) c' (Name q) (?h @ es1) = (?h @ es1) @ [?e]"
    using m by (simp add: prom_defs)
  obtain s' es2 a k j where 2: "processDelivery L c' d q sp s ((?h @ es1) @ [?e]) = (Returns s', ((?h @ es1) @ [?e]) @ es2)"
    "stats q es2 = [0, 1, a, k, a + k, j, 0, 0]" "a \<le> j" "k + j \<le> 1"
    using process_stats [OF m ok] by blast
  let ?es = "EvWorker r (GotDelivery d) # es1 @ ?e # es2 @ (if sp then [EvSpanEnd] else [])"
  have "consume_delivery L c d q s ?h = (Returns s', h @ ?es)"
    using False 1(1) inc 2(1) by (auto simp: consume_delivery_def)
  moreover have "balanced (stats q ?es)"
    using False 1(2) 2(2-4) by (simp add: count_simps)
  ultimately show ?thesis by (auto simp: books_def)
qed

lemma consume_tick_books:
  assumes ok: "sdk_pool_ok n s" and w: "worker_queue q"
  shows "\<exists>s' h'. consume_tick L c q s (h @ [EvWorker r HeartbeatTick]) = (Returns s', h') \<and> books q h h'"
proof -
  let ?h = "h @ [EvWorker r HeartbeatTick]"
  obtain e s' h1 where p: "publishAMQP L c [] (Name q) heartBeatMSG s ?h = (Returns (e, s'), h1)" "grows publish_event ?h h1"
    using publishAMQP_spec [OF ok] by blast
  obtain es where "h1 = ?h @ es" "stats q es = [0, 0, 0, 0, 0, 0, 0, 0]" using stats_grows [OF p(2)] by blast
  with p(1) w show ?thesis
    by (auto simp: consume_tick_def ticker_reset_def worker_queue_def books_def count_simps)
qed

lemma consume_loop_books:
  assumes "sdk_metrics s = PrometheusMetrics m" "sdk_pool_ok n s" "worker_queue q"
  shows "\<exists>w h'. consume_loop L k c msgs q s h = (Returns w, h') \<and> books q h h'"
  using assms(1,2)
proof (induction k arbitrary: s h)
  case (Suc k)
  define ev where "ev = workerSelect L h msgs"
  let ?h1 = "h @ [EvWorker msgs ev]"
  have sel: "worker_select L msgs h = (ev, ?h1)" by (simp add: worker_select_def ev_def Let_def)
  have go: "\<exists>w h'. consume_loop L k c msgs q s' h2 = (Returns w, h') \<and> books q h h'"
    if "sdk_pool_ok n s'" "s'\<lparr>publisherPool := publisherPool s\<rparr> = s" "books q h h2" for s' h2
    using Suc.IH [of s' h2] that Suc.prems(1) pool_only_metrics [OF that(2)] books_trans [OF that(3)] by auto
  have quiet: "books q h ?h1" if "\<And>d. ev \<noteq> GotDelivery d"
    using that by (intro books_event) (cases ev; auto simp: count_simps)
  show ?case
  proof (cases ev)
    case (GotDelivery d)
    then show ?thesis
      using sel go consume_delivery_spec [OF Suc.prems(2) assms(3), of L c d h msgs]
        consume_delivery_books [OF Suc.prems assms(3), of L c d h msgs] by fastforce
  next
    case HeartbeatTick
    then show ?thesis
      using sel quiet go [OF Suc.prems(2), of ?h1] go consume_tick_spec [OF Suc.prems(2) assms(3), of L c h msgs]
        consume_tick_books [OF Suc.prems(2) assms(3), of L c h msgs]
      by (cases "DummyMessageEnabled q") fastforce+
  qed (use sel quiet in auto)
qed (simp add: books_refl)

lemma consume_books:
  assumes "sdk_metrics s = PrometheusMetrics m" "sdk_pool_ok n s" "worker_queue q"
  shows "\<exists>w h'. consume L k c msgs q s h = (Returns w, h') \<and> books q h h'"
proof -
  have t: "books q h (h @ [EvTickerNew f])" "books q h (h @ [EvTickerStop])" for f h
    by (rule books_event, simp add: count_simps)+
  obtain w h' where "consume_loop L k c msgs q s (h @ [EvTickerNew (DummyMessageFrequency q)]) = (Returns w, h')"
    "books q (h @ [EvTickerNew (DummyMessageFrequency q)]) h'"
    using consume_loop_books [OF assms] by blast
  then have "DummyMessageEnabled q \<Longrightarrow> ?thesis"
    using assms(3) books_trans [OF t(1)] books_trans [OF _ t(2)]
    by (cases w) (auto simp: consume_def worker_queue_def)
  with consume_loop_books [OF assms, of L k c msgs h] show ?thesis
    by (auto simp: consume_def)
qed

section \<open>A publisher\<close>

text \<open>
  Publishing under the label \<open>l\<close>: successes are the positive confirmations, an error is counted at
  most once, and a message that was sent is counted one way or the other.
\<close>

definition published_books :: "string \<Rightarrow> err option \<Rightarrow> hist \<Rightarrow> hist \<Rightarrow> bool" where
  "published_books l e h h' \<longleftrightarrow> (\<exists>es. h' = h @ es
     \<and> tally (recorded PublishSuccess l) es = length (confirmed es)
     \<and> length (sent es) \<le> tally (recorded PublishSuccess l) es + tally (recorded PublishFailed l) es
     \<and> tally (recorded PublishFailed l) es \<le> of_bool (e \<noteq> None))"

definition unmetered :: "event \<Rightarrow> bool" where
  "unmetered e \<longleftrightarrow> \<not> is_metric e"

lemma unmetered_tally: "list_all unmetered es \<Longrightarrow> tally (recorded f l) es = 0"
proof (induction es)
  case (Cons e es)
  then show ?case by (cases e) (simp_all add: unmetered_def)
qed simp

lemma publish_unmetered: "grows publish_event h h' \<Longrightarrow> grows unmetered h h'"
  by (erule grows_mono) (auto simp: publish_event_def unmetered_def elim!: is_metric.elims)

lemma pool_unmetered: "grows pool_event h h' \<Longrightarrow> grows unmetered h h'"
  by (rule publish_unmetered) (rule grows_pool_publish)

lemma msg_validate_unmetered: "grows unmetered h (snd (msg_validate L mp h))"
  by (auto simp: msg_validate_def now_def Let_def grows_def unmetered_def split: option.splits)

lemma published_books_error: "published_books l (Some a) h h' \<Longrightarrow> published_books l (Some b) h h'"
  by (simp add: published_books_def)

text \<open>A refusal before anything is sent is not counted at all.\<close>

lemma published_books_refused:
  assumes "grows silent h h'" "grows unmetered h h'"
  shows "published_books l (Some x) h h'"
  using assms by (auto simp: published_books_def grows_def silent_list unmetered_tally)

lemma published_books_sent:
  assumes h2: "grows silent h h2" "grows unmetered h h2"
    and p: "publish_result x k pub e h2 h3" "grows publish_event h2 h3"
  shows "published_books l e h (h3 @ [EvMetric (if e = None then PublishSuccess else PublishFailed) (l # ls) v])"
proof -
  obtain es es' where es: "h2 = h @ es" "h3 = h2 @ es'" "list_all silent es" "list_all unmetered es" "list_all unmetered es'"
    using h2 publish_unmetered [OF p(2)] by (auto simp: grows_def)
  then show ?thesis
    using p(1) by (cases e) (auto simp: published_books_def publish_result_def silent_list unmetered_tally)
qed

lemma Publish_books:
  assumes "sdk_metrics s = PrometheusMetrics m" "sdk_pool_ok n s"
  shows "\<exists>e M' s' h'. Publish L c x k msg M s h = (Returns (e, M', s'), h') \<and> published_books (chooseQueueNameLabel x k) e h h'"
proof -
  obtain v h1 where v: "validateContext L c h = (v, h1)" by fastforce
  have g1: "grows silent h h1" "grows unmetered h h1"
    using validateContext_grows [of h L c] v by (auto intro: grows_pool_silent pool_unmetered)
  obtain r h2 where r: "msg_validate L (map_option M msg) h1 = (r, h2)" by fastforce
  have g2: "grows silent h h2" "grows unmetered h h2"
    using g1 msg_validate_grows [of h1 L "map_option M msg"] msg_validate_unmetered [of h1 L "map_option M msg"] r
    by (auto intro: grows_trans)
  show ?thesis
  proof (cases "v \<noteq> None \<or> (\<exists>e. r = Inl e)")
    case True
    with v r show ?thesis
      using published_books_refused [OF g1] published_books_refused [OF g2] by (cases v) (auto simp: Publish_def)
  next
    case False
    then obtain m' where m': "r = Inr m'" by (cases r) auto
    have "m_Headers m' \<noteq> None" using msg_validate_ready r m' by (auto simp: msg_ready_def)
    then obtain t where t: "trace_headers L s c (m_Headers m') h2 = (Returns (Some t), h2)"
      using trace_headers_returns by blast
    let ?pub = "the_publishing (final_headers s c (Some t)) (m'\<lparr>m_Headers := Some t\<rparr>)"
    obtain e s' h3 where p: "publishAMQP L c x k ?pub s h2 = (Returns (e, s'), h3)"
      "publish_result x k ?pub e h2 h3" "grows publish_event h2 h3"
      using publishAMQP_spec [OF assms(2)] by blast
    from published_books_sent [OF g2 p(2,3)] v r m' t p(1) assms(1) False show ?thesis
      by (cases e) (auto simp: Publish_def Let_def prom_defs intro: published_books_error)
  qed
qed

lemma published_books_trans:
  "published_books l None h h1 \<Longrightarrow> published_books l e h1 h2 \<Longrightarrow> published_books l e h h2"
  by (fastforce simp: published_books_def)

lemma batch_books:
  assumes "sdk_metrics s = PrometheusMetrics m" "sdk_pool_ok n s"
  shows "\<exists>e M' s' h'. batch_loop L c x k msgs M s h = (Returns (e, M', s'), h') \<and> published_books (chooseQueueNameLabel x k) e h h'"
  using assms
proof (induction msgs arbitrary: M s h)
  case Nil
  then show ?case by (simp add: published_books_def)
next
  case (Cons msg msgs)
  obtain e M1 s1 h1 where P: "Publish L c x k msg M s h = (Returns (e, M1, s1), h1)" "sdk_pool_ok n s1"
    "s1\<lparr>publisherPool := publisherPool s\<rparr> = s"
    using Publish_spec [OF Cons.prems(2)] by blast
  have b: "published_books (chooseQueueNameLabel x k) e h h1" using Publish_books [OF Cons.prems, of L c x k msg M h] P(1) by auto
  show ?case
  proof (cases e)
    case None
    have "sdk_metrics s1 = PrometheusMetrics m" using pool_only_metrics [OF P(3)] Cons.prems(1) by simp
    from Cons.IH [OF this P(2), of M1 h1] P(1) b None show ?thesis by (auto intro: published_books_trans)
  qed (use P(1) b in auto)
qed

section \<open>Properties\<close>

text \<open>The sample SDK with the Prometheus metrics, as \<^verbatim>\<open>NewSDK\<close> installs them by default.\<close>

definition metered_sdk :: SDK where
  "metered_sdk = sample_sdk\<lparr>sdk_metrics := PrometheusMetrics \<lparr>namespace = ''huma'', labels = [''queue_name''], labelName = [], labelValue = None\<rparr>\<rparr>"

lemma metered_sdk_ok:
  "sdk_pool_ok 0 metered_sdk"
  "sdk_metrics metered_sdk = PrometheusMetrics \<lparr>namespace = ''huma'', labels = [''queue_name''], labelName = [], labelValue = None\<rparr>"
  using sample_sdk_pool_ok by (simp_all add: metered_sdk_def sdk_pool_ok_def)

text \<open>
  C35: the metrics of a worker tell what happened, over any number of rounds and whatever the handler
  and the broker do. Every message received, heartbeats apart, is counted once and timed once. The
  counter of acknowledged messages never exceeds the handler's successes, and that of rejected
  messages never exceeds the messages whose handler failed or panicked; together they count the
  settlements the broker accepted, so that on a queue without heartbeats the two agree exactly.
\<close>

theorem worker_metrics_add_up:
  assumes "sdk_metrics s = PrometheusMetrics m" "sdk_pool_ok n s" "queue_validate q0 = None" "q = default_frequency q0"
  shows "\<exists>w es. consume L k c msgs q s h = (Returns w, h @ es)
     \<and> tally (recorded MessagesReceived (Name q)) es = tally (message_in q) es
     \<and> tally (recorded ProcessingDuration (Name q)) es = tally (message_in q) es
     \<and> tally (recorded MessagesAcked (Name q)) es \<le> tally handler_ok es
     \<and> tally (recorded MessagesNacked (Name q)) es + tally handler_ok es \<le> tally (message_in q) es
     \<and> tally (recorded MessagesAcked (Name q)) es + tally (recorded MessagesNacked (Name q)) es \<le> tally settled_ok es
     \<and> tally settled_ok es \<le> tally (recorded MessagesAcked (Name q)) es
           + tally (recorded MessagesNacked (Name q)) es + tally (heartbeat_in q) es"
  using consume_books [OF assms(1,2), of q L k c msgs h] default_worker_queue [OF assms(3)] assms(4)
  by (auto simp: books_def stats_def indicators_def)

lemma one_delivery_counted:
  "tally (message_in (default_frequency ordersQueue))
     (snd (consume one_delivery_lib 5 (CtxOf 0) 7 (default_frequency ordersQueue) metered_sdk [])) = 1"
  by code_simp

theorem worker_metrics_add_up_witness:
  "\<exists>w es. consume one_delivery_lib 5 (CtxOf 0) 7 (default_frequency ordersQueue) metered_sdk [] = (Returns w, es)
     \<and> tally (message_in (default_frequency ordersQueue)) es = 1
     \<and> tally (recorded MessagesReceived ''huma.orders'') es = 1
     \<and> tally (recorded MessagesAcked ''huma.orders'') es \<le> tally handler_ok es"
proof -
  have "Name (default_frequency ordersQueue) = ''huma.orders''" by (simp add: ordersQueue_def)
  then show ?thesis
    using worker_metrics_add_up [OF metered_sdk_ok(2,1) example_queues_valid(1) refl, of one_delivery_lib 5 "CtxOf 0" 7 "[]"]
      one_delivery_counted
    by auto
qed

text \<open>
  C36: the metrics of a publisher tell what happened. A batch (or a single message) raises the success
  counter of its label by exactly the messages RabbitMQ confirmed and the failure counter by at most
  one, and not at all when nil is returned; every message that was sent is counted in one of the two.
\<close>

theorem publish_metrics_add_up:
  assumes "sdk_metrics s = PrometheusMetrics m" "sdk_pool_ok n s"
  shows "\<exists>e M' s' es. BatchPublish L c x k msgs M s h = (Returns (e, M', s'), h @ es)
     \<and> tally (recorded PublishSuccess (chooseQueueNameLabel x k)) es = length (confirmed es)
     \<and> tally (recorded PublishFailed (chooseQueueNameLabel x k)) es \<le> of_bool (e \<noteq> None)
     \<and> length (sent es) \<le> tally (recorded PublishSuccess (chooseQueueNameLabel x k)) es
           + tally (recorded PublishFailed (chooseQueueNameLabel x k)) es"
proof -
  obtain v h1 where v: "validateContext L c h = (v, h1)" by fastforce
  have g: "grows silent h h1" "grows unmetered h h1"
    using validateContext_grows [of h L c] v by (auto intro: grows_pool_silent pool_unmetered)
  have "\<exists>e M' s' h'. BatchPublish L c x k msgs M s h = (Returns (e, M', s'), h') \<and> published_books (chooseQueueNameLabel x k) e h h'"
  proof (cases v)
    case None
    have "published_books (chooseQueueNameLabel x k) None h h1"
      using g by (auto simp: published_books_def grows_def silent_list unmetered_tally)
    with None v batch_books [OF assms, of L c x k msgs M h1] show ?thesis
      by (auto simp: BatchPublish_def intro: published_books_trans)
  qed (use v published_books_refused [OF g] in \<open>auto simp: BatchPublish_def\<close>)
  then show ?thesis by (fastforce simp: published_books_def)
qed

theorem publish_metrics_add_up_witness:
  "\<exists>e M' s' es. BatchPublish calm_lib (CtxOf 0) [] ''q'' [Some 0, None] sample_heap metered_sdk [] = (Returns (e, M', s'), es)
     \<and> tally (recorded PublishSuccess ''q'') es = length (confirmed es)"
  using publish_metrics_add_up [OF metered_sdk_ok(2,1), of calm_lib "CtxOf 0" "[]" "''q''" "[Some 0, None]" sample_heap "[]"]
  by (auto simp: chooseQueueNameLabel_def)

end
