(* ===== verification/Connection.thy ===== *)
theory Connection
  imports Sdk_State
begin

text \<open>
  Connecting: the connection URL that \<^verbatim>\<open>NewSDK\<close> builds with \<^verbatim>\<open>net/url\<close>, the methods of
  \<^verbatim>\<open>connectionState\<close> and the dial function of \<^verbatim>\<open>rabbitmqsdk.go\<close>. The lemmas show that
  no user name or password can change the structure of the URL, and what a dial leaves behind.
\<close>

section \<open>The connection URL\<close>

text \<open>\<^verbatim>\<open>shouldEscape\<close> of \<^verbatim>\<open>net/url\<close> in its user-password and host modes.\<close>

definition alnum :: "char \<Rightarrow> bool" where
  "alnum c = (let n = (of_char c :: nat)
     in (48 \<le> n \<and> n \<le> 57) \<or> (65 \<le> n \<and> n \<le> 90) \<or> (97 \<le> n \<and> n \<le> 122))"

definition userinfo_keeps :: "char \<Rightarrow> bool" where
  "userinfo_keeps c \<longleftrightarrow> alnum c \<or> c \<in> set ''-_.~$&+,;=''"

definition host_keeps :: "char \<Rightarrow> bool" where
  "host_keeps c \<longleftrightarrow> alnum c \<or> c \<in> set ''-_.~!$&()*+,;=:[]<>'' \<or> c = CHR 0x22 \<or> c = CHR 0x27"

definition upper_hex :: "nat \<Rightarrow> char" where
  "upper_hex d = (if d < 10 then char_of (48 + d) else char_of (55 + d))"

definition escape_char :: "(char \<Rightarrow> bool) \<Rightarrow> char \<Rightarrow> string" where
  "escape_char keeps c =
     (if keeps c then [c]
      else let n = (of_char c :: nat) in [CHR ''%'', upper_hex (n div 16), upper_hex (n mod 16)])"

definition escape :: "(char \<Rightarrow> bool) \<Rightarrow> string \<Rightarrow> string" where
  "escape keeps s = concat (map (escape_char keeps) s)"

text \<open>\<^verbatim>\<open>Userinfo.String\<close> of \<^verbatim>\<open>url.UserPassword\<close>, and \<^verbatim>\<open>URL.String\<close> with scheme, user and host.\<close>

definition userinfo_string :: "string \<Rightarrow> string \<Rightarrow> string" where
  "userinfo_string user pass =
     (if user \<noteq> [] \<or> pass \<noteq> [] then escape userinfo_keeps user @ '':'' @ escape userinfo_keeps pass else [])"

definition url_string :: "string \<Rightarrow> string \<Rightarrow> string \<Rightarrow> string \<Rightarrow> string" where
  "url_string scheme user pass host =
     scheme @ ''://'' @ userinfo_string user pass @ ''@'' @ escape host_keeps host"

definition connection_url :: "SDKConfig \<Rightarrow> string" where
  "connection_url cfg =
     url_string (if TLSConfig cfg \<noteq> None then ''amqps'' else ''amqp'') (Username cfg) (Password cfg) (Addr cfg)"

section \<open>connectionState\<close>

text \<open>The state is the raw connection it holds, if any; its mutex is in \<open>Connection_Races\<close>.\<close>

definition state_interrupt :: "lib \<Rightarrow> ctx \<Rightarrow> raw_ref option \<Rightarrow> hist \<Rightarrow> err option \<times> hist" where
  "state_interrupt L c st h =
     (case st of
        None \<Rightarrow> (None, h)
      | Some raw \<Rightarrow>
          (case now L h of (t, h1) \<Rightarrow>
             let deadline = (case ctxDeadline L h1 c of
                               Some cd \<Rightarrow> if cd < t then cd else t
                             | None \<Rightarrow> t)
             in case raw_set_deadline L raw deadline h1 of (e1, h2) \<Rightarrow>
                case raw_close L raw h2 of (e2, h3) \<Rightarrow> (errors_join [e1, e2], h3)))"

definition state_set :: "lib \<Rightarrow> ctx \<Rightarrow> raw_ref \<Rightarrow> raw_ref option \<Rightarrow> hist \<Rightarrow> raw_ref option \<times> hist" where
  "state_set L c raw st h =
     (case ctx_err L c h of
        (None, h1) \<Rightarrow> (Some raw, h1)
      | (Some _, h1) \<Rightarrow>
          (case state_interrupt L c (Some raw) h1 of (e, h2) \<Rightarrow>
             if is_other_err NetErrClosed e then (Some raw, snd (raw_close L raw h2)) else (Some raw, h2)))"

definition state_current :: "raw_ref option \<Rightarrow> raw_ref option" where
  "state_current st = st"

section \<open>Dialling\<close>

text \<open>The function \<^verbatim>\<open>NewSDK\<close> installs as \<^verbatim>\<open>connectionConfig.Dial\<close>.\<close>

definition dial :: "lib \<Rightarrow> ctx \<Rightarrow> duration \<Rightarrow> raw_ref option \<Rightarrow> hist \<Rightarrow> (err + raw_ref) \<times> raw_ref option \<times> hist" where
  "dial L sdkCtx dialTimeout st h =
     (case net_dial L sdkCtx dialTimeout h of (r, h1) \<Rightarrow>
        (case r of
           Inl e \<Rightarrow> (Inl e, st, h1)
         | Inr raw \<Rightarrow>
             (case now L h1 of (t, h2) \<Rightarrow>
                let deadline = (case ctxDeadline L h2 sdkCtx of
                                  Some cd \<Rightarrow> if cd < t + dialTimeout then cd else t + dialTimeout
                                | None \<Rightarrow> t + dialTimeout)
                in case raw_set_deadline L raw deadline h2 of (e, h3) \<Rightarrow>
                   (case e of
                      Some x \<Rightarrow> (case raw_close L raw h3 of (ce, h4) \<Rightarrow> (Inl (join_err x [ce]), st, h4))
                    | None \<Rightarrow> (case state_set L sdkCtx raw st h3 of (st', h4) \<Rightarrow> (Inr raw, st', h4))))))"

text \<open>
  \<^verbatim>\<open>amqp091.DialConfig\<close>, as its documentation has it: the URI is parsed, \<^verbatim>\<open>Config.Dial\<close> opens
  the network connection, the AMQP handshake makes a connection of it.
\<close>

definition DialConfig ::
  "lib \<Rightarrow> ctx \<Rightarrow> string \<Rightarrow> amqp_config \<Rightarrow> raw_ref option \<Rightarrow> hist \<Rightarrow> (err + conn_ref) \<times> raw_ref option \<times> hist" where
  "DialConfig L sdkCtx url config st h =
     (case dial_uri L url h of
        (Some e, h1) \<Rightarrow> (Inl e, st, h1)
      | (None, h1) \<Rightarrow>
          (case dial L sdkCtx (ac_dialTimeout config) st h1 of (r, st1, h2) \<Rightarrow>
             (case r of
                Inl e \<Rightarrow> (Inl e, st1, h2)
              | Inr raw \<Rightarrow> (case amqp_handshake L raw h2 of (c, h3) \<Rightarrow> (c, st1, h3)))))"

section \<open>Reading the URL back\<close>

text \<open>
  How \<^verbatim>\<open>net/url.Parse\<close> reads an absolute URL with an authority, which is how a client gets at its parts:
  control characters are refused; a fragment starts at the first \<^verbatim>\<open>#\<close> and a query at the first
  \<^verbatim>\<open>?\<close> before it; the scheme ends at the first colon; the authority follows the two slashes and ends at
  the next slash; the last at sign in it ends the user information, whose characters are
  checked and in which the first colon ends the user name; the host may end in a colon and a decimal
  port; then the escapes are resolved, in the host only those of bytes above ASCII and of the
  percent sign. The answer is the scheme, user name, password and host, whatever follows them; \<open>None\<close> if
  one of them is refused or the URL has another shape (no scheme, no authority, an IP literal in
  brackets).
\<close>

definition is_digit :: "char \<Rightarrow> bool" where
  "is_digit c = (let n = (of_char c :: nat) in 48 \<le> n \<and> n \<le> 57)"

definition is_letter :: "char \<Rightarrow> bool" where
  "is_letter c = (let n = (of_char c :: nat) in (65 \<le> n \<and> n \<le> 90) \<or> (97 \<le> n \<and> n \<le> 122))"

definition hex_value :: "char \<Rightarrow> nat option" where
  "hex_value c = (let n = (of_char c :: nat)
     in if 48 \<le> n \<and> n \<le> 57 then Some (n - 48)
        else if 97 \<le> n \<and> n \<le> 102 then Some (n - 87)
        else if 65 \<le> n \<and> n \<le> 70 then Some (n - 55)
        else None)"

fun unescape :: "bool \<Rightarrow> string \<Rightarrow> string option" where
  "unescape host [] = Some []"
| "unescape host (c # cs) =
     (if c = CHR ''%''
      then (case cs of
              a # b # ds \<Rightarrow>
                (case (hex_value a, hex_value b) of
                   (Some x, Some y) \<Rightarrow>
                     if host \<and> x < 8 \<and> \<not> (x = 2 \<and> y = 5) then None
                     else map_option (\<lambda>s. char_of (16 * x + y) # s) (unescape host ds)
                 | _ \<Rightarrow> None)
            | _ \<Rightarrow> None)
      else if host \<and> (of_char c :: nat) < 128 \<and> \<not> host_keeps c then None
      else map_option (\<lambda>s. c # s) (unescape host cs))"

definition is_ctl :: "char \<Rightarrow> bool" where
  "is_ctl c = (let n = (of_char c :: nat) in n < 32 \<or> n = 127)"

definition userinfo_valid :: "char \<Rightarrow> bool" where
  "userinfo_valid c \<longleftrightarrow> alnum c \<or> c \<in> set ''-._:~!$&()*+,;=%@'' \<or> c = CHR 0x27"

definition cut_before :: "char \<Rightarrow> string \<Rightarrow> string" where
  "cut_before c s = takeWhile (\<lambda>x. x \<noteq> c) s"

definition cut_after :: "char \<Rightarrow> string \<Rightarrow> string" where
  "cut_after c s = drop (Suc (length (cut_before c s))) s"

definition parse_userinfo :: "string \<Rightarrow> (string \<times> string) option" where
  "parse_userinfo s =
     (if \<not> list_all userinfo_valid s then None
      else (case (unescape False (cut_before (CHR '':'') s), unescape False (cut_after (CHR '':'') s)) of
              (Some u, Some p) \<Rightarrow> Some (u, p)
            | _ \<Rightarrow> None))"

definition parse_host :: "string \<Rightarrow> string option" where
  "parse_host s =
     (if s \<noteq> [] \<and> hd s = CHR ''['' \<or> \<not> list_all is_digit (cut_after (CHR '':'') s) then None else unescape True s)"

definition parse_authority :: "string \<Rightarrow> ((string \<times> string) \<times> string) option" where
  "parse_authority a =
     (let host = rev (cut_before (CHR ''@'') (rev a))
      in if CHR ''@'' \<notin> set a then map_option (\<lambda>h. (([], []), h)) (parse_host a)
         else (case (parse_host host, parse_userinfo (take (length a - Suc (length host)) a)) of
                 (Some h, Some up) \<Rightarrow> Some (up, h)
               | _ \<Rightarrow> None))"

definition parse_scheme :: "string \<Rightarrow> string option" where
  "parse_scheme u =
     (let s = cut_before (CHR '':'') u
      in if CHR '':'' \<in> set u \<and> s \<noteq> [] \<and> is_letter (hd s) \<and> list_all (\<lambda>c. alnum c \<or> c \<in> set ''+-.'') s
         then Some s else None)"

definition parse_url :: "string \<Rightarrow> (string \<times> (string \<times> string) \<times> string) option" where
  "parse_url raw =
     (if list_ex is_ctl raw then None
      else let u = cut_before (CHR ''#'') raw
           in case parse_scheme u of
                None \<Rightarrow> None
              | Some scheme \<Rightarrow>
                  (let rest = cut_before (CHR ''?'') (cut_after (CHR '':'') u)
                   in if take 2 rest \<noteq> ''//'' then None
                      else map_option (\<lambda>a. (scheme, a)) (parse_authority (cut_before (CHR ''/'') (drop 2 rest)))))"

lemma hex_value_upper: "d < 16 \<Longrightarrow> hex_value (upper_hex d) = Some d"
  by (auto simp: hex_value_def upper_hex_def of_char_of Let_def)

lemma unescape_escape_char:
  assumes "\<not> keeps (CHR ''%'')"
  shows "unescape False (escape_char keeps c @ s) = map_option (\<lambda>s. c # s) (unescape False s)"
proof (cases "keeps c")
  case True
  with assms have "c \<noteq> CHR ''%''" by auto
  with True show ?thesis by (simp add: escape_char_def)
next
  case False
  define n where "n = (of_char c :: nat)"
  have "n < 256" unfolding n_def by (rule nat_of_char_less_256)
  then have "hex_value (upper_hex (n div 16)) = Some (n div 16)" "hex_value (upper_hex (n mod 16)) = Some (n mod 16)"
    by (auto intro!: hex_value_upper)
  moreover have "char_of (16 * (n div 16) + n mod 16) = c" by (simp add: n_def)
  ultimately show ?thesis
    using False by (simp add: escape_char_def Let_def n_def [symmetric])
qed

lemma unescape_escape: "\<not> keeps (CHR ''%'') \<Longrightarrow> unescape False (escape keeps s) = Some s"
  by (induction s) (simp_all add: escape_def unescape_escape_char)

text \<open>Every character of an escaped string is one its mode keeps, a percent sign or a digit of an escape.\<close>

lemma upper_hex_alnum: "d < 16 \<Longrightarrow> alnum (upper_hex d)"
  by (auto simp: upper_hex_def alnum_def of_char_of Let_def)

lemma escape_chars: "x \<in> set (escape keeps s) \<Longrightarrow> keeps x \<or> x = CHR ''%'' \<or> alnum x"
proof (induction s)
  case (Cons c s)
  have "(of_char c :: nat) < 256" by (rule nat_of_char_less_256)
  then have "of_char c div 16 < (16 :: nat)" by (rule less_mult_imp_div_less [of _ 16 16, simplified])
  then have "alnum (upper_hex (of_char c div 16))" "alnum (upper_hex (of_char c mod 16))"
    by (auto intro!: upper_hex_alnum)
  with Cons show ?case by (auto simp: escape_def escape_char_def Let_def split: if_splits)
qed (simp add: escape_def)

lemma escape_avoids: "\<not> keeps x \<Longrightarrow> x \<noteq> CHR ''%'' \<Longrightarrow> \<not> alnum x \<Longrightarrow> x \<notin> set (escape keeps s)"
  using escape_chars by blast

lemma alnum_range: "alnum c \<Longrightarrow> 48 \<le> (of_char c :: nat) \<and> (of_char c :: nat) < 127"
  by (auto simp: alnum_def Let_def)

lemma not_alnum [simp]:
  "\<not> alnum (CHR '':'')" "\<not> alnum (CHR ''@'')" "\<not> alnum (CHR ''/'')" "\<not> alnum (CHR ''?'')" "\<not> alnum (CHR ''#'')"
  "\<not> alnum (CHR ''%'')"
  by (simp_all add: alnum_def Let_def)

lemma not_kept [simp]:
  "\<not> userinfo_keeps (CHR '':'')" "\<not> userinfo_keeps (CHR ''@'')" "\<not> userinfo_keeps (CHR ''/'')"
  "\<not> userinfo_keeps (CHR ''?'')" "\<not> userinfo_keeps (CHR ''#'')" "\<not> userinfo_keeps (CHR ''%'')"
  "\<not> host_keeps (CHR ''@'')" "\<not> host_keeps (CHR ''/'')" "\<not> host_keeps (CHR ''?'')" "\<not> host_keeps (CHR ''#'')"
  "\<not> host_keeps (CHR ''%'')"
  by (simp_all add: userinfo_keeps_def host_keeps_def)

lemma host_not_ctl: "host_keeps c \<Longrightarrow> \<not> is_ctl c"
  using alnum_range [of c] by (auto simp: host_keeps_def is_ctl_def Let_def)

lemma userinfo_not_ctl: "userinfo_keeps c \<or> c = CHR ''%'' \<or> alnum c \<Longrightarrow> \<not> is_ctl c \<and> userinfo_valid c"
  using alnum_range [of c] by (auto simp: userinfo_keeps_def userinfo_valid_def is_ctl_def Let_def)

lemma cut_before_absent: "x \<notin> set a \<Longrightarrow> cut_before x a = a"
  unfolding cut_before_def by (rule takeWhile_eq_all_conv [THEN iffD2]) auto

lemma cut_before_stop: "x \<notin> set a \<Longrightarrow> cut_before x (a @ x # b) = a"
  unfolding cut_before_def by (induction a) auto

lemma cut_after_stop: "x \<notin> set a \<Longrightarrow> cut_after x (a @ x # b) = b"
  by (simp add: cut_after_def cut_before_stop)

lemma cut_after_absent: "x \<notin> set a \<Longrightarrow> cut_after x a = []"
  by (simp add: cut_after_def cut_before_absent)

text \<open>A host name or an IPv4 address, with or without a port.\<close>

definition plain_address :: "string \<Rightarrow> bool" where
  "plain_address a \<longleftrightarrow> list_all host_keeps a \<and> (a = [] \<or> hd a \<noteq> CHR ''['') \<and> list_all is_digit (cut_after (CHR '':'') a)"

lemma escape_plain: "list_all keeps s \<Longrightarrow> escape keeps s = s"
  by (induction s) (simp_all add: escape_def escape_char_def)

lemma unescape_plain: "list_all host_keeps s \<Longrightarrow> unescape True s = Some s"
  by (induction s) auto

lemma userinfo_chars:
  "x \<in> set (userinfo_string user pass) \<Longrightarrow> userinfo_keeps x \<or> x = CHR ''%'' \<or> alnum x \<or> x = CHR '':''"
  using escape_chars [of x userinfo_keeps] by (auto simp: userinfo_string_def split: if_splits)

lemma parse_userinfo_string: "parse_userinfo (userinfo_string user pass) = Some (user, pass)"
proof -
  let ?u = "escape userinfo_keeps user" and ?p = "escape userinfo_keeps pass"
  have "userinfo_valid c" if "c \<in> set (userinfo_string user pass)" for c
    using userinfo_chars [OF that] userinfo_not_ctl [of c] by (elim disjE) (simp_all add: userinfo_valid_def)
  then have valid: "list_all userinfo_valid (userinfo_string user pass)" by (simp add: list_all_iff)
  have u: "CHR '':'' \<notin> set ?u" by (simp add: escape_avoids)
  show ?thesis
  proof (cases "user = [] \<and> pass = []")
    case True
    then show ?thesis by (simp add: parse_userinfo_def userinfo_string_def cut_before_def cut_after_def)
  next
    case False
    then have i: "userinfo_string user pass = ?u @ CHR '':'' # ?p" by (auto simp: userinfo_string_def)
    show ?thesis
      using valid cut_before_stop [OF u] cut_after_stop [OF u] by (simp add: parse_userinfo_def i unescape_escape)
  qed
qed

lemma parse_url_string:
  assumes scheme: "scheme = ''amqp'' \<or> scheme = ''amqps''" and host: "plain_address host"
  shows "parse_url (url_string scheme user pass host) = Some (scheme, (user, pass), host)"
proof -
  let ?i = "userinfo_string user pass"
  let ?a = "?i @ CHR ''@'' # host"
  have keeps: "\<And>c. c \<in> set host \<Longrightarrow> host_keeps c" using host by (auto simp: plain_address_def list_all_iff)
  have url: "url_string scheme user pass host = scheme @ CHR '':'' # ''//'' @ ?a"
    using host escape_plain by (simp add: url_string_def plain_address_def)
  have avoid: "x \<notin> set ?a" if "\<not> userinfo_keeps x" "\<not> host_keeps x" "\<not> alnum x" "x \<notin> set '':%@''" for x
    using that userinfo_chars [of x user pass] keeps [of x] by auto
  have no: "CHR ''#'' \<notin> set ?a" "CHR ''?'' \<notin> set ?a" "CHR ''/'' \<notin> set ?a" by (rule avoid; simp)+
  have ctl: "\<not> list_ex is_ctl (url_string scheme user pass host)"
  proof -
    have "\<not> is_ctl c" if "c \<in> set ?a" for c
      using that userinfo_chars [of c user pass] userinfo_not_ctl [of c] host_not_ctl [OF keeps, of c]
      by (auto simp: is_ctl_def)
    moreover have "\<not> is_ctl c" if "c \<in> set (scheme @ ''://'')" for c using that scheme by (auto simp: is_ctl_def)
    ultimately show ?thesis unfolding url list_ex_iff by auto
  qed
  have s: "CHR ''#'' \<notin> set scheme" "CHR '':'' \<notin> set scheme" "parse_scheme (scheme @ CHR '':'' # t) = Some scheme" for t
    using scheme cut_before_stop [of "CHR '':''" scheme t]
    by (auto simp: parse_scheme_def Let_def is_letter_def alnum_def)
  have frag: "cut_before (CHR ''#'') (url_string scheme user pass host) = url_string scheme user pass host"
    unfolding url using no(1) s(1) by (intro cut_before_absent) auto
  have rest: "cut_before (CHR ''?'') (cut_after (CHR '':'') (url_string scheme user pass host)) = ''//'' @ ?a"
    unfolding url cut_after_stop [OF s(2)] using no(2) by (intro cut_before_absent) auto
  have auth: "cut_before (CHR ''/'') (drop 2 (''//'' @ ?a)) = ?a" using cut_before_absent [OF no(3)] by simp
  have at: "CHR ''@'' \<notin> set (rev host)" using keeps [of "CHR ''@''"] by auto
  have h: "rev (cut_before (CHR ''@'') (rev ?a)) = host" using cut_before_stop [OF at, of "rev ?i"] by simp
  have "parse_host host = Some host" using host unescape_plain by (auto simp: parse_host_def plain_address_def)
  then have "parse_authority ?a = Some ((user, pass), host)"
    unfolding parse_authority_def Let_def h by (simp add: parse_userinfo_string)
  then show ?thesis
    unfolding parse_url_def Let_def frag rest auth using ctl s(3) by (simp add: url)
qed

text \<open>What a dial leaves open: its connection on success, nothing new on failure.\<close>

lemma state_set_live [simp]:
  "live_chans (snd (state_set L c raw st h)) = live_chans h" "live_conns (snd (state_set L c raw st h)) = live_conns h"
  by (auto simp: state_set_def state_interrupt_def env_defs Let_def split: option.splits prod.splits)

lemma state_interrupt_live [simp]:
  "live_chans (snd (state_interrupt L c st h)) = live_chans h" "live_conns (snd (state_interrupt L c st h)) = live_conns h"
  by (auto simp: state_interrupt_def env_defs Let_def split: option.splits prod.splits)

lemma state_set_live_eq:
  "state_set L c raw st h = (st', h') \<Longrightarrow> live_chans h' = live_chans h \<and> live_conns h' = live_conns h"
  using state_set_live [of L c raw st h] by simp

lemma dial_live:
  "dial L c t st h = (r, st', h') \<Longrightarrow> live_chans h' = live_chans h \<and> live_conns h' = live_conns h"
  by (auto simp: dial_def env_defs Let_def split: option.splits prod.splits sum.splits if_splits
      dest!: state_set_live_eq)

lemma DialConfig_live:
  assumes "DialConfig L c url cf st h = (r, st', h')"
  shows "live_chans h' = live_chans h
     \<and> live_conns h' = (case r of Inl _ \<Rightarrow> live_conns h | Inr k \<Rightarrow> add_mset k (live_conns h))"
proof (cases "dialURI L h url")
  case (Some e)
  with assms show ?thesis by (auto simp: DialConfig_def dial_uri_def Let_def)
next
  case None
  obtain d st1 h2 where d: "dial L c (ac_dialTimeout cf) st (h @ [EvDialURI url None]) = (d, st1, h2)"
    by (metis prod_cases3)
  from dial_live [OF d] have "live_chans h2 = live_chans h" "live_conns h2 = live_conns h" by simp_all
  with assms None d show ?thesis
    by (auto simp: DialConfig_def dial_uri_def amqp_handshake_def Let_def split: sum.splits)
qed

section \<open>Properties\<close>

text \<open>
  C32: for an address that is a host name or IPv4 address with an optional port, and whatever
  characters the user name and the password contain, the URL the SDK builds is parsed, as \<^verbatim>\<open>net/url\<close> does it, into
  exactly these, with the scheme that matches the TLS setting: no
  credential (with slashes, question marks, number signs, at signs, colons, percent signs or control
  characters) can move the host, end the authority or get lost in another part of the URL.
\<close>

theorem connection_url_roundtrip:
  assumes "plain_address (Addr cfg)"
  shows "parse_url (connection_url cfg) =
     Some (if TLSConfig cfg = None then ''amqp'' else ''amqps'', (Username cfg, Password cfg), Addr cfg)"
  using parse_url_string [OF _ assms] by (simp add: connection_url_def)

theorem connection_url_roundtrip_witness:
  "\<exists>cfg. Username cfg = ''u/s?e#r'' \<and> Password cfg = ''p@ss:w%rd'' \<and> Addr cfg = ''mq.example:5672''
     \<and> parse_url (connection_url cfg) = Some (''amqp'', (''u/s?e#r'', ''p@ss:w%rd''), ''mq.example:5672'')"
proof -
  obtain cfg :: SDKConfig where cfg: "Username cfg = ''u/s?e#r''" "Password cfg = ''p@ss:w%rd''"
    "Addr cfg = ''mq.example:5672''" "TLSConfig cfg = None"
    by (rule that [of "\<lparr>Addr = ''mq.example:5672'', VHost = [], Username = ''u/s?e#r'', Password = ''p@ss:w%rd'',
       Heartbeat = 0, DialTimeout = 0, ConnectionName = [], ReconnectDelay = 0, TLSConfig = None,
       EnableMetrics = False, MetricsNamespace = [], MetricsRegisterer = None, PublisherPoolSize = 0,
       PublisherMaxPoolSize = 0, PublisherPoolWait = 0, EnableTracing = False, MetricLabelName = [],
       MetricLabelValue = None, InjectHeaders = None, ExtractContext = None\<rparr>"]) simp_all
  have "plain_address ''mq.example:5672''" by code_simp
  with connection_url_roundtrip [of cfg] cfg show ?thesis by (intro exI [of _ cfg]) simp
qed

end
