(* ===== verification/Lifecycle.thy ===== *)
theory Lifecycle
  imports Connection Publish
begin

text \<open>
  \<^verbatim>\<open>NewSDK\<close> and \<^verbatim>\<open>Shutdown\<close> of \<^verbatim>\<open>rabbitmqsdk.go\<close>: what the SDK acquires when it is created and
  how it lets go of it. The lemmas show that a failed creation leaves nothing behind, that
  creation fills in the documented defaults, and that \<^verbatim>\<open>Shutdown\<close> closes everything once,
  however often and in whatever state it is called.
\<close>

section \<open>NewSDK\<close>

definition config_error :: "ctx \<Rightarrow> SDKConfig \<Rightarrow> err option" where
  "config_error c cfg =
     (if c = CtxNil then Some (ErrNew ''context is nil'')
      else if Addr cfg = [] then Some (ErrNew ''RabbitMQ address is required'')
      else if ReconnectDelay cfg < 0 then Some (ErrNew ''reconnect delay cannot be negative'')
      else if DialTimeout cfg < 0 then Some (ErrNew ''dial timeout cannot be negative'')
      else if PublisherPoolSize cfg < 0 \<or> PublisherMaxPoolSize cfg < 0
        then Some (ErrNew ''publisher pool sizes cannot be negative'')
      else if PublisherPoolWait cfg < 0 then Some (ErrNew ''publisher pool wait cannot be negative'')
      else None)"

definition the_poolSize :: "SDKConfig \<Rightarrow> int" where
  "the_poolSize cfg = (if PublisherPoolSize cfg = 0 then defaultPublisherPoolSize else PublisherPoolSize cfg)"

definition the_poolMaxSize :: "SDKConfig \<Rightarrow> int" where
  "the_poolMaxSize cfg =
     (if PublisherMaxPoolSize cfg = 0 then wrap64 (the_poolSize cfg * 2) else PublisherMaxPoolSize cfg)"

definition the_poolWait :: "SDKConfig \<Rightarrow> duration" where
  "the_poolWait cfg = (if PublisherPoolWait cfg = 0 then defaultPublisherPoolWait else PublisherPoolWait cfg)"

definition the_reconnectDelay :: "SDKConfig \<Rightarrow> duration" where
  "the_reconnectDelay cfg = (if ReconnectDelay cfg = 0 then defaultReconnectDelay else ReconnectDelay cfg)"

definition the_connectionConfig :: "SDKConfig \<Rightarrow> amqp_config" where
  "the_connectionConfig cfg =
     \<lparr>ac_Heartbeat = Heartbeat cfg, ac_Vhost = VHost cfg, ac_ConnectionName = ConnectionName cfg,
      ac_TLSClientConfig = TLSConfig cfg,
      ac_dialTimeout = (if DialTimeout cfg = 0 then defaultDialTimeout else DialTimeout cfg)\<rparr>"

definition new_metrics :: "lib \<Rightarrow> SDKConfig \<Rightarrow> hist \<Rightarrow> (err + metrics) \<times> hist" where
  "new_metrics L cfg h =
     (if EnableMetrics cfg
      then (let ns = (if MetricsNamespace cfg = [] then ''huma'' else MetricsNamespace cfg)
            in case newPrometheusMetrics L (MetricsRegisterer cfg) ns (MetricLabelName cfg) (MetricLabelValue cfg) h
               of (r, h1) \<Rightarrow> (case r of Inl e \<Rightarrow> (Inl e, h1) | Inr m \<Rightarrow> (Inr (PrometheusMetrics m), h1)))
      else (Inr NoOpMetrics, h))"

definition the_sdk :: "ctx \<Rightarrow> SDKConfig \<Rightarrow> conn_ref \<Rightarrow> chan_ref \<Rightarrow> raw_ref option \<Rightarrow> pool \<Rightarrow> metrics \<Rightarrow> SDK" where
  "the_sdk c cfg cn ch st p m =
     \<lparr>conn = cn, channel = ch, sdk_ctx = WithCancel c, logger = NoOpLogger,
      reconnectInterval = the_reconnectDelay cfg, queues = [], reconnecting = False,
      shutdownOnce = False, closeOnce = False, closeErr = None, declaredQueues = [],
      qosConfigured = False, qosPrefetchCount = 0, qosPrefetchSize = 0, qosGlobal = False,
      sdk_metrics = m, connectionConfig = the_connectionConfig cfg,
      connectionURL = connection_url cfg, connectionState = st,
      publisherPoolSize = the_poolSize cfg, publisherMaxPoolSize = the_poolMaxSize cfg,
      publisherPoolWait = the_poolWait cfg, publisherPool = Some p,
      enableTracing = EnableTracing cfg, extractContext = ExtractContext cfg,
      injectHeaders = InjectHeaders cfg\<rparr>"

text \<open>From the AMQP connection on: the consume channel, the publisher pool, the metrics.\<close>

definition new_on_conn ::
  "lib \<Rightarrow> ctx \<Rightarrow> SDKConfig \<Rightarrow> conn_ref \<Rightarrow> raw_ref option \<Rightarrow> hist \<Rightarrow> (err + SDK) outcome \<times> hist" where
  "new_on_conn L c cfg cn st h =
     (case conn_channel L cn h of (r, h1) \<Rightarrow>
        (case r of
           Inl e \<Rightarrow> (case conn_close L cn (h1 @ [EvCancel]) of (ce, h2) \<Rightarrow> (Returns (Inl (join_err e [ce])), h2))
         | Inr ch \<Rightarrow>
             obind (newPublisherChannelPool L cn (state_current st) (the_poolSize cfg) (the_poolMaxSize cfg) h1)
               (\<lambda>pr h2.
                  case pr of
                    Inl e \<Rightarrow>
                      (case ch_close L ch (h2 @ [EvCancel]) of (e1, h3) \<Rightarrow>
                       case conn_close L cn h3 of (e2, h4) \<Rightarrow>
                         (Returns (Inl (join_err (ErrWrap ''initialize publisher pool'' e) [e1, e2])), h4))
                  | Inr p \<Rightarrow>
                      (case new_metrics L cfg h2 of (mr, h3) \<Rightarrow>
                         (case mr of
                            Inl e \<Rightarrow>
                              obind (pool_close L p (h3 @ [EvCancel])) (\<lambda>(e0, _) h4.
                                case ch_close L ch h4 of (e1, h5) \<Rightarrow>
                                case conn_close L cn h5 of (e2, h6) \<Rightarrow>
                                  (Returns (Inl (join_err e [e0, e1, e2])), h6))
                          | Inr m \<Rightarrow>
                              (Returns (Inr (the_sdk c cfg cn ch st p m)), h3 @ [EvSpawnMonitor ch cn]))))))"

definition NewSDK :: "lib \<Rightarrow> ctx \<Rightarrow> SDKConfig \<Rightarrow> hist \<Rightarrow> (err + SDK) outcome \<times> hist" where
  "NewSDK L c cfg h =
     (case config_error c cfg of
        Some e \<Rightarrow> (Returns (Inl e), h)
      | None \<Rightarrow>
          if the_poolMaxSize cfg < the_poolSize cfg
          then (Returns (Inl (ErrNew ''publisher maximum pool size cannot be smaller than initial pool size'')), h)
          else (case DialConfig L (WithCancel c) (connection_url cfg) (the_connectionConfig cfg) None h of (r, st, h1) \<Rightarrow>
                  (case r of
                     Inl e \<Rightarrow> (Returns (Inl e), h1 @ [EvCancel])
                   | Inr cn \<Rightarrow> new_on_conn L c cfg cn st h1)))"

section \<open>Shutdown\<close>

definition shutdown_begin :: "lib \<Rightarrow> ctx \<Rightarrow> SDK \<Rightarrow> hist \<Rightarrow> SDK \<times> hist" where
  "shutdown_begin L c s h =
     (if shutdownOnce s then (s, h)
      else (case state_interrupt L c (connectionState s) (h @ [EvCancel]) of (e, h1) \<Rightarrow>
              (s\<lparr>shutdownOnce := True\<rparr>, h1)))"

text \<open>
  Waiting for the goroutines of the SDK, unless the caller's context is done first. When
  neither ever happens the call does not come back.
\<close>

definition shutdown_wait :: "lib \<Rightarrow> ctx \<Rightarrow> hist \<Rightarrow> err option outcome \<times> hist" where
  "shutdown_wait L c h =
     (let finished = wgWait L h; h1 = h @ [EvWgWait finished]
      in if finished then (Returns None, h1)
         else if ctx_hangs L c h1 then (Blocks, h1)
         else (case await_done L c h1 of (e, h2) \<Rightarrow>
                 (Returns (Some (ErrWrap ''wait for SDK shutdown'' e)), h2)))"

text \<open>The loop that joins the errors of closing into \<^verbatim>\<open>closeErr\<close>.\<close>

definition collect_close_errors :: "err option \<Rightarrow> err option list \<Rightarrow> err option" where
  "collect_close_errors ce es =
     foldl (\<lambda>acc e. if is_other_err AmqpErrClosed e then errors_join [acc, e] else acc) ce es"

definition shutdown_close :: "lib \<Rightarrow> SDK \<Rightarrow> hist \<Rightarrow> SDK outcome \<times> hist" where
  "shutdown_close L s h =
     (if closeOnce s then (Returns s, h)
      else obind (case publisherPool s of
                    None \<Rightarrow> (Returns [], h)
                  | Some p \<Rightarrow> obind (pool_close L p h) (\<lambda>(e, _) h1. (Returns [e], h1)))
             (\<lambda>es h1.
                case ch_close L (channel s) h1 of (e1, h2) \<Rightarrow>
                case conn_close L (conn s) h2 of (e2, h3) \<Rightarrow>
                  (Returns (s\<lparr>closeOnce := True, publisherPool := None,
                              closeErr := collect_close_errors (closeErr s) (es @ [e1, e2])\<rparr>), h3)))"

definition Shutdown :: "lib \<Rightarrow> ctx \<Rightarrow> SDK \<Rightarrow> hist \<Rightarrow> (err option \<times> SDK) outcome \<times> hist" where
  "Shutdown L c s h =
     (if c = CtxNil then (Returns (Some (ErrNew ''context is nil''), s), h)
      else (case shutdown_begin L c s h of (s1, h1) \<Rightarrow>
              obind (shutdown_wait L c h1) (\<lambda>e h2.
                case e of
                  Some x \<Rightarrow> (Returns (Some x, s1), h2)
                | None \<Rightarrow> obind (shutdown_close L s1 h2) (\<lambda>s2 h3. (Returns (closeErr s2, s2), h3)))))"

text \<open>
  The goroutines never finish and the caller's context never ends: the one situation in which
  a call of \<^verbatim>\<open>Shutdown\<close> that starts to wait at \<open>h\<close> waits for ever.
\<close>

definition never_ready :: "lib \<Rightarrow> ctx \<Rightarrow> hist \<Rightarrow> bool" where
  "never_ready L c h \<longleftrightarrow> \<not> wgWait L h \<and> ctx_hangs L c (h @ [EvWgWait False])"

section \<open>What an SDK owns\<close>

text \<open>
  Everything open belongs to the SDK: at most its connection, its consume channel and the idle
  channels of its pool, with no channel handed out.
\<close>

definition idle_chans :: "SDK \<Rightarrow> chan_ref multiset" where
  "idle_chans s = (case publisherPool s of None \<Rightarrow> {#} | Some p \<Rightarrow> mset (buf (channels p)))"

definition owns :: "SDK \<Rightarrow> hist \<Rightarrow> bool" where
  "owns s h \<longleftrightarrow> live_conns h \<subseteq># {#conn s#} \<and> live_chans h \<subseteq># {#channel s#} + idle_chans s \<and> sdk_pool_ok 0 s"

section \<open>Lemmas on NewSDK\<close>

lemma reg_pool_events: "list_all pool_event es \<Longrightarrow> fold reg_effect es m = m"
proof (induction es arbitrary: m)
  case (Cons e es)
  then show ?case by (cases e) auto
qed simp

lemma registered_grows: "grows pool_event h h' \<Longrightarrow> registered h' = registered h"
  by (auto simp: grows_def registered_def reg_pool_events)

lemma drain_channels_grows: "drain_channels L chs p errs h = (es, p', h') \<Longrightarrow> grows pool_event h h'"
proof (induction chs arbitrary: p errs h)
  case (Cons ch chs)
  let ?h1 = "h @ [EvChClose ch (chClose L h ch)]"
  have "grows pool_event ?h1 h'"
    using Cons.prems by (auto simp: ch_close_def Let_def intro: Cons.IH)
  then show ?case by (rule grows_trans [rotated]) simp
qed simp

lemma pool_close_grows: "pool_close L p h = (r, h') \<Longrightarrow> grows pool_event h h'"
  by (auto simp: pool_close_def split: if_splits option.splits prod.splits dest: drain_channels_grows)

lemma fill_pool_grows: "fill_pool L n p h = (r, h') \<Longrightarrow> grows pool_event h h'"
proof (induction n arbitrary: p h)
  case (Suc n)
  show ?case
  proof (cases "connChannel L h (pool_conn p)")
    case (Inl e)
    have "grows pool_event (h @ [EvConnChannel (pool_conn p) (Inl e)]) h'"
      using Suc.prems Inl pool_close_grows [of L p "h @ [EvConnChannel (pool_conn p) (Inl e)]"]
      by (auto simp: conn_channel_def Let_def obind_def split: outcome.splits prod.splits)
    then show ?thesis by (rule grows_trans [rotated]) simp
  next
    case (Inr ch)
    define ce where "ce = chConfirm L (h @ [EvConnChannel (pool_conn p) (Inr ch)]) ch"
    let ?h2 = "h @ [EvConnChannel (pool_conn p) (Inr ch), EvChConfirm ch False ce]"
    have "grows pool_event ?h2 h'"
    proof (cases ce)
      case (Some e)
      let ?h3 = "?h2 @ [EvChClose ch (chClose L ?h2 ch)]"
      have "grows pool_event ?h3 h'"
        using Suc.prems Inr Some pool_close_grows [of L p ?h3]
        by (auto simp: conn_channel_def ch_confirm_def ch_close_def Let_def ce_def [symmetric] obind_def
            split: outcome.splits prod.splits)
      then show ?thesis by (rule grows_trans [rotated]) (simp add: grows_def)
    next
      case None
      then show ?thesis
        using Suc Inr
        by (auto simp: conn_channel_def ch_confirm_def Let_def ce_def [symmetric] split: send_result.splits)
    qed
    then show ?thesis by (rule grows_trans [rotated]) (simp add: grows_def)
  qed
qed simp

lemma new_pool_grows: "newPublisherChannelPool L c raw sz mx h = (r, h') \<Longrightarrow> grows pool_event h h'"
  by (auto simp: newPublisherChannelPool_def split: if_splits dest: fill_pool_grows)

lemma new_metrics_spec:
  assumes "new_metrics L cfg h = (r, h')"
  shows "live_chans h' = live_chans h \<and> live_conns h' = live_conns h
     \<and> (\<forall>e. r = Inl e \<longrightarrow> registered h' = registered h)"
proof (cases "EnableMetrics cfg")
  case True
  let ?ns = "if MetricsNamespace cfg = [] then ''huma'' else MetricsNamespace cfg"
  obtain x h1 where x: "newPrometheusMetrics L (MetricsRegisterer cfg) ?ns (MetricLabelName cfg) (MetricLabelValue cfg) h = (x, h1)"
    by fastforce
  have live: "live_chans h1 = live_chans h" "live_conns h1 = live_conns h"
    using newPrometheusMetrics_live [of L "MetricsRegisterer cfg" ?ns "MetricLabelName cfg" "MetricLabelValue cfg" h] x
    by simp_all
  have reg: "x = Inl e \<Longrightarrow> registered h1 = registered h" for e
    using newPrometheusMetrics_registered [OF x] by simp
  show ?thesis using assms True x live reg by (auto simp: new_metrics_def Let_def split: sum.splits)
qed (use assms in \<open>simp add: new_metrics_def\<close>)

lemma registered_append [simp]: "registered (h @ es) = fold reg_effect es (registered h)"
  by (simp add: registered_def)

text \<open>On a fresh connection: success takes everything requested, failure gives everything back.\<close>

definition created :: "SDKConfig \<Rightarrow> hist \<Rightarrow> conn_ref multiset \<Rightarrow> err + SDK \<Rightarrow> hist \<Rightarrow> bool" where
  "created cfg h C r h' \<longleftrightarrow>
     (case r of
        Inl e \<Rightarrow> live_chans h' = live_chans h \<and> live_conns h' = C \<and> registered h' = registered h
      | Inr s \<Rightarrow> live_conns h' = add_mset (conn s) C
          \<and> live_chans h' = live_chans h + {#channel s#} + idle_chans s \<and> sdk_pool_ok 0 s
          \<and> int (size (idle_chans s)) = the_poolSize cfg)"

lemma new_on_conn_spec:
  assumes sz: "0 \<le> the_poolSize cfg" "the_poolSize cfg \<le> the_poolMaxSize cfg" "in_int32 (the_poolMaxSize cfg)"
    and live: "live_conns h = add_mset cn C"
  shows "\<exists>r h'. new_on_conn L c cfg cn st h = (Returns r, h') \<and> created cfg h C r h'
     \<and> (\<forall>s. r = Inr s \<longrightarrow> (\<exists>ch p m g g'. s = the_sdk c cfg cn ch st p m \<and> new_metrics L cfg g = (Inr m, g')))"
proof (cases "connChannel L h cn")
  case (Inl e)
  then show ?thesis using live by (auto simp: new_on_conn_def env_defs Let_def created_def)
next
  case (Inr ch)
  let ?h1 = "h @ [EvConnChannel cn (Inr ch)]"
  obtain pr h2 where pr: "newPublisherChannelPool L cn st (the_poolSize cfg) (the_poolMaxSize cfg) ?h1 = (Returns pr, h2)"
    "live_conns h2 = live_conns ?h1"
    "case pr of Inl e \<Rightarrow> live_chans h2 = live_chans ?h1
      | Inr p \<Rightarrow> pool_ok 0 p \<and> \<not> closed p \<and> int (length (buf (channels p))) = the_poolSize cfg
          \<and> int (cap (channels p)) = the_poolSize cfg \<and> pool_conn p = cn \<and> rawConn p = st
          \<and> maxPoolSize p = the_poolMaxSize cfg \<and> live_chans h2 = live_chans ?h1 + mset (buf (channels p))"
    using newPublisherChannelPool_spec [OF sz] by blast
  have reg2: "registered h2 = registered h" using registered_grows [OF new_pool_grows [OF pr(1)]] by simp
  show ?thesis
  proof (cases pr)
    case (Inl e)
    then show ?thesis
      using Inr pr live reg2 by (auto simp: new_on_conn_def state_current_def env_defs Let_def created_def)
  next
    case (Inr p)
    obtain mr h3 where mr: "new_metrics L cfg h2 = (mr, h3)" by fastforce
    note mspec = new_metrics_spec [OF mr]
    have p: "pool_ok 0 p" "live_chans h3 = add_mset ch (live_chans h) + mset (buf (channels p))"
      "live_conns h3 = add_mset cn C" "int (length (buf (channels p))) = the_poolSize cfg"
      using pr(2,3) Inr mspec live by auto
    show ?thesis
    proof (cases mr)
      case (Inl e)
      obtain e0 p' h4 where cl: "pool_close L p (h3 @ [EvCancel]) = (Returns (e0, p'), h4)"
        "live_chans h4 = live_chans (h3 @ [EvCancel]) - mset (buf (channels p))" "live_conns h4 = live_conns (h3 @ [EvCancel])"
        using pool_close_spec [OF p(1)] by blast
      have "registered h4 = registered h"
        using registered_grows [OF pool_close_grows [OF cl(1)]] mspec Inl reg2 by simp
      with cl p pr(1) \<open>pr = Inr p\<close> \<open>connChannel L h cn = Inr ch\<close> mr Inl show ?thesis
        by (auto simp: new_on_conn_def state_current_def env_defs Let_def created_def)
    next
      case (Inr m)
      with p pr(1) \<open>pr = Inr p\<close> \<open>connChannel L h cn = Inr ch\<close> mr show ?thesis
        by (auto simp: new_on_conn_def state_current_def env_defs Let_def created_def the_sdk_def
            idle_chans_def sdk_pool_ok_def)
    qed
  qed
qed

lemma NewSDK_config_ok:
  assumes "config_error c cfg = None" "PublisherPoolSize cfg < 2 ^ 30" "PublisherMaxPoolSize cfg < 2 ^ 31"
    "\<not> the_poolMaxSize cfg < the_poolSize cfg"
  shows "0 \<le> the_poolSize cfg" "the_poolSize cfg \<le> the_poolMaxSize cfg" "in_int32 (the_poolMaxSize cfg)"
proof -
  have p: "0 \<le> PublisherPoolSize cfg" "0 \<le> PublisherMaxPoolSize cfg"
    using assms(1) by (auto simp: config_error_def split: if_splits)
  have "wrap64 (the_poolSize cfg * 2) = the_poolSize cfg * 2"
    using p assms(2) by (intro wrap64_id) (auto simp: in_int64_def the_poolSize_def defaultPublisherPoolSize_def)
  then show "in_int32 (the_poolMaxSize cfg)"
    using p assms(2,3)
    by (auto simp: the_poolMaxSize_def the_poolSize_def defaultPublisherPoolSize_def in_int32_def)
  show "0 \<le> the_poolSize cfg" "the_poolSize cfg \<le> the_poolMaxSize cfg"
    using p assms(4) by (auto simp: the_poolSize_def defaultPublisherPoolSize_def)
qed

lemma reg_dial: "DialConfig L c url cf st h = (r, st', h') \<Longrightarrow> registered h' = registered h"
  by (auto simp: DialConfig_def dial_def state_set_def state_interrupt_def env_defs Let_def
      split: option.splits prod.splits sum.splits if_splits)

lemma NewSDK_spec:
  assumes small: "PublisherPoolSize cfg < 2 ^ 30" "PublisherMaxPoolSize cfg < 2 ^ 31"
  shows "\<exists>r h'. NewSDK L c cfg h = (Returns r, h') \<and> created cfg h (live_conns h) r h'
     \<and> (\<forall>s. r = Inr s \<longrightarrow> config_error c cfg = None
          \<and> (\<exists>cn ch st p m g g'. s = the_sdk c cfg cn ch st p m \<and> new_metrics L cfg g = (Inr m, g')))"
proof (cases "config_error c cfg = None \<and> \<not> the_poolMaxSize cfg < the_poolSize cfg")
  case False
  then show ?thesis by (cases "config_error c cfg") (auto simp: NewSDK_def created_def)
next
  case True
  note sz = NewSDK_config_ok [OF _ small]
  obtain r st h1 where d: "DialConfig L (WithCancel c) (connection_url cfg) (the_connectionConfig cfg) None h = (r, st, h1)"
    by (metis prod_cases3)
  note live = DialConfig_live [OF d] and reg = reg_dial [OF d]
  show ?thesis
  proof (cases r)
    case (Inl e)
    with True d live reg show ?thesis by (auto simp: NewSDK_def created_def)
  next
    case (Inr cn)
    then have "live_conns h1 = add_mset cn (live_conns h)" using live by simp
    then obtain r' h' where "new_on_conn L c cfg cn st h1 = (Returns r', h')" "created cfg h1 (live_conns h) r' h'"
      "\<forall>s. r' = Inr s \<longrightarrow> (\<exists>ch p m g g'. s = the_sdk c cfg cn ch st p m \<and> new_metrics L cfg g = (Inr m, g'))"
      using new_on_conn_spec [OF sz] True by blast
    moreover from this(2) have "created cfg h (live_conns h) r' h'"
      using live reg by (auto simp: created_def split: sum.splits)
    ultimately show ?thesis using True d Inr by (fastforce simp: NewSDK_def)
  qed
qed

section \<open>Lemmas on Shutdown\<close>

lemma owns_events:
  "owns s h \<Longrightarrow> live_conns h' = live_conns h \<Longrightarrow> live_chans h' = live_chans h \<Longrightarrow> owns s h'"
  by (simp add: owns_def)

lemma owns_fields:
  "owns s h \<Longrightarrow> conn s' = conn s \<Longrightarrow> channel s' = channel s \<Longrightarrow> publisherPool s' = publisherPool s \<Longrightarrow> owns s' h"
  by (simp add: owns_def idle_chans_def sdk_pool_ok_def)

text \<open>Closing the pool, the channel and the connection leaves nothing open.\<close>

lemma close_all:
  assumes "owns s h"
  shows "live_chans h - idle_chans s - {#channel s#} = {#}" "live_conns h - {#conn s#} = {#}"
proof -
  have "live_chans h \<subseteq># idle_chans s + {#channel s#}" "live_conns h \<subseteq># {#conn s#}"
    using assms by (auto simp: owns_def)
  then show "live_chans h - idle_chans s - {#channel s#} = {#}" "live_conns h - {#conn s#} = {#}"
    by (simp_all add: Diff_eq_empty_iff_mset subset_eq_diff_conv)
qed

lemma shutdown_close_spec:
  assumes "owns s h" "\<not> closeOnce s"
  shows "\<exists>s' h'. shutdown_close L s h = (Returns s', h') \<and> live_conns h' = {#} \<and> live_chans h' = {#}
     \<and> closeOnce s' \<and> publisherPool s' = None \<and> shutdownOnce s' = shutdownOnce s"
proof (cases "publisherPool s")
  case None
  then show ?thesis
    using assms close_all [OF assms(1)] by (simp add: shutdown_close_def env_defs Let_def idle_chans_def)
next
  case (Some p)
  then have "pool_ok 0 p" using assms(1) by (simp add: owns_def sdk_pool_ok_def)
  then obtain e p' h1 where "pool_close L p h = (Returns (e, p'), h1)"
    "live_chans h1 = live_chans h - mset (buf (channels p))" "live_conns h1 = live_conns h"
    using pool_close_spec by blast
  then show ?thesis
    using Some assms(2) close_all [OF assms(1)] by (simp add: shutdown_close_def env_defs Let_def idle_chans_def)
qed

lemma shutdown_begin_spec:
  assumes "shutdown_begin L c s h = (s1, h1)"
  shows "s1 = s\<lparr>shutdownOnce := True\<rparr> \<and> live_conns h1 = live_conns h \<and> live_chans h1 = live_chans h"
proof (cases "shutdownOnce s")
  case True
  have "s\<lparr>shutdownOnce := True\<rparr> = s" using True by (cases s) simp
  with True assms show ?thesis by (simp add: shutdown_begin_def)
next
  case False
  then obtain e where i: "state_interrupt L c (connectionState s) (h @ [EvCancel]) = (e, h1)"
    "s1 = s\<lparr>shutdownOnce := True\<rparr>"
    using assms by (auto simp: shutdown_begin_def split: prod.splits)
  show ?thesis
    using state_interrupt_live [of L c "connectionState s" "h @ [EvCancel]", unfolded i(1)] i(2) by simp
qed

lemma shutdown_wait_cases:
  obtains
    (finished) "wgWait L h" "shutdown_wait L c h = (Returns None, h @ [EvWgWait True])"
  | (hangs) "never_ready L c h" "shutdown_wait L c h = (Blocks, h @ [EvWgWait False])"
  | (gave_up) x where "\<not> wgWait L h" "\<not> never_ready L c h"
      "shutdown_wait L c h = (Returns (Some (ErrWrap ''wait for SDK shutdown'' x)),
         h @ [EvWgWait False, EvSelectDone c (Some x)])"
  by (cases "wgWait L h"; cases "never_ready L c h")
    (auto simp: shutdown_wait_def never_ready_def await_done_def Let_def)

text \<open>
  The three ways a call of \<^verbatim>\<open>Shutdown\<close> goes: the goroutines finish and it closes everything,
  the caller's context ends first and it has closed nothing, or it waits for ever.
\<close>

definition shutdown_outcome :: "lib \<Rightarrow> ctx \<Rightarrow> SDK \<Rightarrow> hist \<Rightarrow> hist \<Rightarrow> (err option \<times> SDK) outcome \<times> hist \<Rightarrow> bool" where
  "shutdown_outcome L c s h g r \<longleftrightarrow>
     (if wgWait L g
      then \<exists>s' h'. r = (Returns (closeErr s', s'), h') \<and> shutdownOnce s' \<and> closeOnce s' \<and> owns s' h'
        \<and> (if closeOnce s
           then s' = s\<lparr>shutdownOnce := True\<rparr> \<and> live_conns h' = live_conns h \<and> live_chans h' = live_chans h
           else live_conns h' = {#} \<and> live_chans h' = {#} \<and> publisherPool s' = None)
      else if never_ready L c g
      then \<exists>h'. r = (Blocks, h') \<and> live_conns h' = live_conns h \<and> live_chans h' = live_chans h
      else \<exists>x h'. r = (Returns (Some (ErrWrap ''wait for SDK shutdown'' x), s\<lparr>shutdownOnce := True\<rparr>), h')
        \<and> owns (s\<lparr>shutdownOnce := True\<rparr>) h' \<and> live_conns h' = live_conns h \<and> live_chans h' = live_chans h)"

lemma Shutdown_spec:
  assumes "owns s h" "c \<noteq> CtxNil"
  shows "\<exists>g. shutdown_outcome L c s h g (Shutdown L c s h)"
proof -
  obtain s1 h1 where b: "shutdown_begin L c s h = (s1, h1)" by fastforce
  note b' = shutdown_begin_spec [OF b]
  have own: "owns s1 h2" if "live_conns h2 = live_conns h" "live_chans h2 = live_chans h" for h2
    using owns_fields [OF owns_events [OF assms(1) that], of s1] b' by simp
  show ?thesis
  proof (cases rule: shutdown_wait_cases [of L h1 c])
    case finished
    let ?h2 = "h1 @ [EvWgWait True]"
    show ?thesis
    proof (cases "closeOnce s")
      case True
      with finished b b' own assms(2) show ?thesis
        by (intro exI [of _ h1]) (auto simp: shutdown_outcome_def Shutdown_def shutdown_close_def)
    next
      case False
      obtain s' h' where c: "shutdown_close L s1 ?h2 = (Returns s', h')" "live_conns h' = {#}" "live_chans h' = {#}"
        "closeOnce s'" "publisherPool s' = None" "shutdownOnce s'"
        using shutdown_close_spec [OF own, of ?h2 L] b' False by auto
      then have "owns s' h'" by (simp add: owns_def sdk_pool_ok_def)
      with finished False c b assms(2) show ?thesis
        by (intro exI [of _ h1]) (auto simp: shutdown_outcome_def Shutdown_def)
    qed
  next
    case hangs
    then have "\<not> wgWait L h1" by (simp add: never_ready_def)
    with hangs b b' assms(2) show ?thesis
      by (intro exI [of _ h1]) (auto simp: shutdown_outcome_def Shutdown_def)
  next
    case (gave_up x)
    with b b' own assms(2) show ?thesis
      by (intro exI [of _ h1]) (auto simp: shutdown_outcome_def Shutdown_def)
  qed
qed

lemma shutdown_outcome_returns:
  "shutdown_outcome L c s h g r \<Longrightarrow> \<not> never_ready L c g \<Longrightarrow> \<exists>e s' h'. r = (Returns (e, s'), h') \<and> owns s' h'"
  by (auto simp: shutdown_outcome_def split: if_splits)

lemma shutdown_return:
  assumes "owns s h" "c \<noteq> CtxNil" "\<And>g. \<not> never_ready L c g"
  shows "\<exists>e s' h'. Shutdown L c s h = (Returns (e, s'), h') \<and> owns s' h'"
  using Shutdown_spec [OF assms(1,2), of L] shutdown_outcome_returns assms(3) by blast

lemma calm_ready [simp]: "\<not> never_ready calm_lib c g"
  by (simp add: never_ready_def)

text \<open>How often the context was cancelled and the connection closed.\<close>

fun is_cancel :: "event \<Rightarrow> bool" where
  "is_cancel EvCancel = True"
| "is_cancel _ = False"

fun is_conn_close :: "event \<Rightarrow> bool" where
  "is_conn_close (EvConnClose _ _) = True"
| "is_conn_close _ = False"

definition cancels :: "hist \<Rightarrow> nat" where
  "cancels h = length (filter is_cancel h)"

definition conn_closes :: "hist \<Rightarrow> nat" where
  "conn_closes h = length (filter is_conn_close h)"

fun shutdown_run :: "lib \<Rightarrow> ctx list \<Rightarrow> SDK \<Rightarrow> hist \<Rightarrow> SDK outcome \<times> hist" where
  "shutdown_run L [] s h = (Returns s, h)"
| "shutdown_run L (c # cs) s h = obind (Shutdown L c s h) (\<lambda>(e, s1) h1. shutdown_run L cs s1 h1)"

lemma pool_event_counts: "grows pool_event h h' \<Longrightarrow> cancels h' = cancels h \<and> conn_closes h' = conn_closes h"
proof -
  have "pool_event e \<Longrightarrow> \<not> is_cancel e \<and> \<not> is_conn_close e" for e by (cases e) auto
  then show "grows pool_event h h' \<Longrightarrow> ?thesis"
    by (auto simp: grows_def cancels_def conn_closes_def list_all_iff filter_empty_conv)
qed

lemma state_interrupt_grows: "grows pool_event h (snd (state_interrupt L c st h))"
  by (auto simp: state_interrupt_def env_defs Let_def grows_def split: option.splits)

text \<open>Each flag counts its action: once it is set the action is not repeated.\<close>

lemma shutdown_close_counts:
  assumes "shutdown_close L s h = (Returns s', h')"
  shows "cancels h' = cancels h \<and> conn_closes h' + of_bool (closeOnce s) = conn_closes h + of_bool (closeOnce s')
     \<and> shutdownOnce s' = shutdownOnce s"
proof (cases "closeOnce s")
  case False
  obtain es h1 where g: "grows pool_event h h1"
    and c: "case ch_close L (channel s) h1 of (e1, h2) \<Rightarrow> case conn_close L (conn s) h2 of (e2, h3) \<Rightarrow>
       (Returns (s\<lparr>closeOnce := True, publisherPool := None,
          closeErr := collect_close_errors (closeErr s) (es @ [e1, e2])\<rparr>), h3) = (Returns s', h')"
  proof (cases "publisherPool s")
    case None
    with that [of h "[]"] assms False show ?thesis by (simp add: shutdown_close_def split: prod.splits)
  next
    case (Some p)
    obtain r g1 where r: "pool_close L p h = (r, g1)" by fastforce
    with that [of g1 "[fst (case r of Returns x \<Rightarrow> x)]"] pool_close_grows [OF r] assms False Some show ?thesis
      by (cases r) (auto simp: shutdown_close_def split: prod.splits)
  qed
  from pool_event_counts [OF g] c False show ?thesis
    by (auto simp: ch_close_def conn_close_def Let_def cancels_def conn_closes_def)
qed (use assms in \<open>simp add: shutdown_close_def\<close>)

lemma Shutdown_counts:
  assumes "Shutdown L c s h = (Returns (e, s'), h')"
  shows "cancels h' + of_bool (shutdownOnce s) = cancels h + of_bool (shutdownOnce s')
     \<and> conn_closes h' + of_bool (closeOnce s) = conn_closes h + of_bool (closeOnce s')"
proof (cases "c = CtxNil")
  case False
  obtain s1 h1 where b: "shutdown_begin L c s h = (s1, h1)" by fastforce
  have b1: "cancels h1 + of_bool (shutdownOnce s) = Suc (cancels h) \<and> conn_closes h1 = conn_closes h"
    using b pool_event_counts [OF state_interrupt_grows [of "h @ [EvCancel]" L c "connectionState s"]]
    by (auto simp: shutdown_begin_def cancels_def conn_closes_def split: if_splits prod.splits)
  note s1 = shutdown_begin_spec [OF b]
  show ?thesis
  proof (cases rule: shutdown_wait_cases [of L h1 c])
    case finished
    then have "shutdown_close L s1 (h1 @ [EvWgWait True]) = (Returns s', h')"
      using assms False b by (auto simp: Shutdown_def obind_def split: outcome.splits prod.splits)
    from shutdown_close_counts [OF this] b1 s1 show ?thesis by (auto simp: cancels_def conn_closes_def)
  qed (use assms False b b1 s1 in \<open>auto simp: Shutdown_def cancels_def conn_closes_def\<close>)
qed (use assms in \<open>simp add: Shutdown_def\<close>)

lemma shutdown_run_counts:
  "shutdown_run L cs s h = (Returns s', h')
     \<Longrightarrow> cancels h' + of_bool (shutdownOnce s) = cancels h + of_bool (shutdownOnce s')
     \<and> conn_closes h' + of_bool (closeOnce s) = conn_closes h + of_bool (closeOnce s')"
proof (induction cs arbitrary: s h)
  case (Cons c cs)
  then obtain e s1 h1 where s1: "Shutdown L c s h = (Returns (e, s1), h1)" "shutdown_run L cs s1 h1 = (Returns s', h')"
    by (auto simp: obind_def split: outcome.splits prod.splits)
  from Cons.IH [OF s1(2)] Shutdown_counts [OF s1(1)] show ?case by auto
qed simp

text \<open>A configuration that only names a broker.\<close>

definition sample_config :: SDKConfig where
  "sample_config = \<lparr>Addr = ''localhost:5672'', VHost = ''/'', Username = ''guest'', Password = ''p@ss:word'',
     Heartbeat = 0, DialTimeout = 0, ConnectionName = ''app'', ReconnectDelay = 0, TLSConfig = None,
     EnableMetrics = False, MetricsNamespace = [], MetricsRegisterer = None, PublisherPoolSize = 0,
     PublisherMaxPoolSize = 0, PublisherPoolWait = 0, EnableTracing = False, MetricLabelName = [],
     MetricLabelValue = None, InjectHeaders = None, ExtractContext = None\<rparr>"

lemma calm_NewSDK: "\<exists>s h'. NewSDK calm_lib (CtxOf 0) sample_config [] = (Returns (Inr s), h')"
proof -
  have cfg: "config_error (CtxOf 0) sample_config = None" "the_poolSize sample_config = 5" "the_poolMaxSize sample_config = 10"
    by (simp_all add: config_error_def the_poolSize_def the_poolMaxSize_def sample_config_def
        defaultPublisherPoolSize_def in_int64_def)
  obtain cn st h1 where d: "DialConfig calm_lib (WithCancel (CtxOf 0)) (connection_url sample_config)
      (the_connectionConfig sample_config) None [] = (Inr cn, st, h1)"
    by (simp add: DialConfig_def dial_def state_set_def env_defs Let_def)
  obtain p h2 where p: "newPublisherChannelPool calm_lib cn st 5 10
      (h1 @ [EvConnChannel cn (Inr (length h1))]) = (Returns (Inr p), h2)"
    by (simp add: newPublisherChannelPool_def make_chan_def eval_nat_numeral env_defs Let_def chan_send_def add_cur_def)
  have m: "new_metrics calm_lib sample_config h2 = (Inr NoOpMetrics, h2)"
    by (simp add: new_metrics_def sample_config_def)
  have "new_on_conn calm_lib (CtxOf 0) sample_config cn st h1 =
      (Returns (Inr (the_sdk (CtxOf 0) sample_config cn (length h1) st p NoOpMetrics)), h2 @ [EvSpawnMonitor (length h1) cn])"
    by (simp add: new_on_conn_def state_current_def conn_channel_def Let_def cfg p m)
  then show ?thesis by (simp add: NewSDK_def cfg d)
qed

text \<open>The history in which the sample SDK was set up.\<close>

definition sample_hist :: hist where
  "sample_hist = [EvHandshake 0 (Inr 1), EvConnChannel 1 (Inr 2), EvConnChannel 1 (Inr 3)]"

lemma sample_owns: "owns sample_sdk sample_hist"
  using sample_sdk_pool_ok
  by (simp add: owns_def sample_hist_def live_chans_def live_conns_def idle_chans_def sample_sdk_def sample_pool_def)

section \<open>Properties\<close>

text \<open>
  C19: creating the SDK is all or nothing. With a configured \<^verbatim>\<open>PublisherPoolSize\<close> below 2 to the
  30 and \<^verbatim>\<open>PublisherMaxPoolSize\<close> below 2 to the 31 (\<^verbatim>\<open>NewSDK\<close> accepts larger ones, which the pool
  truncates to 32 bits and whose channel may be too large to make), and calls of the client
  library answering, \<^verbatim>\<open>NewSDK\<close> returns; with an error it leaves no
  connection, channel or metric behind that was not there before, whatever failed; without
  one it holds exactly one connection, one consume channel and a publisher pool of the
  requested size.
\<close>

theorem new_sdk_all_or_nothing:
  assumes "PublisherPoolSize cfg < 2 ^ 30" "PublisherMaxPoolSize cfg < 2 ^ 31"
  shows "\<exists>r h'. NewSDK L c cfg h = (Returns r, h') \<and>
     (case r of
        Inl e \<Rightarrow> live_chans h' = live_chans h \<and> live_conns h' = live_conns h \<and> registered h' = registered h
      | Inr s \<Rightarrow> live_conns h' = add_mset (conn s) (live_conns h)
          \<and> live_chans h' = live_chans h + {#channel s#} + idle_chans s \<and> sdk_pool_ok 0 s
          \<and> int (size (idle_chans s)) = publisherPoolSize s)"
proof -
  obtain r h' where "NewSDK L c cfg h = (Returns r, h')" "created cfg h (live_conns h) r h'"
    "\<forall>s. r = Inr s \<longrightarrow> (\<exists>cn ch st p m. s = the_sdk c cfg cn ch st p m)"
    using NewSDK_spec [OF assms] by blast
  then show ?thesis by (cases r) (auto simp: created_def the_sdk_def)
qed

theorem new_sdk_all_or_nothing_witness:
  "\<exists>r h'. NewSDK calm_lib (CtxOf 0) sample_config [] = (Returns r, h') \<and>
     (case r of Inl e \<Rightarrow> live_conns h' = {#} | Inr s \<Rightarrow> live_conns h' = {#conn s#})"
  using new_sdk_all_or_nothing [of sample_config calm_lib "CtxOf 0" "[]"]
  by (fastforce simp: sample_config_def split: sum.splits)

text \<open>
  A created SDK satisfies what the rest of the code relies on: a positive pool size within
  the maximum (twice the size unless configured), a positive wait for a channel and a positive
  reconnect interval, so that the reconnect loop never spins; nothing is declared or consumed
  yet, and no reconnect or shutdown is under way.
\<close>

theorem new_sdk_defaults:
  assumes "PublisherPoolSize cfg < 2 ^ 30" "PublisherMaxPoolSize cfg < 2 ^ 31"
    "NewSDK L c cfg h = (Returns (Inr s), h')"
  shows "0 < publisherPoolSize s \<and> publisherPoolSize s \<le> publisherMaxPoolSize s
     \<and> (PublisherMaxPoolSize cfg = 0 \<longrightarrow> publisherMaxPoolSize s = 2 * publisherPoolSize s)
     \<and> 0 < publisherPoolWait s \<and> 0 < reconnectInterval s \<and> 0 < ac_dialTimeout (connectionConfig s)
     \<and> queues s = [] \<and> declaredQueues s = [] \<and> \<not> qosConfigured s
     \<and> \<not> reconnecting s \<and> \<not> shutdownOnce s \<and> \<not> closeOnce s \<and> closeErr s = None"
proof -
  obtain cn ch st p m where s: "s = the_sdk c cfg cn ch st p m" and ok: "config_error c cfg = None"
    using NewSDK_spec [OF assms(1,2), of L c h] assms(3) by auto
  have mx: "\<not> the_poolMaxSize cfg < the_poolSize cfg"
    using assms(3) ok by (auto simp: NewSDK_def)
  have pos: "0 \<le> PublisherPoolSize cfg" "0 \<le> PublisherMaxPoolSize cfg" "0 \<le> PublisherPoolWait cfg"
    "0 \<le> ReconnectDelay cfg" "0 \<le> DialTimeout cfg"
    using ok by (auto simp: config_error_def split: if_splits)
  have "wrap64 (the_poolSize cfg * 2) = the_poolSize cfg * 2"
    using pos assms(1) by (intro wrap64_id) (auto simp: in_int64_def the_poolSize_def defaultPublisherPoolSize_def)
  then show ?thesis
    using pos mx
    by (auto simp: s the_sdk_def the_poolSize_def the_poolMaxSize_def the_poolWait_def the_reconnectDelay_def
        the_connectionConfig_def defaultPublisherPoolSize_def defaultPublisherPoolWait_def
        defaultReconnectDelay_def defaultDialTimeout_def millisecond_def second_def)
qed

theorem new_sdk_defaults_witness:
  "\<exists>s h'. NewSDK calm_lib (CtxOf 0) sample_config [] = (Returns (Inr s), h')
     \<and> publisherMaxPoolSize s = 2 * publisherPoolSize s \<and> 0 < reconnectInterval s"
proof -
  obtain s h' where s: "NewSDK calm_lib (CtxOf 0) sample_config [] = (Returns (Inr s), h')"
    using calm_NewSDK by blast
  from new_sdk_defaults [OF _ _ s] s show ?thesis by (auto simp: sample_config_def)
qed



text \<open>
  However often \<^verbatim>\<open>Shutdown\<close> is called, with whatever contexts, the SDK's context is
  cancelled at most once and its connection is closed at most once; and every call returns as
  long as no call waits for goroutines that never finish on a context that never ends.
\<close>

lemma shutdown_run_returns:
  "owns s h \<Longrightarrow> (\<And>c g. c \<in> set cs \<Longrightarrow> \<not> never_ready L c g) \<Longrightarrow> \<exists>s' h'. shutdown_run L cs s h = (Returns s', h')"
proof (induction cs arbitrary: s h)
  case (Cons c cs)
  have "\<exists>e s1 h1. Shutdown L c s h = (Returns (e, s1), h1) \<and> owns s1 h1"
    using shutdown_return [OF Cons.prems(1), of c L] Cons.prems
    by (cases "c = CtxNil") (auto simp: Shutdown_def)
  with Cons.IH Cons.prems(2) show ?case by fastforce
qed simp

theorem shutdown_runs_once:
  assumes "shutdown_run L cs s h = (Returns s', h')" "\<not> shutdownOnce s" "\<not> closeOnce s"
  shows "cancels h' = cancels h + of_bool (shutdownOnce s') \<and> conn_closes h' = conn_closes h + of_bool (closeOnce s')"
  using shutdown_run_counts [OF assms(1)] assms(2,3) by auto

theorem shutdown_runs_once_witness:
  "\<exists>s' h'. shutdown_run calm_lib [CtxOf 1, CtxNil, CtxOf 2] sample_sdk sample_hist = (Returns s', h')
     \<and> cancels h' \<le> 1 \<and> conn_closes h' \<le> 1"
proof -
  have "\<not> shutdownOnce sample_sdk" "\<not> closeOnce sample_sdk" by (simp_all add: sample_sdk_def)
  moreover have "cancels sample_hist = 0" "conn_closes sample_hist = 0"
    by (simp_all add: cancels_def conn_closes_def sample_hist_def)
  moreover obtain s' h' where "shutdown_run calm_lib [CtxOf 1, CtxNil, CtxOf 2] sample_sdk sample_hist = (Returns s', h')"
    using shutdown_run_returns [OF sample_owns, of "[CtxOf 1, CtxNil, CtxOf 2]" calm_lib] by auto
  ultimately show ?thesis
    using shutdown_runs_once by fastforce
qed

text \<open>
  C31: after a completed \<^verbatim>\<open>Shutdown\<close> every publish fails with an error and sends nothing.
\<close>

theorem publish_after_shutdown_fails:
  assumes "owns s h" "c \<noteq> CtxNil" "\<not> closeOnce s"
    "Shutdown L c s h = (Returns (e, s'), h')" "closeOnce s'"
  shows "\<exists>x M' es. Publish L' c' exch key msg M s' g = (Returns (Some x, M', s'), g @ es) \<and> sent es = []"
proof -
  have none: "publisherPool s' = None"
    using Shutdown_spec [OF assms(1,2), of L] assms(3-5) by (auto simp: shutdown_outcome_def split: if_splits)
  from Publish_no_pool [OF none, of L' c' exch key msg M g] show ?thesis
    using silent_list by (auto simp: grows_def)
qed

theorem publish_after_shutdown_fails_witness:
  "\<exists>e s' h' x M' es. Shutdown calm_lib (CtxOf 1) sample_sdk sample_hist = (Returns (e, s'), h')
     \<and> Publish calm_lib (CtxOf 1) [] ''q'' (Some 0) sample_heap s' h' = (Returns (Some x, M', s'), h' @ es) \<and> sent es = []"
proof -
  have open_: "\<not> closeOnce sample_sdk" by (simp add: sample_sdk_def)
  obtain e s' h' where sd: "Shutdown calm_lib (CtxOf 1) sample_sdk sample_hist = (Returns (e, s'), h')"
    using shutdown_return [OF sample_owns, of "CtxOf 1" calm_lib] by auto
  have "closeOnce s'"
  proof -
    obtain s1 h1 where b: "shutdown_begin calm_lib (CtxOf 1) sample_sdk sample_hist = (s1, h1)" by fastforce
    obtain s2 h2 where c: "shutdown_close calm_lib s1 (h1 @ [EvWgWait True]) = (Returns s2, h2)" "closeOnce s2"
      using shutdown_close_spec [of s1 "h1 @ [EvWgWait True]" calm_lib] shutdown_begin_spec [OF b] open_
        owns_fields [OF owns_events [OF sample_owns, of "h1 @ [EvWgWait True]"], of s1] by auto
    show ?thesis using sd b c by (simp add: Shutdown_def shutdown_wait_def Let_def)
  qed
  from publish_after_shutdown_fails [OF sample_owns _ open_ sd this, of calm_lib "CtxOf 1" "[]" "''q''" "Some 0" sample_heap h'] sd
  show ?thesis by auto
qed

end
