(* ===== verification/Reconnect.thy ===== *)
theory Reconnect
  imports Lifecycle Consume
begin

text \<open>
  \<^verbatim>\<open>reconnect.go\<close>: the monitor that notices a lost connection and the loop that replaces it.
  The loop is cut into one attempt, from letting go of the old connection to the new
  consumers, and the rounds around it. The lemmas show that an attempt that succeeds replays
  everything the caller had set up, that no number of failed attempts leaks a connection or
  a channel, and that the loop succeeds once the broker is back.
\<close>

section \<open>waitReconnect and closeReconnectResources\<close>

definition waitReconnect :: "lib \<Rightarrow> ctx \<Rightarrow> SDK \<Rightarrow> hist \<Rightarrow> bool \<times> hist" where
  "waitReconnect L c s h =
     (let fired = waitTimer L h c in (fired, h @ [EvWaitReconnect c (reconnectInterval s) fired]))"

definition closeReconnectResources :: "lib \<Rightarrow> chan_ref \<Rightarrow> conn_ref \<Rightarrow> hist \<Rightarrow> hist" where
  "closeReconnectResources L ch cn h =
     (case ch_close L ch h of (e1, h1) \<Rightarrow> case conn_close L cn h1 of (e2, h2) \<Rightarrow> h2)"

section \<open>reconnect\<close>

text \<open>How a round of the loop ends: \<^verbatim>\<open>continue\<close> after a wait, or \<^verbatim>\<open>return\<close>.\<close>

datatype attempt = Retry | GiveUp | Connected

text \<open>Letting go of the old pool, channel and connection; errors are only logged.\<close>

definition reconnect_release :: "lib \<Rightarrow> SDK \<Rightarrow> hist \<Rightarrow> SDK outcome \<times> hist" where
  "reconnect_release L s h =
     obind (case publisherPool s of
              None \<Rightarrow> (Returns (), h)
            | Some p \<Rightarrow> obind (pool_close L p h) (\<lambda>_ h1. (Returns (), h1)))
       (\<lambda>_ h1.
          case ch_close L (channel s) h1 of (e1, h2) \<Rightarrow>
          case conn_close L (conn s) h2 of (e2, h3) \<Rightarrow> (Returns (s\<lparr>publisherPool := None\<rparr>), h3))"

text \<open>On the new channel: quality of service, topology, publisher pool, consumers.\<close>

definition replay_qos :: "lib \<Rightarrow> SDK \<Rightarrow> hist \<Rightarrow> err option \<times> hist" where
  "replay_qos L s h =
     (if qosConfigured s
      then ch_qos L (channel s) (qosPrefetchCount s) (qosPrefetchSize s) (qosGlobal s) h
      else (None, h))"

definition replay_topology :: "lib \<Rightarrow> ctx \<Rightarrow> SDK \<Rightarrow> hist \<Rightarrow> err option \<times> hist" where
  "replay_topology L c s h =
     (if length (declaredQueues s) > 0
      then (case declareQueuesLocked L c (declaredQueues s) False s h of (e, _, h1) \<Rightarrow> (e, h1))
      else (None, h))"

definition replay_consumers :: "lib \<Rightarrow> ctx \<Rightarrow> SDK \<Rightarrow> hist \<Rightarrow> err option \<times> hist" where
  "replay_consumers L c s h =
     (if length (queues s) > 0
      then (case startWithStoreQueuesFlag L c (queues s) False s h of (e, _, h1) \<Rightarrow> (e, h1))
      else (None, h))"

definition reconnect_setup :: "lib \<Rightarrow> ctx \<Rightarrow> SDK \<Rightarrow> hist \<Rightarrow> (attempt \<times> SDK) outcome \<times> hist" where
  "reconnect_setup L c s h =
     (case and_then (replay_qos L s h) (replay_topology L c s) of
        (Some e, h1) \<Rightarrow> (Returns (Retry, s), closeReconnectResources L (channel s) (conn s) h1)
      | (None, h1) \<Rightarrow>
          obind (newPublisherChannelPool L (conn s) (state_current (connectionState s))
                   (publisherPoolSize s) (publisherMaxPoolSize s) h1)
            (\<lambda>r h2.
               case r of
                 Inl e \<Rightarrow> (Returns (Retry, s), closeReconnectResources L (channel s) (conn s) h2)
               | Inr p \<Rightarrow>
                   (let s1 = s\<lparr>publisherPool := Some p\<rparr>
                    in case replay_consumers L c s1 (IncReconnects (sdk_metrics s1) c h2) of
                         (Some e, h3) \<Rightarrow> (Returns (Retry, s1), h3)
                       | (None, h3) \<Rightarrow> (Returns (Connected, s1), h3 @ [EvSpawnMonitor (channel s1) (conn s1)]))))"

definition reconnect_attempt :: "lib \<Rightarrow> ctx \<Rightarrow> SDK \<Rightarrow> hist \<Rightarrow> (attempt \<times> SDK) outcome \<times> hist" where
  "reconnect_attempt L c s h =
     obind (reconnect_release L s h) (\<lambda>s1 h1.
       case DialConfig L (sdk_ctx s1) (connectionURL s1) (connectionConfig s1) (connectionState s1) h1 of (r, st, h2) \<Rightarrow>
         let s2 = s1\<lparr>connectionState := st\<rparr>
         in case r of
              Inl e \<Rightarrow> (Returns (Retry, s2), h2)
            | Inr cn \<Rightarrow>
                (case ctx_err L c h2 of
                   (Some e, h3) \<Rightarrow> (case conn_close L cn h3 of (ce, h4) \<Rightarrow> (Returns (GiveUp, s2), h4))
                 | (None, h3) \<Rightarrow>
                     (case conn_channel L cn h3 of (k, h4) \<Rightarrow>
                        (case k of
                           Inl e \<Rightarrow> (case conn_close L cn h4 of (ce, h5) \<Rightarrow> (Returns (Retry, s2), h5))
                         | Inr ch \<Rightarrow> reconnect_setup L c (s2\<lparr>conn := cn, channel := ch\<rparr>) h4))))"

text \<open>The \<^verbatim>\<open>select\<close> with a default case: only asks whether the context is done.\<close>

definition poll_done :: "lib \<Rightarrow> ctx \<Rightarrow> hist \<Rightarrow> bool \<times> hist" where
  "poll_done L c h = (let r = ctxErr L h c in (r \<noteq> None, h @ [EvSelectDone c r]))"

datatype reconnect_status = Reconnecting SDK | GaveUp SDK | Reconnected SDK

fun reconnect_loop :: "lib \<Rightarrow> nat \<Rightarrow> ctx \<Rightarrow> SDK \<Rightarrow> hist \<Rightarrow> reconnect_status outcome \<times> hist" where
  "reconnect_loop L 0 c s h = (Returns (Reconnecting s), h)"
| "reconnect_loop L (Suc n) c s h =
     (case poll_done L c h of (done, h1) \<Rightarrow>
        if done then (Returns (GaveUp s), h1)
        else obind (reconnect_attempt L c s h1)
               (\<lambda>(a, s1) h2.
                  case a of
                    Connected \<Rightarrow> (Returns (Reconnected s1), h2)
                  | GiveUp \<Rightarrow> (Returns (GaveUp s1), h2)
                  | Retry \<Rightarrow>
                      (case waitReconnect L c s1 h2 of (fired, h3) \<Rightarrow>
                         if fired then reconnect_loop L n c s1 h3 else (Returns (GaveUp s1), h3))))"

text \<open>At most \<open>n\<close> rounds; the deferred store clears \<^verbatim>\<open>reconnecting\<close> when the function returns.\<close>

definition reconnect :: "lib \<Rightarrow> nat \<Rightarrow> ctx \<Rightarrow> SDK \<Rightarrow> hist \<Rightarrow> reconnect_status outcome \<times> hist" where
  "reconnect L n c s h =
     obind (reconnect_loop L n c s h)
       (\<lambda>st h1. (Returns (case st of
            Reconnecting s1 \<Rightarrow> Reconnecting s1
          | GaveUp s1 \<Rightarrow> GaveUp (s1\<lparr>reconnecting := False\<rparr>)
          | Reconnected s1 \<Rightarrow> Reconnected (s1\<lparr>reconnecting := False\<rparr>)), h1))"

section \<open>The monitor\<close>

definition handleCloseError :: "err option \<Rightarrow> SDK \<Rightarrow> hist \<Rightarrow> SDK \<times> hist" where
  "handleCloseError e s h =
     (case e of
        None \<Rightarrow> (s, h)
      | Some x \<Rightarrow> if reconnecting s then (s, h) else (s\<lparr>reconnecting := True\<rparr>, h @ [EvSpawnReconnect]))"

text \<open>
  \<open>chOpen\<close> and \<open>connOpen\<close> say which of the two notification channels is not nil yet; a nil
  channel is never ready.
\<close>

function monitorConnection :: "lib \<Rightarrow> bool \<Rightarrow> bool \<Rightarrow> SDK \<Rightarrow> hist \<Rightarrow> SDK \<times> hist" where
  "monitorConnection L chOpen connOpen s h =
     (if \<not> chOpen \<and> \<not> connOpen then (s, h)
      else (case monitor_select L h of (ev, h1) \<Rightarrow>
              (case ev of
                 MonitorDone \<Rightarrow> (s, h1)
               | Notified pref v \<Rightarrow>
                   (let onChannel = (if chOpen \<and> connOpen then pref else chOpen)
                    in case v of
                         None \<Rightarrow>
                           if onChannel then monitorConnection L False connOpen s h1
                           else monitorConnection L chOpen False s h1
                       | Some e \<Rightarrow> handleCloseError e s h1))))"
  by pat_completeness auto
termination
  by (relation "measure (\<lambda>(L, a, b, s, h). of_bool a + of_bool b)") (auto split: if_splits)

declare monitorConnection.simps [simp del]

section \<open>Lemmas\<close>

text \<open>Events that declare, consume and spawn nothing.\<close>

fun qos_of :: "chan_ref \<Rightarrow> event \<Rightarrow> (int \<times> int \<times> bool) list" where
  "qos_of ch (EvQos c n z g _) = (if c = ch then [(n, z, g)] else [])"
| "qos_of ch _ = []"

definition qos_calls :: "chan_ref \<Rightarrow> hist \<Rightarrow> (int \<times> int \<times> bool) list" where
  "qos_calls ch h = concat (map (qos_of ch) h)"

lemma qos_calls_simps [simp]:
  "qos_calls ch [] = []" "qos_calls ch (e # es) = qos_of ch e @ qos_calls ch es"
  "qos_calls ch (h @ es) = qos_calls ch h @ qos_calls ch es"
  by (simp_all add: qos_calls_def)

definition quiet :: "event \<Rightarrow> bool" where
  "quiet e \<longleftrightarrow> (\<forall>ch. decl_of ch e = [] \<and> consumer_of ch e = [] \<and> qos_of ch e = []) \<and> spawn_of e = []"

lemma grows_quiet:
  assumes "grows quiet h h'"
  shows "decls ch h' = decls ch h" "consumers ch h' = consumers ch h" "spawned h' = spawned h"
    "qos_calls ch h' = qos_calls ch h"
  using grows_concat_map [OF assms, of "decl_of ch"] grows_concat_map [OF assms, of "consumer_of ch"]
    grows_concat_map [OF assms, of spawn_of] grows_concat_map [OF assms, of "qos_of ch"]
  by (simp_all add: quiet_def decls_def consumers_def spawned_def qos_calls_def)

lemma pool_event_quiet: "pool_event e \<Longrightarrow> quiet e"
  by (cases e) (auto simp: quiet_def)

lemma grows_pool_quiet: "grows pool_event h h' \<Longrightarrow> grows quiet h h'"
  by (erule grows_mono) (rule pool_event_quiet)

lemma metric_only_quiet: "metric_only f \<Longrightarrow> grows quiet h (f h)"
proof -
  have "is_metric e \<Longrightarrow> quiet e" for e by (cases e) (auto simp: quiet_def)
  then show "metric_only f \<Longrightarrow> grows quiet h (f h)"
    unfolding metric_only_def grows_def by (metis list.pred_mono_strong)
qed

lemma quiet_simps [simp]:
  "quiet (EvConnClose c e)" "quiet (EvChClose k e)" "quiet (EvDialURI u e)" "quiet (EvNetDial x t r)"
  "quiet (EvHandshake w q)" "quiet (EvNow t)" "quiet (EvRawSetDeadline w t e)" "quiet (EvRawClose w e)"
  "quiet (EvCtxErr x e)" "quiet (EvConnChannel c j)" "quiet (EvSpawnMonitor k c)"
  "quiet (EvSelectDone x e)" "quiet (EvWaitReconnect x t b)"
  by (simp_all add: quiet_def)

lemma dial_quiet: "dial L c t st h = (r, st', h') \<Longrightarrow> grows quiet h h'"
  by (auto simp: dial_def state_set_def state_interrupt_def env_defs Let_def grows_def
      split: option.splits prod.splits sum.splits if_splits)

lemma DialConfig_quiet:
  assumes "DialConfig L c url cf st h = (r, st', h')"
  shows "grows quiet h h'"
proof (cases "dialURI L h url")
  case (Some e)
  with assms show ?thesis by (auto simp: DialConfig_def dial_uri_def Let_def)
next
  case None
  obtain d st1 h2 where d: "dial L c (ac_dialTimeout cf) st (h @ [EvDialURI url None]) = (d, st1, h2)"
    by (metis prod_cases3)
  have "grows quiet h h2"
    by (rule grows_trans [OF _ dial_quiet [OF d]]) simp
  with assms None d show ?thesis
    by (auto simp: DialConfig_def dial_uri_def amqp_handshake_def Let_def intro: grows_snoc split: sum.splits)
qed

lemma closeReconnectResources_spec:
  "live_chans (closeReconnectResources L ch cn h) = live_chans h - {#ch#}"
  "live_conns (closeReconnectResources L ch cn h) = live_conns h - {#cn#}"
  by (simp_all add: closeReconnectResources_def env_defs Let_def)

text \<open>What reconnecting may change of the SDK.\<close>

definition rest_same :: "SDK \<Rightarrow> SDK \<Rightarrow> bool" where
  "rest_same s s' \<longleftrightarrow> s'\<lparr>conn := conn s, channel := channel s, publisherPool := publisherPool s,
     connectionState := connectionState s\<rparr> = s"

lemma rest_same_fields:
  assumes "rest_same s s'"
  shows "queues s' = queues s" "declaredQueues s' = declaredQueues s" "qosConfigured s' = qosConfigured s"
    "qosPrefetchCount s' = qosPrefetchCount s" "qosPrefetchSize s' = qosPrefetchSize s" "qosGlobal s' = qosGlobal s"
    "publisherPoolSize s' = publisherPoolSize s" "publisherMaxPoolSize s' = publisherMaxPoolSize s"
    "sdk_metrics s' = sdk_metrics s" "reconnectInterval s' = reconnectInterval s" "reconnecting s' = reconnecting s"
  by (insert assms, unfold rest_same_def, cases s, cases s', simp)+

lemma rest_same_trans: "rest_same s s1 \<Longrightarrow> rest_same s1 s2 \<Longrightarrow> rest_same s s2"
  by (cases s, cases s1, cases s2) (simp add: rest_same_def)

lemma rest_same_simps [simp]:
  "rest_same s s" "rest_same s (s\<lparr>publisherPool := p\<rparr>)" "rest_same s (s\<lparr>connectionState := st\<rparr>)"
  "rest_same s (s\<lparr>conn := cn, channel := ch\<rparr>)"
  by (cases s, simp add: rest_same_def)+

definition sdk_limits :: "SDK \<Rightarrow> bool" where
  "sdk_limits s \<longleftrightarrow> 0 \<le> publisherPoolSize s \<and> publisherPoolSize s \<le> publisherMaxPoolSize s
     \<and> in_int32 (publisherMaxPoolSize s)"

lemma reconnect_release_spec:
  assumes "owns s h"
  shows "\<exists>h'. reconnect_release L s h = (Returns (s\<lparr>publisherPool := None\<rparr>), h')
     \<and> live_conns h' = {#} \<and> live_chans h' = {#} \<and> grows quiet h h'"
proof -
  obtain h1 where h1: "(case publisherPool s of None \<Rightarrow> (Returns (), h)
            | Some p \<Rightarrow> obind (pool_close L p h) (\<lambda>_ h1. (Returns (), h1))) = (Returns (), h1)"
    "live_chans h1 = live_chans h - idle_chans s" "live_conns h1 = live_conns h" "grows quiet h h1"
  proof (cases "publisherPool s")
    case None
    with that [of h] show ?thesis by (simp add: idle_chans_def)
  next
    case (Some p)
    then have "pool_ok 0 p" using assms by (simp add: owns_def sdk_pool_ok_def)
    then obtain e p' g where g: "pool_close L p h = (Returns (e, p'), g)"
      "live_chans g = live_chans h - mset (buf (channels p))" "live_conns g = live_conns h"
      using pool_close_spec by blast
    with that [of g] Some grows_pool_quiet [OF pool_close_grows [OF g(1)]] show ?thesis
      by (simp add: idle_chans_def)
  qed
  let ?h2 = "h1 @ [EvChClose (channel s) (chClose L h1 (channel s))]"
  let ?h3 = "?h2 @ [EvConnClose (conn s) (connClose L ?h2 (conn s))]"
  have "reconnect_release L s h = (Returns (s\<lparr>publisherPool := None\<rparr>), ?h3)"
    unfolding reconnect_release_def h1(1) by (simp add: ch_close_def conn_close_def Let_def)
  moreover have "grows quiet h ?h3" by (intro grows_snoc h1(4)) simp_all
  moreover have "live_chans ?h3 = {#}" "live_conns ?h3 = {#}"
    using close_all [OF assms] h1(2,3) by simp_all
  ultimately show ?thesis by blast
qed

section \<open>Replaying on the new channel\<close>

text \<open>Declaring does not consume, spawn or set the quality of service.\<close>

fun declaring_event :: "event \<Rightarrow> bool" where
  "declaring_event (EvCtxErr _ _) = True"
| "declaring_event (EvExchangeDeclare _ _ _ _ _ _ _ _ _) = True"
| "declaring_event (EvQueueDeclare _ _ _ _ _ _ _ _) = True"
| "declaring_event (EvQueueBind _ _ _ _ _ _ _) = True"
| "declaring_event _ = False"

lemma declaring_nothing:
  "declaring_event e \<Longrightarrow> consumer_of ch e = [] \<and> spawn_of e = [] \<and> qos_of ch e = []"
  by (cases e) auto

lemma grows_declaring:
  assumes "grows declaring_event h h'"
  shows "consumers ch h' = consumers ch h" "spawned h' = spawned h" "qos_calls ch h' = qos_calls ch h"
  using grows_concat_map [OF assms, of "consumer_of ch"] grows_concat_map [OF assms, of spawn_of]
    grows_concat_map [OF assms, of "qos_of ch"]
  by (simp_all add: declaring_nothing consumers_def spawned_def qos_calls_def)

lemma grows_and_then:
  assumes "grows P h (snd r)" "\<And>h1. grows P h1 (snd (f h1))"
  shows "grows P h (snd (and_then r f))"
  using assms by (auto simp: and_then_def intro: grows_trans split: prod.splits option.splits)

lemma declare_calls_grow:
  "grows declaring_event h (snd (ctx_err L c h))"
  "grows declaring_event h (snd (ch_exchange_declare L ch n k d a i w t h))"
  "grows declaring_event h (snd (ch_queue_declare L ch n d a x w t h))"
  "grows declaring_event h (snd (ch_queue_bind L ch n k y w t h))"
  by (simp_all add: env_defs Let_def)

lemma snd_wrapped [simp]: "snd (wrapped m r) = snd r"
  by (simp add: wrapped_def)

lemma declare_one_grows: "grows declaring_event h (snd (declare_one L ch c q h))"
proof -
  have dlq: "grows declaring_event h (snd (declare_dlq L ch q h))" for q h
    by (auto simp: declare_dlq_def intro!: grows_and_then declare_calls_grow)
  have delay: "grows declaring_event h (snd (declare_delay L ch q h))" for q h
    by (auto simp: declare_delay_def intro!: grows_and_then declare_calls_grow)
  show ?thesis
    unfolding declare_one_unfold
    by (intro grows_and_then declare_calls_grow) (auto simp: dlq delay declare_calls_grow)
qed

lemma declare_loop_grows: "grows declaring_event h (snd (declare_loop L ch c qs h))"
proof (induction qs arbitrary: h)
  case (Cons q qs)
  then show ?case by (auto intro!: grows_and_then declare_one_grows)
qed simp

lemma replay_topology_spec:
  assumes "replay_topology L c s h = (e, h')"
  shows "grows declaring_event h h' \<and> live_chans h' = live_chans h \<and> live_conns h' = live_conns h
     \<and> (e = None \<longrightarrow> decls (channel s) h' = decls (channel s) h @ concat (map topology (declaredQueues s)))"
proof (cases "declaredQueues s = []")
  case False
  then have l: "declare_loop L (channel s) c (declaredQueues s) h = (e, h')"
    using assms by (auto simp: replay_topology_def declareQueuesLocked_def split: prod.splits option.splits)
  show ?thesis
    using declares_loop [of "channel s" "declaredQueues s" L c] declare_loop_grows [of h L "channel s" c "declaredQueues s"] l
    unfolding declares_def by (metis fst_conv snd_conv)
qed (use assms in \<open>simp add: replay_topology_def\<close>)

lemma replay_qos_spec:
  assumes "replay_qos L s h = (e, h')"
  shows "live_chans h' = live_chans h \<and> live_conns h' = live_conns h \<and> decls ch h' = decls ch h
     \<and> consumers ch h' = consumers ch h \<and> spawned h' = spawned h
     \<and> qos_calls (channel s) h' = qos_calls (channel s) h
         @ (if qosConfigured s then [(qosPrefetchCount s, qosPrefetchSize s, qosGlobal s)] else [])"
  using assms by (auto simp: replay_qos_def ch_qos_def Let_def split: if_splits)

text \<open>Starting consumers neither declares nor opens or closes anything.\<close>

fun starting_event :: "event \<Rightarrow> bool" where
  "starting_event (EvCtxErr _ _) = True"
| "starting_event (EvConsume _ _ _ _ _ _ _ _ _) = True"
| "starting_event (EvSpawnWorker _ _) = True"
| "starting_event _ = False"

lemma starting_live: "list_all starting_event es \<Longrightarrow>
    fold chan_effect es m = m \<and> fold conn_effect es n = n \<and> decls ch es = [] \<and> qos_calls ch es = []"
proof (induction es arbitrary: m n)
  case (Cons e es)
  then show ?case by (cases e) auto
qed simp

lemma start_loop_grows: "grows starting_event h (snd (start_loop L ch qs h))"
proof (induction qs arbitrary: h)
  case (Cons q qs)
  have "grows starting_event h (spawn_workers n m w (h @ [EvConsume ch x y a b u v t r]))" for n m w x y a b u v t r
    by (auto simp: spawn_workers_eq grows_def list_all_iff)
  then show ?case
    by (auto simp: ch_consume_def Let_def intro: grows_trans [OF _ Cons] split: sum.splits)
qed simp

lemma start_grows:
  assumes "startWithStoreQueuesFlag L c qs store s h = (e, s', h')"
  shows "grows starting_event h h'"
proof -
  define x where "x = ctxErr L h c"
  have "h' = h @ [EvCtxErr c x] \<or> (\<exists>ch. h' = snd (start_loop L ch qs (h @ [EvCtxErr c x])))"
    using assms
    by (auto simp: startWithStoreQueuesFlag_def ctx_err_def Let_def x_def split: option.splits prod.splits)
      (metis snd_conv)+
  then show ?thesis
    by (auto intro: grows_trans [OF _ start_loop_grows])
qed

lemma replay_consumers_spec:
  assumes "replay_consumers L c s h = (e, h')"
  shows "live_chans h' = live_chans h \<and> live_conns h' = live_conns h \<and> decls ch h' = decls ch h
     \<and> qos_calls ch h' = qos_calls ch h
     \<and> (e = None \<longrightarrow> consumers (channel s) h' = consumers (channel s) h @ map Name (queues s)
          \<and> spawned h' = spawned h @ concat (map workers (queues s)))"
proof (cases "queues s = []")
  case False
  then obtain s' where st: "startWithStoreQueuesFlag L c (queues s) False s h = (e, s', h')"
    using assms by (auto simp: replay_consumers_def split: prod.splits)
  obtain es where "h' = h @ es" "list_all starting_event es" using start_grows [OF st] by (auto simp: grows_def)
  with startWithStoreQueuesFlag_spec [OF st] starting_live [of es] show ?thesis by auto
qed (use assms in \<open>simp add: replay_consumers_def\<close>)

section \<open>One attempt\<close>

text \<open>The SDK is connected: one connection, its consume channel and a full pool are open.\<close>

definition up :: "SDK \<Rightarrow> hist \<Rightarrow> bool" where
  "up s h \<longleftrightarrow> live_conns h = {#conn s#} \<and> live_chans h = {#channel s#} + idle_chans s
     \<and> sdk_pool_ok 0 s \<and> publisherPool s \<noteq> None \<and> int (size (idle_chans s)) = publisherPoolSize s"

text \<open>Everything the caller had set up was set up again on channel \<open>ch\<close>.\<close>

definition replayed :: "SDK \<Rightarrow> chan_ref \<Rightarrow> hist \<Rightarrow> hist \<Rightarrow> bool" where
  "replayed s ch h h' \<longleftrightarrow>
     decls ch h' = decls ch h @ concat (map topology (declaredQueues s))
     \<and> qos_calls ch h' = qos_calls ch h
         @ (if qosConfigured s then [(qosPrefetchCount s, qosPrefetchSize s, qosGlobal s)] else [])
     \<and> consumers ch h' = consumers ch h @ map Name (queues s)
     \<and> spawned h' = spawned h @ concat (map workers (queues s))"

lemma replayed_cong:
  assumes "replayed s ch h1 h2" "grows quiet h h1" "rest_same s0 s" "grows quiet h2 h3"
  shows "replayed s0 ch h h3"
  using assms(1) grows_quiet [OF assms(2)] grows_quiet [OF assms(4)] rest_same_fields [OF assms(3)]
  by (simp add: replayed_def)

lemma up_owns: "up s h \<Longrightarrow> owns s h"
  by (simp add: up_def owns_def)

lemma reconnect_setup_spec:
  assumes live: "live_conns h = {#conn s#}" "live_chans h = {#channel s#}"
    and s: "publisherPool s = None" "sdk_limits s"
  shows "\<exists>a s' h'. reconnect_setup L c s h = (Returns (a, s'), h') \<and> owns s' h' \<and> rest_same s s'
     \<and> a \<noteq> GiveUp \<and> (a = Connected \<longrightarrow> up s' h' \<and> channel s' = channel s \<and> replayed s (channel s) h h')"
proof -
  obtain qe hq where q: "replay_qos L s h = (qe, hq)" by fastforce
  note q' = replay_qos_spec [OF q]
  obtain e h1 where t: "and_then (replay_qos L s h) (replay_topology L c s) = (e, h1)" by fastforce
  have t': "live_conns h1 = {#conn s#} \<and> live_chans h1 = {#channel s#}
     \<and> (e = None \<longrightarrow> replay_topology L c s hq = (None, h1))"
    using t q q' live replay_topology_spec [of L c s hq] by (cases qe) auto
  have closed_: "owns s (closeReconnectResources L (channel s) (conn s) g)"
    if "live_conns g = {#conn s#}" "live_chans g = {#channel s#}" for g
    using that s by (simp add: owns_def closeReconnectResources_spec sdk_pool_ok_def)
  show ?thesis
  proof (cases e)
    case (Some x)
    with t t' closed_ show ?thesis by (fastforce simp: reconnect_setup_def)
  next
    case None
    have decl: "decls (channel s) h1 = decls (channel s) h @ concat (map topology (declaredQueues s))"
      "consumers (channel s) h1 = consumers (channel s) h" "spawned h1 = spawned h"
      "qos_calls (channel s) h1 = qos_calls (channel s) h
         @ (if qosConfigured s then [(qosPrefetchCount s, qosPrefetchSize s, qosGlobal s)] else [])"
      using replay_topology_spec [of L c s hq None h1] t' None q' grows_declaring by auto
    obtain r h2 where n: "newPublisherChannelPool L (conn s) (connectionState s) (publisherPoolSize s)
        (publisherMaxPoolSize s) h1 = (Returns r, h2)" "live_conns h2 = live_conns h1"
      "case r of Inl e \<Rightarrow> live_chans h2 = live_chans h1
       | Inr p \<Rightarrow> pool_ok 0 p \<and> \<not> closed p \<and> int (length (buf (channels p))) = publisherPoolSize s
          \<and> int (cap (channels p)) = publisherPoolSize s \<and> pool_conn p = conn s \<and> rawConn p = connectionState s
          \<and> maxPoolSize p = publisherMaxPoolSize s \<and> live_chans h2 = live_chans h1 + mset (buf (channels p))"
      using newPublisherChannelPool_spec s(2) unfolding sdk_limits_def by blast
    note g2 = grows_pool_quiet [OF new_pool_grows [OF n(1)]]
    show ?thesis
    proof (cases r)
      case (Inl x)
      with t None n t' closed_ show ?thesis by (fastforce simp: reconnect_setup_def state_current_def)
    next
      case (Inr p)
      let ?s = "s\<lparr>publisherPool := Some p\<rparr>" and ?h3 = "IncReconnects (sdk_metrics s) c h2"
      have g3: "grows quiet h1 ?h3"
        using g2 metric_only_quiet [OF sink.reconnected] by (rule grows_trans)
      obtain e4 h4 where c4: "replay_consumers L c ?s ?h3 = (e4, h4)" by fastforce
      note c4' = replay_consumers_spec [OF c4, of "channel s"]
      have live4: "live_conns h4 = {#conn s#}" "live_chans h4 = {#channel s#} + idle_chans ?s" "sdk_pool_ok 0 ?s"
        "int (size (idle_chans ?s)) = publisherPoolSize s"
        using c4' n(2,3) Inr t' by (simp_all add: idle_chans_def sdk_pool_ok_def)
      show ?thesis
      proof (cases e4)
        case (Some x)
        with t None n(1) Inr c4 live4 show ?thesis
          by (simp add: reconnect_setup_def state_current_def owns_def)
      next
        case None
        have "up ?s (h4 @ [EvSpawnMonitor (channel s) (conn s)])" using live4 by (simp add: up_def idle_chans_def)
        moreover have "replayed s (channel s) h (h4 @ [EvSpawnMonitor (channel s) (conn s)])"
          using decl c4' None grows_quiet [OF g3] by (simp add: replayed_def)
        ultimately show ?thesis
          using t \<open>e = None\<close> n(1) Inr c4 None up_owns
          by (simp add: reconnect_setup_def state_current_def)
      qed
    qed
  qed
qed

lemma reconnect_attempt_spec:
  assumes "owns s h" "sdk_limits s"
  shows "\<exists>a s' h'. reconnect_attempt L c s h = (Returns (a, s'), h') \<and> owns s' h' \<and> rest_same s s'
     \<and> (a = Connected \<longrightarrow> up s' h' \<and> replayed s (channel s') h h')"
proof -
  let ?s1 = "s\<lparr>publisherPool := None\<rparr>"
  obtain h1 where r: "reconnect_release L s h = (Returns ?s1, h1)" "live_conns h1 = {#}" "live_chans h1 = {#}"
    "grows quiet h h1"
    using reconnect_release_spec [OF assms(1)] by blast
  obtain d st h2 where d: "DialConfig L (sdk_ctx s) (connectionURL s) (connectionConfig s) (connectionState s) h1 = (d, st, h2)"
    by (metis prod_cases3)
  note dl = DialConfig_live [OF d] and dq = grows_trans [OF r(4) DialConfig_quiet [OF d]]
  let ?s2 = "?s1\<lparr>connectionState := st\<rparr>"
  have rest2: "rest_same s ?s2" by (rule rest_same_trans [of s ?s1]) simp_all
  have own2: "live_conns g = {#} \<Longrightarrow> live_chans g = {#} \<Longrightarrow> owns ?s2 g" for g
    by (simp add: owns_def sdk_pool_ok_def)
  show ?thesis
  proof (cases d)
    case (Inl e)
    with r d dl own2 rest2 show ?thesis by (simp add: reconnect_attempt_def Let_def)
  next
    case (Inr cn)
    define x where "x = ctxErr L h2 c"
    let ?h3 = "h2 @ [EvCtxErr c x]"
    have l3: "live_conns ?h3 = {#cn#}" "live_chans ?h3 = {#}" using dl Inr r by simp_all
    define k where "k = connChannel L ?h3 cn"
    let ?h4 = "?h3 @ [EvConnChannel cn k]"
    have pre: "reconnect_attempt L c s h =
        (case x of Some e \<Rightarrow> (Returns (GiveUp, ?s2), ?h3 @ [EvConnClose cn (connClose L ?h3 cn)])
         | None \<Rightarrow> (case k of Inl e \<Rightarrow> (Returns (Retry, ?s2), ?h4 @ [EvConnClose cn (connClose L ?h4 cn)])
                    | Inr ch \<Rightarrow> reconnect_setup L c (?s2\<lparr>conn := cn, channel := ch\<rparr>) ?h4))"
      using r(1) d Inr
      by (simp add: reconnect_attempt_def Let_def ctx_err_def conn_channel_def conn_close_def x_def k_def
          split: option.splits sum.splits)
    show ?thesis
    proof (cases "x = None \<and> (\<exists>ch. k = Inr ch)")
      case False
      then show ?thesis using pre l3 own2 rest2 by (cases x; cases k) (simp_all add: k_def)
    next
      case True
      then obtain ch where ch: "k = Inr ch" by blast
      let ?s3 = "?s2\<lparr>conn := cn, channel := ch\<rparr>"
      have rest3: "rest_same s ?s3" by (rule rest_same_trans [OF rest2]) simp
      have "\<exists>a s' h'. reconnect_setup L c ?s3 ?h4 = (Returns (a, s'), h') \<and> owns s' h' \<and> rest_same ?s3 s'
         \<and> a \<noteq> GiveUp \<and> (a = Connected \<longrightarrow> up s' h' \<and> channel s' = channel ?s3 \<and> replayed ?s3 (channel ?s3) ?h4 h')"
        by (rule reconnect_setup_spec) (use l3 ch assms(2) in \<open>simp_all add: sdk_limits_def\<close>)
      then obtain a s' h' where su: "reconnect_setup L c ?s3 ?h4 = (Returns (a, s'), h')" "owns s' h'" "rest_same ?s3 s'"
        "a = Connected \<longrightarrow> up s' h' \<and> channel s' = ch \<and> replayed ?s3 ch ?h4 h'"
        by auto
      have "grows quiet h ?h4" by (intro grows_snoc dq) simp_all
      then have "a = Connected \<longrightarrow> up s' h' \<and> replayed s (channel s') h h'"
        using su(4) replayed_cong [of ?s3 ch ?h4 h' h s h'] rest3 by simp
      with su True ch pre rest_same_trans [OF rest3 su(3)] show ?thesis by simp
    qed
  qed
qed

text \<open>Histories only grow.\<close>

abbreviation longer :: "hist \<Rightarrow> hist \<Rightarrow> bool" where
  "longer h h' \<equiv> grows (\<lambda>_. True) h h'"

lemma longer_grows: "grows P h h' \<Longrightarrow> longer h h'"
  by (erule grows_mono) simp

lemma longer_length: "longer h h' \<Longrightarrow> length h \<le> length h'"
  by (auto simp: grows_def)

lemma longer_append: "longer h g \<Longrightarrow> longer h (g @ es)"
  by (auto simp: grows_def list_all_iff)

lemma longer_close: "longer h g \<Longrightarrow> longer h (closeReconnectResources L ch cn g)"
  by (simp add: closeReconnectResources_def env_defs Let_def longer_append)

lemma replay_grows:
  "replay_qos L s h = (e, h') \<Longrightarrow> longer h h'"
  "replay_topology L c s h = (e, h') \<Longrightarrow> longer h h'"
  "replay_consumers L c s h = (e, h') \<Longrightarrow> longer h h'"
proof -
  show "replay_qos L s h = (e, h') \<Longrightarrow> longer h h'"
    by (auto simp: replay_qos_def ch_qos_def Let_def split: if_splits)
  show "replay_topology L c s h = (e, h') \<Longrightarrow> longer h h'"
    using replay_topology_spec longer_grows by blast
  show "replay_consumers L c s h = (e, h') \<Longrightarrow> longer h h'"
    by (auto simp: replay_consumers_def longer_grows dest!: start_grows split: if_splits prod.splits)
qed

lemma reconnect_setup_longer:
  assumes "reconnect_setup L c s h = (r, h')"
  shows "longer h h'"
proof -
  obtain q h0 where q: "replay_qos L s h = (q, h0)" by fastforce
  obtain e h1 where t: "and_then (replay_qos L s h) (replay_topology L c s) = (e, h1)" by fastforce
  have l1: "longer h h1"
    using t q replay_grows(1) [OF q] replay_grows(2) by (cases q) (auto intro: grows_trans)
  obtain n h2 where n: "newPublisherChannelPool L (conn s) (connectionState s) (publisherPoolSize s)
      (publisherMaxPoolSize s) h1 = (n, h2)" by fastforce
  have l2: "longer h h2" using grows_trans [OF l1 longer_grows [OF new_pool_grows [OF n]]] .
  have l3: "longer h (IncReconnects (sdk_metrics s) c h2)"
    using grows_trans [OF l2 longer_grows [OF metric_only_quiet [OF sink.reconnected]]] .
  have l4: "replay_consumers L c s' (IncReconnects (sdk_metrics s) c h2) = (x, h3) \<Longrightarrow> longer h h3" for s' x h3
    using grows_trans [OF l3 replay_grows(3)] .
  show ?thesis
    using assms t n l1 l2 l4
    by (auto simp: reconnect_setup_def state_current_def obind_def Let_def longer_close grows_snoc
        split: option.splits outcome.splits sum.splits prod.splits)
qed

lemma reconnect_attempt_longer:
  assumes "owns s h" "reconnect_attempt L c s h = (r, h')"
  shows "longer h h'"
proof -
  obtain h1 where rel: "reconnect_release L s h = (Returns (s\<lparr>publisherPool := None\<rparr>), h1)" "longer h h1"
    using reconnect_release_spec [OF assms(1)] longer_grows by blast
  obtain d st h2 where d: "DialConfig L (sdk_ctx s) (connectionURL s) (connectionConfig s) (connectionState s) h1 = (d, st, h2)"
    by (metis prod_cases3)
  have l2: "longer h h2" using grows_trans [OF rel(2) longer_grows [OF DialConfig_quiet [OF d]]] .
  have l3: "longer h (h2 @ es)" for es using l2 by (rule longer_append)
  show ?thesis
    using assms(2) rel(1) d l2 l3 grows_trans [OF l3 reconnect_setup_longer]
    by (auto simp: reconnect_attempt_def env_defs Let_def split: sum.splits option.splits)
qed

section \<open>The loop\<close>

text \<open>The last part of the history set everything up on channel \<open>ch\<close>.\<close>

definition replayed_last :: "SDK \<Rightarrow> chan_ref \<Rightarrow> hist \<Rightarrow> bool" where
  "replayed_last s ch h' \<longleftrightarrow> (\<exists>g es. h' = g @ es
     \<and> decls ch es = concat (map topology (declaredQueues s))
     \<and> qos_calls ch es = (if qosConfigured s then [(qosPrefetchCount s, qosPrefetchSize s, qosGlobal s)] else [])
     \<and> consumers ch es = map Name (queues s) \<and> spawned es = concat (map workers (queues s)))"

lemma replayed_lastI: "longer h h' \<Longrightarrow> replayed s ch h h' \<Longrightarrow> replayed_last s ch h'"
  unfolding grows_def replayed_def replayed_last_def
  by (elim exE conjE) (rule exI [of _ h], rule exI, simp)

lemma replayed_last_cong: "rest_same s s1 \<Longrightarrow> replayed_last s1 ch h = replayed_last s ch h"
  by (simp only: replayed_last_def rest_same_fields)

fun loop_ok :: "SDK \<Rightarrow> reconnect_status \<Rightarrow> hist \<Rightarrow> bool" where
  "loop_ok s (Reconnecting s') h \<longleftrightarrow> owns s' h \<and> rest_same s s'"
| "loop_ok s (GaveUp s') h \<longleftrightarrow> owns s' h \<and> rest_same s s'"
| "loop_ok s (Reconnected s') h \<longleftrightarrow> up s' h \<and> rest_same s s' \<and> replayed_last s (channel s') h"

lemma loop_ok_start:
  assumes "rest_same s s1" "loop_ok s1 st h"
  shows "loop_ok s st h"
  using assms rest_same_trans [OF assms(1)] replayed_last_cong [OF assms(1)]
  by (cases st) auto

lemma poll_done_eq: "poll_done L c h = (ctxErr L h c \<noteq> None, h @ [EvSelectDone c (ctxErr L h c)])"
  by (simp add: poll_done_def Let_def)

lemma sdk_limits_rest: "rest_same s s' \<Longrightarrow> sdk_limits s' = sdk_limits s"
  by (simp add: sdk_limits_def rest_same_fields)

lemma reconnect_loop_spec:
  assumes "owns s h" "sdk_limits s"
  shows "\<exists>st h'. reconnect_loop L n c s h = (Returns st, h') \<and> loop_ok s st h'"
  using assms
proof (induction n arbitrary: s h)
  case (Suc n)
  let ?h1 = "h @ [EvSelectDone c (ctxErr L h c)]"
  have own1: "owns s ?h1" by (rule owns_events [OF Suc.prems(1)]) simp_all
  obtain a s1 h2 where at: "reconnect_attempt L c s ?h1 = (Returns (a, s1), h2)" "owns s1 h2" "rest_same s s1"
    "a = Connected \<longrightarrow> up s1 h2 \<and> replayed s (channel s1) ?h1 h2"
    using reconnect_attempt_spec [OF own1 Suc.prems(2)] by blast
  note last_ = replayed_lastI [OF reconnect_attempt_longer [OF own1 at(1)]]
  let ?h3 = "h2 @ [EvWaitReconnect c (reconnectInterval s1) (waitTimer L h2 c)]"
  have own3: "owns s1 ?h3" by (rule owns_events [OF at(2)]) simp_all
  obtain st h' where l: "reconnect_loop L n c s1 ?h3 = (Returns st, h')" "loop_ok s1 st h'"
    using Suc.IH [OF own3] Suc.prems(2) sdk_limits_rest [OF at(3)] by blast
  show ?case
  proof (cases "ctxErr L h c")
    case None
    then show ?thesis
      using at l loop_ok_start [OF at(3) l(2)] own3
      by (cases a) (auto simp: poll_done_eq waitReconnect_def Let_def last_)
  next
    case (Some e)
    then show ?thesis using own1 by (simp add: poll_done_eq)
  qed
qed simp

text \<open>Clearing the flag at the end concerns nothing else.\<close>

lemma flag_free:
  "owns (s\<lparr>reconnecting := b\<rparr>) h = owns s h" "up (s\<lparr>reconnecting := b\<rparr>) h = up s h"
  by (simp_all add: owns_def up_def idle_chans_def sdk_pool_ok_def)

section \<open>A broker that has come back\<close>

definition healthy :: "lib \<Rightarrow> hist \<Rightarrow> bool" where
  "healthy L h \<longleftrightarrow> (\<forall>g. (\<exists>es. g = h @ es) \<longrightarrow>
     (\<forall>u. dialURI L g u = None) \<and> (\<forall>c. \<exists>r. netDial L g c = Inr r) \<and> (\<forall>r t. rawSetDeadline L g r t = None)
     \<and> (\<forall>r. \<exists>k. handshake L g r = Inr k) \<and> (\<forall>c. \<exists>k. connChannel L g c = Inr k) \<and> (\<forall>k. chConfirm L g k = None)
     \<and> (\<forall>k. chQos L g k = None) \<and> (\<forall>k x. exchangeDeclare L g k x = None) \<and> (\<forall>k x. queueDeclare L g k x = None)
     \<and> (\<forall>k x. queueBind L g k x = None) \<and> (\<forall>k x. \<exists>m. chConsume L g k x = Inr m))"

lemma healthy_extend: "healthy L h \<Longrightarrow> healthy L (h @ es)"
  unfolding healthy_def by (metis append_assoc)

lemma healthy_grows: "healthy L h \<Longrightarrow> grows P h h' \<Longrightarrow> healthy L h'"
  by (auto simp: grows_def healthy_extend)

lemma healthy_now:
  assumes "healthy L h"
  shows "dialURI L h u = None" "\<exists>r. netDial L h c = Inr r" "rawSetDeadline L h w t = None"
    "\<exists>k. handshake L h w = Inr k" "\<exists>k. connChannel L h cn = Inr k" "chConfirm L h ch = None"
    "chQos L h ch = None" "exchangeDeclare L h ch x = None" "queueDeclare L h ch x = None"
    "queueBind L h ch x = None" "\<exists>m. chConsume L h ch x = Inr m"
  using assms unfolding healthy_def by (metis append_Nil2)+

lemma healthy_dial: "healthy L h \<Longrightarrow> \<exists>k st' h'. DialConfig L c url cf st h = (Inr k, st', h')"
proof -
  assume h: "healthy L h"
  let ?h1 = "h @ [EvDialURI url None]"
  obtain raw where raw: "netDial L ?h1 c = Inr raw" using healthy_now(2) [OF healthy_extend [OF h]] by blast
  have sd: "rawSetDeadline L (h @ es) w d = None" for es w d
    using healthy_now(3) [OF healthy_extend [OF h]] .
  have "\<exists>g. dial L c (ac_dialTimeout cf) st ?h1 = (Inr raw, state_set L c raw st g)"
    using raw by (simp add: dial_def env_defs Let_def sd split_def) blast
  then obtain st1 h2 where d: "dial L c (ac_dialTimeout cf) st ?h1 = (Inr raw, st1, h2)"
    by (metis prod.collapse)
  obtain k where "handshake L h2 raw = Inr k"
    using healthy_now(4) [OF healthy_grows [OF healthy_extend [OF h] dial_quiet [OF d]]] by blast
  with d healthy_now(1) [OF h] show ?thesis
    by (simp add: DialConfig_def dial_uri_def amqp_handshake_def Let_def)
qed

lemma healthy_declare_loop:
  assumes "\<And>h. ctxErr L h c = None" "\<And>q. q \<in> set qs \<Longrightarrow> queue_validate q = None" "healthy L h"
  shows "fst (declare_loop L ch c qs h) = None"
  using assms(2,3)
proof (induction qs arbitrary: h)
  case (Cons q qs)
  have hs: "exchangeDeclare L (h @ es) ch x = None" "queueDeclare L (h @ es) ch x = None" "queueBind L (h @ es) ch x = None"
    for es x using healthy_now(8-10) [OF healthy_extend [OF Cons.prems(2)]] by simp_all
  have "fst (declare_one L ch c q h) = None"
    using Cons.prems(1) assms(1) hs
    by (auto simp: declare_one_unfold declare_dlq_def declare_delay_def wrapped_def wrap_err_def env_defs Let_def)
  then obtain h1 where h1: "declare_one L ch c q h = (None, h1)" by (metis prod.collapse)
  then have "healthy L h1" using healthy_grows [OF Cons.prems(2)] declare_one_grows [of h L ch c q] by simp
  with Cons h1 show ?case by simp
qed simp

lemma healthy_fill: "healthy L h \<Longrightarrow> fill_pool L n p h \<noteq> (Returns (Inl e), h')"
proof (induction n arbitrary: p h)
  case (Suc n)
  obtain ch where ch: "connChannel L h (pool_conn p) = Inr ch" using healthy_now(5) [OF Suc.prems] by blast
  let ?h1 = "h @ [EvConnChannel (pool_conn p) (Inr ch)]"
  have "chConfirm L ?h1 ch = None" using healthy_now(6) [OF healthy_extend [OF Suc.prems]] by simp
  with ch Suc.IH [OF healthy_extend [OF Suc.prems]] show ?case
    by (auto simp: conn_channel_def ch_confirm_def Let_def split: send_result.splits)
qed simp

lemma healthy_start_loop: "healthy L h \<Longrightarrow> fst (start_loop L ch qs h) = None"
proof (induction qs arbitrary: h)
  case (Cons q qs)
  obtain m where m: "chConsume L h ch (Name q) = Inr m" using healthy_now(11) [OF Cons.prems] by blast
  with Cons.IH show ?case
    using healthy_extend [OF Cons.prems] by (simp add: ch_consume_def Let_def spawn_workers_eq)
qed simp

text \<open>What was declared and started before was valid then, and still is.\<close>

definition replayable :: "SDK \<Rightarrow> bool" where
  "replayable s \<longleftrightarrow> (\<forall>q \<in> set (declaredQueues s). queue_validate q = None) \<and> start_validate (queues s) = None"

lemma healthy_setup:
  assumes "healthy L h" "\<And>h. ctxErr L h c = None" "replayable s" "publisherPool s = None" "sdk_limits s"
  shows "\<exists>s' h'. reconnect_setup L c s h = (Returns (Connected, s'), h')"
proof -
  have "\<exists>es. replay_qos L s h = (None, h @ es)"
    using healthy_now(7) [OF assms(1)] by (simp add: replay_qos_def ch_qos_def Let_def)
  then obtain h1 where q: "replay_qos L s h = (None, h1)" "healthy L h1"
    using healthy_extend [OF assms(1)] by auto
  have "fst (replay_topology L c s h1) = None"
    using healthy_declare_loop [OF assms(2) _ q(2), of "declaredQueues s" "channel s"] assms(3)
    by (auto simp: replay_topology_def declareQueuesLocked_def replayable_def split: prod.splits option.splits)
  then obtain h2 where t: "replay_topology L c s h1 = (None, h2)" by (metis prod.collapse)
  have h2: "healthy L h2" using healthy_grows [OF q(2)] replay_topology_spec [OF t] by blast
  obtain r h3 where n: "newPublisherChannelPool L (conn s) (connectionState s) (publisherPoolSize s)
      (publisherMaxPoolSize s) h2 = (Returns r, h3)"
    using newPublisherChannelPool_spec assms(5) unfolding sdk_limits_def by blast
  with healthy_fill [OF h2] obtain p where p: "r = Inr p"
    by (cases r) (auto simp: newPublisherChannelPool_def split: if_splits)
  let ?s = "s\<lparr>publisherPool := Some p\<rparr>"
  have h3: "healthy L (IncReconnects (sdk_metrics s) c h3)"
    using healthy_grows [OF h2 grows_trans [OF grows_pool_quiet [OF new_pool_grows [OF n]]
          metric_only_quiet [OF sink.reconnected]]] .
  have "fst (replay_consumers L c ?s (IncReconnects (sdk_metrics s) c h3)) = None"
    using assms(2,3) healthy_start_loop [OF healthy_extend [OF h3, of "[EvCtxErr c None]"], of "channel s" "queues s"]
    by (simp add: replay_consumers_def startWithStoreQueuesFlag_def ctx_err_def replayable_def Let_def split_def)
  then obtain h4 where "replay_consumers L c ?s (IncReconnects (sdk_metrics s) c h3) = (None, h4)"
    by (metis prod.collapse)
  with q t n p show ?thesis by (simp add: reconnect_setup_def state_current_def Let_def)
qed

lemma healthy_attempt:
  assumes "healthy L h" "\<And>h. ctxErr L h c = None" "replayable s" "owns s h" "sdk_limits s"
  shows "\<exists>s' h'. reconnect_attempt L c s h = (Returns (Connected, s'), h')"
proof -
  let ?s1 = "s\<lparr>publisherPool := None\<rparr>"
  obtain h1 where r: "reconnect_release L s h = (Returns ?s1, h1)" "grows quiet h h1"
    using reconnect_release_spec [OF assms(4)] by blast
  obtain cn st h2 where d: "DialConfig L (sdk_ctx s) (connectionURL s) (connectionConfig s) (connectionState s) h1 = (Inr cn, st, h2)"
    using healthy_dial [OF healthy_grows [OF assms(1) r(2)]] by blast
  have h2: "healthy L (h2 @ es)" for es
    using healthy_extend [OF healthy_grows [OF healthy_grows [OF assms(1) r(2)] DialConfig_quiet [OF d]]] .
  obtain ch where ch: "connChannel L (h2 @ [EvCtxErr c None]) cn = Inr ch" using healthy_now(5) [OF h2] by blast
  let ?s3 = "?s1\<lparr>connectionState := st\<rparr>\<lparr>conn := cn, channel := ch\<rparr>"
  have "\<exists>s' h'. reconnect_setup L c ?s3 ((h2 @ [EvCtxErr c None]) @ [EvConnChannel cn (Inr ch)]) = (Returns (Connected, s'), h')"
    by (rule healthy_setup) (use h2 assms(2,3,5) in \<open>simp_all add: replayable_def sdk_limits_def\<close>)
  then show ?thesis
    using r(1) d ch assms(2) by (simp add: reconnect_attempt_def Let_def ctx_err_def conn_channel_def)
qed

text \<open>Only a context that is done makes an attempt give up.\<close>

lemma reconnect_attempt_no_giveup:
  assumes "\<And>h. ctxErr L h c = None" "owns s h" "sdk_limits s"
  shows "reconnect_attempt L c s h \<noteq> (Returns (GiveUp, s'), h')"
proof
  assume at: "reconnect_attempt L c s h = (Returns (GiveUp, s'), h')"
  let ?s1 = "s\<lparr>publisherPool := None\<rparr>"
  obtain h1 where r: "reconnect_release L s h = (Returns ?s1, h1)" "live_conns h1 = {#}" "live_chans h1 = {#}"
    using reconnect_release_spec [OF assms(2)] by blast
  obtain d st h2 where d: "DialConfig L (sdk_ctx s) (connectionURL s) (connectionConfig s) (connectionState s) h1 = (d, st, h2)"
    by (metis prod_cases3)
  have "\<exists>cn ch. reconnect_setup L c (?s1\<lparr>connectionState := st\<rparr>\<lparr>conn := cn, channel := ch\<rparr>)
      (h2 @ [EvCtxErr c None, EvConnChannel cn (Inr ch)]) = (Returns (GiveUp, s'), h') \<and> d = Inr cn"
    using at r(1) d assms(1)
    by (auto simp: reconnect_attempt_def ctx_err_def conn_channel_def conn_close_def Let_def split: sum.splits)
  then obtain cn ch where su: "reconnect_setup L c (?s1\<lparr>connectionState := st\<rparr>\<lparr>conn := cn, channel := ch\<rparr>)
      (h2 @ [EvCtxErr c None, EvConnChannel cn (Inr ch)]) = (Returns (GiveUp, s'), h')" "d = Inr cn" by blast
  show False
    using reconnect_setup_spec [of "h2 @ [EvCtxErr c None, EvConnChannel cn (Inr ch)]"
        "?s1\<lparr>connectionState := st\<rparr>\<lparr>conn := cn, channel := ch\<rparr>" L c] su DialConfig_live [OF d] r assms(3)
    by (simp add: sdk_limits_def)
qed

text \<open>Histories only grow, so a broker that recovers after some time is healthy at some round.\<close>

lemma reconnect_loop_reaches:
  assumes recov: "\<And>h. N \<le> length h \<Longrightarrow> healthy L h"
    and ctx: "\<And>h. ctxErr L h c = None" and timer: "\<And>h. waitTimer L h c"
  shows "owns s h \<Longrightarrow> sdk_limits s \<Longrightarrow> replayable s \<Longrightarrow> N \<le> length h + n \<Longrightarrow>
     \<exists>s' h'. reconnect_loop L (Suc n) c s h = (Returns (Reconnected s'), h') \<and> up s' h' \<and> rest_same s s'"
proof (induction n arbitrary: s h)
  case 0
  let ?h1 = "h @ [EvSelectDone c None]"
  have own1: "owns s ?h1" by (rule owns_events [OF 0(1)]) simp_all
  have "healthy L ?h1" using 0 by (intro recov) simp
  then obtain s' h' where a: "reconnect_attempt L c s ?h1 = (Returns (Connected, s'), h')"
    using healthy_attempt [OF _ ctx 0(3) own1 0(2)] by blast
  with reconnect_attempt_spec [OF own1 0(2), of L c] show ?case
    by (auto simp: poll_done_eq ctx)
next
  case (Suc n)
  let ?h1 = "h @ [EvSelectDone c None]"
  have own1: "owns s ?h1" by (rule owns_events [OF Suc.prems(1)]) simp_all
  obtain a s1 h2 where at: "reconnect_attempt L c s ?h1 = (Returns (a, s1), h2)" "owns s1 h2" "rest_same s s1"
    "a = Connected \<longrightarrow> up s1 h2"
    using reconnect_attempt_spec [OF own1 Suc.prems(2)] by blast
  have not_up: "a \<noteq> GiveUp"
    using at(1) reconnect_attempt_no_giveup [OF ctx own1 Suc.prems(2)] by blast
  have len: "length ?h1 \<le> length h2" using longer_length [OF reconnect_attempt_longer [OF own1 at(1)]] .
  let ?h3 = "h2 @ [EvWaitReconnect c (reconnectInterval s1) (waitTimer L h2 c)]"
  have "\<exists>s' h'. reconnect_loop L (Suc n) c s1 ?h3 = (Returns (Reconnected s'), h') \<and> up s' h' \<and> rest_same s1 s'"
  proof (rule Suc.IH)
    show "owns s1 ?h3" by (rule owns_events [OF at(2)]) simp_all
    show "sdk_limits s1" using sdk_limits_rest [OF at(3)] Suc.prems(2) by simp
    show "replayable s1" using rest_same_fields [OF at(3)] Suc.prems(3) by (simp add: replayable_def)
    show "N \<le> length ?h3 + n" using Suc.prems(4) len by simp
  qed
  then show ?case
    using at not_up rest_same_trans [OF at(3)]
    by (cases a) (auto simp: poll_done_eq ctx waitReconnect_def timer Let_def simp del: reconnect_loop.simps(2)
        simp: reconnect_loop.simps(2) [of L "Suc n"])
qed

section \<open>What the monitor does\<close>

fun error_notice :: "event \<Rightarrow> bool" where
  "error_notice (EvMonitor (Notified _ (Some (Some _)))) = True"
| "error_notice _ = False"

text \<open>How the monitor ends: after at most as many notifications as channels are open.\<close>

definition monitored :: "SDK \<Rightarrow> nat \<Rightarrow> hist \<Rightarrow> SDK \<Rightarrow> hist \<Rightarrow> bool" where
  "monitored s k h s' h' \<longleftrightarrow> (\<exists>es. h' = h @ es \<and> length es \<le> Suc k
     \<and> length (filter (\<lambda>e. e \<noteq> EvSpawnReconnect) es) \<le> k
     \<and> (EvSpawnReconnect \<in> set es \<longleftrightarrow> \<not> reconnecting s \<and> list_ex error_notice es)
     \<and> s' = s\<lparr>reconnecting := reconnecting s \<or> EvSpawnReconnect \<in> set es\<rparr>)"

lemma reconnecting_same: "s\<lparr>reconnecting := reconnecting s\<rparr> = s"
  by (cases s) simp

lemma handleCloseError_monitored:
  "monitored s (Suc 0) h (fst (handleCloseError e s (h @ [EvMonitor (Notified p (Some e))])))
     (snd (handleCloseError e s (h @ [EvMonitor (Notified p (Some e))])))"
  by (cases e) (auto simp: monitored_def handleCloseError_def reconnecting_same intro: sym [OF reconnecting_same])

lemma monitored_later:
  assumes "monitored s k (h @ [EvMonitor (Notified p None)]) s' h'"
  shows "monitored s (Suc k) h s' h'"
proof -
  obtain es where "h' = h @ EvMonitor (Notified p None) # es" "length es \<le> Suc k"
    "length (filter (\<lambda>e. e \<noteq> EvSpawnReconnect) es) \<le> k"
    "EvSpawnReconnect \<in> set es \<longleftrightarrow> \<not> reconnecting s \<and> list_ex error_notice es"
    "s' = s\<lparr>reconnecting := reconnecting s \<or> EvSpawnReconnect \<in> set es\<rparr>"
    using assms unfolding monitored_def append_assoc append_Cons append_Nil by blast
  then show ?thesis
    unfolding monitored_def by (intro exI [of _ "EvMonitor (Notified p None) # es"]) auto
qed

lemma monitored_mono: "monitored s k h s' h' \<Longrightarrow> k \<le> k' \<Longrightarrow> monitored s k' h s' h'"
  by (auto simp: monitored_def)

lemma monitor_spec:
  "monitored s (of_bool a + of_bool b) h (fst (monitorConnection L a b s h)) (snd (monitorConnection L a b s h))"
proof (induction L a b s h rule: monitorConnection.induct)
  case (1 L a b s h)
  define ev where "ev = monitorSelect L h"
  let ?h1 = "h @ [EvMonitor ev]" and ?k = "of_bool a + of_bool b :: nat"
  show ?case
  proof (cases "a \<or> b")
    case False
    then show ?thesis by (simp add: monitorConnection.simps monitored_def reconnecting_same)
  next
    case True
    have sel: "monitor_select L h = (ev, ?h1)" by (simp add: monitor_select_def ev_def Let_def)
    show ?thesis
    proof (cases ev)
      case MonitorDone
      with True sel show ?thesis
        by (subst (1 2) monitorConnection.simps) (auto simp: monitored_def reconnecting_same)
    next
      case (Notified p v)
      define on where "on = (if a \<and> b then p else a)"
      have ab: "\<not> (\<not> a \<and> \<not> b)" using True by simp
      have on: "on = (if a \<and> b then p else a)" by (simp add: on_def)
      show ?thesis
      proof (cases v)
        case None
        have eq: "monitorConnection L a b s h =
            (if on then monitorConnection L False b s ?h1 else monitorConnection L a False s ?h1)"
          using True sel Notified None by (auto simp: monitorConnection.simps [of L a b] on_def)
        have open_: "(on \<longrightarrow> a) \<and> (\<not> on \<longrightarrow> b)" using True by (auto simp: on_def split: if_splits)
        show ?thesis
        proof (cases on)
          case True
          have "monitored s (of_bool b) ?h1 (fst (monitorConnection L False b s ?h1)) (snd (monitorConnection L False b s ?h1))"
            using "1.IH"(1) [OF ab sel [symmetric] Notified on None True] by simp
          from monitored_later [OF this [unfolded Notified None]] show ?thesis
            using eq True open_ Notified None by simp
        next
          case False
          have "monitored s (of_bool a) ?h1 (fst (monitorConnection L a False s ?h1)) (snd (monitorConnection L a False s ?h1))"
            using "1.IH"(2) [OF ab sel [symmetric] Notified on None False] by simp
          from monitored_later [OF this [unfolded Notified None]] show ?thesis
            using eq False open_ Notified None by simp
        qed
      next
        case (Some e)
        have "monitorConnection L a b s h = handleCloseError e s ?h1"
          using True sel Notified Some by (auto simp: monitorConnection.simps [of L a b])
        then show ?thesis
          using monitored_mono [OF handleCloseError_monitored, of ?k s h e p] True Notified Some by auto
      qed
    qed
  qed
qed

section \<open>A running SDK\<close>

text \<open>The sample SDK after it has declared and started queues and set its quality of service.\<close>

definition running_sdk :: SDK where
  "running_sdk = sample_sdk\<lparr>declaredQueues := [ordersQueue, scheduledQueue], queues := [ordersQueue],
     qosConfigured := True, qosPrefetchCount := 10\<rparr>"

lemma running_sdk_ok: "owns running_sdk sample_hist" "sdk_limits running_sdk" "replayable running_sdk"
proof -
  show "owns running_sdk sample_hist"
    by (rule owns_fields [OF sample_owns]) (simp_all add: running_sdk_def)
  show "sdk_limits running_sdk"
    by (simp add: running_sdk_def sdk_limits_def sample_sdk_def in_int32_def)
  have "Handler ordersQueue \<noteq> None" "0 < NumWorkers ordersQueue" by (simp_all add: ordersQueue_def)
  then show "replayable running_sdk"
    using example_queues_valid by (simp add: running_sdk_def replayable_def)
qed

lemma calm_healthy: "healthy calm_lib h"
  by (simp add: healthy_def)

section \<open>Properties\<close>

text \<open>
  C5: a reconnect that succeeds restores everything the caller had set up. For any number of
  failed attempts before it, \<^verbatim>\<open>reconnect\<close> returns with one open connection, one consume channel
  and a full publisher pool; on the new channel the quality of service was set as configured,
  every declared queue was declared again with its whole topology, and every started queue is
  consumed again by its configured workers; the remaining configuration is unchanged.
\<close>

theorem reconnect_replays_everything:
  assumes "owns s h" "sdk_limits s"
  shows "\<exists>st h'. reconnect L n c s h = (Returns st, h') \<and>
     (case st of
        Reconnected s' \<Rightarrow>
          live_conns h' = {#conn s'#} \<and> live_chans h' = {#channel s'#} + idle_chans s'
          \<and> int (size (idle_chans s')) = publisherPoolSize s \<and> \<not> reconnecting s'
          \<and> queues s' = queues s \<and> declaredQueues s' = declaredQueues s
          \<and> (\<exists>g es. h' = g @ es \<and> decls (channel s') es = concat (map topology (declaredQueues s))
               \<and> qos_calls (channel s') es
                   = (if qosConfigured s then [(qosPrefetchCount s, qosPrefetchSize s, qosGlobal s)] else [])
               \<and> consumers (channel s') es = map Name (queues s)
               \<and> spawned es = concat (map workers (queues s)))
      | GaveUp s' \<Rightarrow> owns s' h' \<and> \<not> reconnecting s'
      | Reconnecting s' \<Rightarrow> owns s' h')"
proof -
  obtain st h' where l: "reconnect_loop L n c s h = (Returns st, h')" "loop_ok s st h'"
    using reconnect_loop_spec [OF assms] by blast
  show ?thesis
  proof (cases st)
    case (Reconnected s')
    then have r: "rest_same s s'" and u: "up s' h'" and p: "replayed_last s (channel s') h'" using l(2) by simp_all
    have u': "live_conns h' = {#conn s'#}" "live_chans h' = {#channel s'#} + idle_chans s'"
      "int (size (idle_chans s')) = publisherPoolSize s"
      using u rest_same_fields(7) [OF r] by (simp_all add: up_def)
    show ?thesis
      using l(1) Reconnected u' p rest_same_fields(1,2) [OF r]
      by (simp add: reconnect_def replayed_last_def idle_chans_def)
  qed (use l in \<open>simp_all add: reconnect_def flag_free\<close>)
qed

theorem reconnect_replays_everything_witness:
  "\<exists>st h'. reconnect calm_lib 3 (CtxOf 0) running_sdk sample_hist = (Returns st, h') \<and>
     (case st of Reconnected s' \<Rightarrow> live_conns h' = {#conn s'#} \<and> queues s' = [ordersQueue] | _ \<Rightarrow> True)"
proof -
  obtain st h' where st: "reconnect calm_lib 3 (CtxOf 0) running_sdk sample_hist = (Returns st, h')"
    "case st of Reconnected s' \<Rightarrow> live_conns h' = {#conn s'#} \<and> queues s' = queues running_sdk | _ \<Rightarrow> True"
    using reconnect_replays_everything [OF running_sdk_ok(1,2), of calm_lib 3 "CtxOf 0"]
    by (fastforce split: reconnect_status.splits)
  moreover have "queues running_sdk = [ordersQueue]" by (simp add: running_sdk_def)
  ultimately show ?thesis by (cases st) auto
qed

text \<open>
  The monitor of a connection always ends, after at most one event of each of its two
  notification channels. It starts a reconnect exactly when it was told of an error and no
  reconnect was under way; a graceful close or a cancelled context starts none.
\<close>

theorem monitor_starts_reconnect_on_error:
  "\<exists>s' es. monitorConnection L True True s h = (s', h @ es)
     \<and> length (filter (\<lambda>e. e \<noteq> EvSpawnReconnect) es) \<le> 2
     \<and> (EvSpawnReconnect \<in> set es \<longleftrightarrow> \<not> reconnecting s \<and> list_ex error_notice es)
     \<and> reconnecting s' = (reconnecting s \<or> EvSpawnReconnect \<in> set es)"
proof -
  have "monitored s 2 h (fst (monitorConnection L True True s h)) (snd (monitorConnection L True True s h))"
    using monitor_spec [of s True True h L] by (simp add: numeral_2_eq_2)
  then show ?thesis
    unfolding monitored_def by (cases "monitorConnection L True True s h") auto
qed

end
