(* ===== verification/Connection_Races.thy ===== *)
theory Connection_Races
  imports Go_Prelude
begin

text \<open>
  Two interleaving models of the goroutines around the connection. The first has the monitors
  and reconnects of \<^verbatim>\<open>reconnect.go\<close> and their flag \<^verbatim>\<open>reconnecting\<close>; the second the dial function
  racing with \<^verbatim>\<open>Shutdown\<close> over \<^verbatim>\<open>connectionState\<close>. Both prove their invariants through
  \<open>safety_system\<close>.
\<close>

section \<open>Monitors and reconnects\<close>

text \<open>
  A goroutine is a monitor of a connection, a reconnect that has no connection yet, that has
  installed one, that has spawned the monitor of the new connection and has only its
  deferred store left, or it has returned.
\<close>

datatype goroutine = Watching nat | Dialling | Installed | Leaving | Returned

record net =
  flag :: bool
  generation :: nat
  alive :: bool
  stopped :: bool
  goroutines :: "goroutine list"

text \<open>
  Connections are numbered; only the newest can be alive. \<open>lose\<close> is the network (or the setup
  closing what it could not finish) and \<open>stop\<close> the cancellation by \<^verbatim>\<open>Shutdown\<close>; the other steps
  are the code: the two outcomes of the compare-and-swap in \<^verbatim>\<open>handleCloseError\<close>, a monitor that
  sees the context done, a successful dial, a setup that fails because the new connection is
  gone again, a reconnect that gives up, the spawning of the new monitor, and the deferred store.
\<close>

inductive net_step :: "net \<Rightarrow> net \<Rightarrow> bool" where
  lose: "alive s \<Longrightarrow> net_step s (s\<lparr>alive := False\<rparr>)"
| stop: "net_step s (s\<lparr>stopped := True\<rparr>)"
| notice: "i < length (goroutines s) \<Longrightarrow> goroutines s ! i = Watching g \<Longrightarrow> g < generation s \<or> \<not> alive s \<Longrightarrow>
     \<not> flag s \<Longrightarrow> net_step s (s\<lparr>flag := True, goroutines := (goroutines s)[i := Returned] @ [Dialling]\<rparr>)"
| ignore: "i < length (goroutines s) \<Longrightarrow> goroutines s ! i = Watching g \<Longrightarrow> g < generation s \<or> \<not> alive s \<Longrightarrow>
     flag s \<Longrightarrow> net_step s (s\<lparr>goroutines := (goroutines s)[i := Returned]\<rparr>)"
| dismiss: "i < length (goroutines s) \<Longrightarrow> goroutines s ! i = Watching g \<Longrightarrow> stopped s \<Longrightarrow>
     net_step s (s\<lparr>goroutines := (goroutines s)[i := Returned]\<rparr>)"
| install: "i < length (goroutines s) \<Longrightarrow> goroutines s ! i = Dialling \<Longrightarrow>
     net_step s (s\<lparr>generation := Suc (generation s), alive := True, goroutines := (goroutines s)[i := Installed]\<rparr>)"
| fail: "i < length (goroutines s) \<Longrightarrow> goroutines s ! i = Installed \<Longrightarrow> \<not> alive s \<Longrightarrow>
     net_step s (s\<lparr>goroutines := (goroutines s)[i := Dialling]\<rparr>)"
| give_up: "i < length (goroutines s) \<Longrightarrow> goroutines s ! i = Dialling \<Longrightarrow> stopped s \<Longrightarrow>
     net_step s (s\<lparr>goroutines := (goroutines s)[i := Leaving]\<rparr>)"
| spawn: "i < length (goroutines s) \<Longrightarrow> goroutines s ! i = Installed \<Longrightarrow>
     net_step s (s\<lparr>goroutines := (goroutines s)[i := Leaving] @ [Watching (generation s)]\<rparr>)"
| store: "i < length (goroutines s) \<Longrightarrow> goroutines s ! i = Leaving \<Longrightarrow>
     net_step s (s\<lparr>flag := False, goroutines := (goroutines s)[i := Returned]\<rparr>)"

inductive_cases net_stepE: "net_step s t"

text \<open>A new SDK: connected, with one monitor.\<close>

definition net_init :: "net \<Rightarrow> bool" where
  "net_init s \<longleftrightarrow> s = \<lparr>flag = False, generation = 0, alive = True, stopped = False, goroutines = [Watching 0]\<rparr>"

fun is_reconnect :: "goroutine \<Rightarrow> nat" where
  "is_reconnect Dialling = 1"
| "is_reconnect Installed = 1"
| "is_reconnect Leaving = 1"
| "is_reconnect _ = 0"

definition reconnects :: "net \<Rightarrow> nat" where
  "reconnects s = sum_list (map is_reconnect (goroutines s))"

definition net_inv :: "net \<Rightarrow> bool" where
  "net_inv s \<longleftrightarrow> reconnects s = of_bool (flag s)"

lemma reconnects_update:
  "i < length gs \<Longrightarrow> sum_list (map is_reconnect (gs[i := x])) + is_reconnect (gs ! i)
     = sum_list (map is_reconnect gs) + is_reconnect x"
  by (rule sum_list_map_update)

lemma net_step_inv: "net_step s t \<Longrightarrow> net_inv s \<Longrightarrow> net_inv t"
proof (induction rule: net_step.induct)
  case (store i s)
  then show ?case
    using reconnects_update [of i "goroutines s" Returned]
    by (cases "flag s") (auto simp: net_inv_def reconnects_def simp del: sum_list_eq_0_iff)
next
  case (notice i s g)
  then show ?case
    using reconnects_update [of i "goroutines s" Returned] by (auto simp: net_inv_def reconnects_def)
next
  case (ignore i s g)
  then show ?case
    using reconnects_update [of i "goroutines s" Returned] by (auto simp: net_inv_def reconnects_def)
next
  case (install i s)
  then show ?case
    using reconnects_update [of i "goroutines s" Installed] by (auto simp: net_inv_def reconnects_def)
next
  case (fail i s)
  then show ?case
    using reconnects_update [of i "goroutines s" Dialling] by (auto simp: net_inv_def reconnects_def)
next
  case (spawn i s)
  then show ?case
    using reconnects_update [of i "goroutines s" Leaving] by (auto simp: net_inv_def reconnects_def)
next
  case (dismiss i s g)
  then show ?case
    using reconnects_update [of i "goroutines s" Returned] by (auto simp: net_inv_def reconnects_def)
next
  case (give_up i s)
  then show ?case
    using reconnects_update [of i "goroutines s" Leaving] by (auto simp: net_inv_def reconnects_def)
qed (simp_all add: net_inv_def reconnects_def)

interpretation connection_net: safety_system net_init net_step net_inv
proof unfold_locales
  show "net_init s \<Longrightarrow> net_inv s" for s
    by (simp add: net_init_def net_inv_def reconnects_def)
  show "net_inv s \<Longrightarrow> net_step s t \<Longrightarrow> net_inv t" for s t
    by (rule net_step_inv)
qed

text \<open>The interleaving in which the new connection is lost before the deferred store.\<close>

lemma lost_run:
  "reach net_init net_step \<lparr>flag = False, generation = 1, alive = False, stopped = False, goroutines = [Returned, Returned, Returned]\<rparr>"
proof -
  let ?n = "\<lambda>f g a gs. \<lparr>flag = f, generation = g, alive = a, stopped = False, goroutines = gs\<rparr>"
  have "reach net_init net_step (?n False 0 True [Watching 0])"
    by (rule reach_init) (simp add: net_init_def)
  then have "reach net_init net_step (?n False 0 False [Watching 0])"
    using reach_step lose [of "?n False 0 True [Watching 0]"] by fastforce
  then have "reach net_init net_step (?n True 0 False [Returned, Dialling])"
    using reach_step notice [of 0 "?n False 0 False [Watching 0]" 0] by fastforce
  then have "reach net_init net_step (?n True 1 True [Returned, Installed])"
    using reach_step install [of 1 "?n True 0 False [Returned, Dialling]"] by fastforce
  then have "reach net_init net_step (?n True 1 True [Returned, Leaving, Watching 1])"
    using reach_step spawn [of 1 "?n True 1 True [Returned, Installed]"] by fastforce
  then have "reach net_init net_step (?n True 1 False [Returned, Leaving, Watching 1])"
    using reach_step lose [of "?n True 1 True [Returned, Leaving, Watching 1]"] by fastforce
  then have "reach net_init net_step (?n True 1 False [Returned, Leaving, Returned])"
    using reach_step ignore [of 2 "?n True 1 False [Returned, Leaving, Watching 1]" 1] by fastforce
  then show ?thesis
    using reach_step store [of 1 "?n True 1 False [Returned, Leaving, Returned]"] by fastforce
qed

text \<open>Without a monitor and a reconnect the SDK stays as it is, apart from being shut down.\<close>

definition abandoned :: "net \<Rightarrow> bool" where
  "abandoned s \<longleftrightarrow> \<not> alive s \<and> list_all (\<lambda>g. g = Returned) (goroutines s)"

lemma abandoned_step: "net_step s t \<Longrightarrow> abandoned s \<Longrightarrow> abandoned t"
  by (auto elim!: net_stepE simp: abandoned_def list_all_length)

lemma abandoned_steps: "net_step\<^sup>*\<^sup>* s t \<Longrightarrow> abandoned s \<Longrightarrow> abandoned t"
  by (induction rule: rtranclp_induct) (auto intro: abandoned_step)

lemma abandoned_reconnects: "abandoned s \<Longrightarrow> reconnects s = 0"
  by (auto simp: abandoned_def reconnects_def list_all_iff)

section \<open>Dialling against Shutdown\<close>

text \<open>
  The dial function has opened a network connection \<open>r\<close> (\<open>Opened\<close>), has stored it in
  \<^verbatim>\<open>connectionState\<close> (\<open>Stored\<close>), has seen the context cancelled and will interrupt
  (\<open>Interrupting\<close>), or is through. \<^verbatim>\<open>Shutdown\<close> cancels, interrupts, and is through.
\<close>

datatype dial_pc = Opened nat | Stored nat | Interrupting nat | DialThrough nat
datatype shut_pc = ToCancel | ToInterrupt | ShutThrough

record dial_race =
  dpc :: dial_pc
  spc :: shut_pc
  cancelled :: bool
  slot :: "nat option"
  open_raws :: "nat set"

definition close_slot :: "dial_race \<Rightarrow> dial_race" where
  "close_slot s = s\<lparr>open_raws := open_raws s - set_option (slot s)\<rparr>"

inductive race_step :: "dial_race \<Rightarrow> dial_race \<Rightarrow> bool" where
  store_raw: "dpc s = Opened r \<Longrightarrow> race_step s (s\<lparr>dpc := Stored r, slot := Some r\<rparr>)"
| check_ok: "dpc s = Stored r \<Longrightarrow> \<not> cancelled s \<Longrightarrow> race_step s (s\<lparr>dpc := DialThrough r\<rparr>)"
| check_err: "dpc s = Stored r \<Longrightarrow> cancelled s \<Longrightarrow> race_step s (s\<lparr>dpc := Interrupting r\<rparr>)"
| dial_interrupt: "dpc s = Interrupting r \<Longrightarrow> race_step s ((close_slot s)\<lparr>dpc := DialThrough r\<rparr>)"
| shut_cancel: "spc s = ToCancel \<Longrightarrow> race_step s (s\<lparr>spc := ToInterrupt, cancelled := True\<rparr>)"
| shut_interrupt: "spc s = ToInterrupt \<Longrightarrow> race_step s ((close_slot s)\<lparr>spc := ShutThrough\<rparr>)"

definition race_init :: "dial_race \<Rightarrow> bool" where
  "race_init s \<longleftrightarrow> (\<exists>r. dpc s = Opened r) \<and> spc s = ToCancel \<and> \<not> cancelled s"

fun raw_of :: "dial_pc \<Rightarrow> nat" where
  "raw_of (Opened r) = r"
| "raw_of (Stored r) = r"
| "raw_of (Interrupting r) = r"
| "raw_of (DialThrough r) = r"

text \<open>
  Once stored the connection stays in the slot; a dial that is through either saw no
  cancellation, so that \<^verbatim>\<open>Shutdown\<close> interrupts later, or has closed the connection itself.
\<close>

definition race_inv :: "dial_race \<Rightarrow> bool" where
  "race_inv s \<longleftrightarrow> (cancelled s \<longleftrightarrow> spc s \<noteq> ToCancel)
     \<and> ((\<exists>r. dpc s = Opened r) \<or> slot s = Some (raw_of (dpc s)))
     \<and> (\<forall>r. dpc s = DialThrough r \<longrightarrow> spc s = ShutThrough \<longrightarrow> r \<notin> open_raws s)"

lemma race_step_inv: "race_step s t \<Longrightarrow> race_inv s \<Longrightarrow> race_inv t"
  by (induction rule: race_step.induct) (auto simp: race_inv_def close_slot_def)

interpretation dial_shutdown: safety_system race_init race_step race_inv
proof unfold_locales
  show "race_init s \<Longrightarrow> race_inv s" for s
    by (auto simp: race_init_def race_inv_def)
  show "race_inv s \<Longrightarrow> race_step s t \<Longrightarrow> race_inv t" for s t
    by (rule race_step_inv)
qed

section \<open>Properties\<close>

text \<open>
  However connections are lost and goroutines interleave, at most one reconnect runs at a
  time, and one runs exactly while the flag \<^verbatim>\<open>reconnecting\<close> is set.
\<close>

theorem at_most_one_reconnect:
  assumes "reach net_init net_step s"
  shows "reconnects s \<le> 1 \<and> (flag s \<longleftrightarrow> reconnects s = 1)"
  using connection_net.reach_inv [OF assms] by (auto simp: net_inv_def)

theorem at_most_one_reconnect_witness:
  "reconnects \<lparr>flag = False, generation = 1, alive = False, stopped = False, goroutines = [Returned, Returned, Returned]\<rparr> \<le> 1"
  using at_most_one_reconnect [OF lost_run] by simp

text \<open>
  C21: a lost connection can go unnoticed. The reconnect spawns the monitor of the new
  connection before its deferred store clears the flag; if the new connection is lost in
  between, the monitor finds the flag still set and returns, and then the flag is cleared.
  The SDK is then disconnected although nobody shut it down, and whatever happens from then on
  it is never connected again and no reconnect is ever started.
\<close>

theorem lost_connection_can_go_unnoticed:
  "\<exists>s. reach net_init net_step s \<and> \<not> alive s \<and> \<not> stopped s \<and> \<not> flag s
     \<and> (\<forall>t. \<not> (net_step\<^sup>*\<^sup>* s t \<and> (alive t \<or> 0 < reconnects t)))"
proof -
  let ?fin = "\<lparr>flag = False, generation = 1, alive = False, stopped = False, goroutines = [Returned, Returned, Returned]\<rparr>"
  have "abandoned ?fin" by (simp add: abandoned_def)
  then have "\<not> (net_step\<^sup>*\<^sup>* ?fin t \<and> (alive t \<or> 0 < reconnects t))" for t
    using abandoned_steps [of ?fin t] abandoned_reconnects [of t] by (auto simp: abandoned_def)
  then show ?thesis using lost_run by (intro exI [of _ ?fin]) simp
qed

text \<open>
  C22: a connection dialled while the SDK shuts down does not survive: in whatever order the dial
  function and \<^verbatim>\<open>Shutdown\<close> run, once both are through the new network connection is closed.
\<close>

theorem dial_during_shutdown_is_closed:
  assumes "reach race_init race_step s" "dpc s = DialThrough r" "spc s = ShutThrough"
  shows "r \<notin> open_raws s"
  using dial_shutdown.reach_inv [OF assms(1)] assms(2,3) by (auto simp: race_inv_def)

text \<open>The dial has opened its connection when \<^verbatim>\<open>Shutdown\<close> cancels and finds nothing to interrupt.\<close>

theorem dial_during_shutdown_is_closed_witness:
  "\<exists>s0 s. race_init s0 \<and> dpc s0 = Opened 7 \<and> 7 \<in> open_raws s0 \<and> race_step\<^sup>*\<^sup>* s0 s
     \<and> dpc s = DialThrough 7 \<and> spc s = ShutThrough \<and> 7 \<notin> open_raws s"
proof -
  let ?d = "\<lambda>d p c sl os. \<lparr>dpc = d, spc = p, cancelled = c, slot = sl, open_raws = os\<rparr> :: dial_race"
  let ?start = "?d (Opened 7) ToCancel False None {7}" and ?fin = "?d (DialThrough 7) ShutThrough True (Some 7) {}"
  have "race_step ?start (?d (Opened 7) ToInterrupt True None {7})"
    using shut_cancel [of ?start] by simp
  moreover have "race_step (?d (Opened 7) ToInterrupt True None {7}) (?d (Opened 7) ShutThrough True None {7})"
    using shut_interrupt [of "?d (Opened 7) ToInterrupt True None {7}"] by (simp add: close_slot_def)
  moreover have "race_step (?d (Opened 7) ShutThrough True None {7}) (?d (Stored 7) ShutThrough True (Some 7) {7})"
    using store_raw [of "?d (Opened 7) ShutThrough True None {7}" 7] by simp
  moreover have "race_step (?d (Stored 7) ShutThrough True (Some 7) {7}) (?d (Interrupting 7) ShutThrough True (Some 7) {7})"
    using check_err [of "?d (Stored 7) ShutThrough True (Some 7) {7}" 7] by simp
  moreover have "race_step (?d (Interrupting 7) ShutThrough True (Some 7) {7}) ?fin"
    using dial_interrupt [of "?d (Interrupting 7) ShutThrough True (Some 7) {7}" 7] by (simp add: close_slot_def)
  ultimately have run: "race_step\<^sup>*\<^sup>* ?start ?fin" by (meson converse_rtranclp_into_rtranclp rtranclp.rtrancl_refl)
  have init: "race_init ?start" by (simp add: race_init_def)
  have "reach race_init race_step ?fin" by (rule reach_steps [OF run]) (rule reach_init, rule init)
  from dial_during_shutdown_is_closed [OF this, of 7] init run show ?thesis
    by (intro exI [of _ ?start] exI [of _ ?fin]) simp
qed

end
