(* ===== verification/Sdk_Goroutines.thy ===== *)
theory Sdk_Goroutines
  imports Go_Prelude
begin

text \<open>
  The goroutines of one SDK over everything they share: \<^verbatim>\<open>SDK.mu\<close>, the readers-writer lock
  \<^verbatim>\<open>publisherMu\<close>, the wait group, the context, the flag \<^verbatim>\<open>reconnecting\<close>, the \<^verbatim>\<open>closeOnce\<close>, the
  current publisher pool and the connection. Any number of callers publish, configure, start
  consumers and shut the SDK down while workers, monitors and reconnects run; one step of the
  system is one lock operation of one goroutine, or what it does between two of them.

  The pool operations are single steps here. That \<^verbatim>\<open>get\<close>, \<^verbatim>\<open>put\<close> and \<^verbatim>\<open>close\<close> of one pool
  tolerate each other in every interleaving is the subject of \<open>Pool_Concurrency\<close>; this theory
  is about the pool being swapped underneath its users.
\<close>

section \<open>What the goroutines share\<close>

datatype once = NotRun | Running | Ran

text \<open>A \<^verbatim>\<open>sync.Once\<close> goes through its stages in this order.\<close>

fun stage :: "once \<Rightarrow> nat" where
  "stage NotRun = 0"
| "stage Running = 1"
| "stage Ran = 2"

instantiation once :: linorder
begin

definition less_eq_once :: "once \<Rightarrow> once \<Rightarrow> bool" where
  "less_eq_once a b \<longleftrightarrow> stage a \<le> stage b"

definition less_once :: "once \<Rightarrow> once \<Rightarrow> bool" where
  "less_once a b \<longleftrightarrow> stage a < stage b"

instance
proof
  fix a b c :: once
  show "a < b \<longleftrightarrow> a \<le> b \<and> \<not> b \<le> a" by (auto simp: less_eq_once_def less_once_def)
  show "a \<le> b \<Longrightarrow> b \<le> a \<Longrightarrow> a = b" by (cases a; cases b) (simp_all add: less_eq_once_def)
qed (auto simp: less_eq_once_def)

end

lemma Ran_top [simp]: "a \<le> Ran" "Ran \<le> a \<longleftrightarrow> a = Ran"
  by (cases a; simp add: less_eq_once_def)+

lemma NotRun_bot [simp]: "NotRun \<le> a"
  by (simp add: less_eq_once_def)


text \<open>
  A pool is a number; \<open>open_pools\<close> are those that were created and not closed, \<open>idle_chans\<close> the
  channels waiting in each. \<open>pub_mu\<close> is set from the moment a writer has announced itself, which
  already keeps new readers out, as Go's \<^verbatim>\<open>RWMutex\<close> does. \<open>conn_open\<close> says whether the connection
  in \<^verbatim>\<open>SDK.conn\<close> has not been closed, \<open>open_conns\<close> counts all connections dialled and not closed.
  \<open>started\<close> holds, for each started queue, its number of workers.
\<close>

record shared =
  s_mu :: bool
  pub_mu :: bool
  pub_readers :: nat
  wg :: nat
  ctx_done :: bool
  reconn_flag :: bool
  close_once :: once
  cur_pool :: "nat option"
  open_pools :: "nat multiset"
  idle_chans :: "nat \<Rightarrow> nat"
  next_pool :: nat
  pool_fill :: nat
  conn_open :: bool
  open_conns :: nat
  started :: "nat list"

definition close_pool :: "nat \<Rightarrow> shared \<Rightarrow> shared" where
  "close_pool p s = s\<lparr>open_pools := open_pools s - {#p#}, idle_chans := (idle_chans s)(p := 0)\<rparr>"

text \<open>Closing \<^verbatim>\<open>SDK.channel\<close> and \<^verbatim>\<open>SDK.conn\<close>; a second close only answers \<^verbatim>\<open>ErrClosed\<close>.\<close>

definition close_conn :: "shared \<Rightarrow> shared" where
  "close_conn s = s\<lparr>conn_open := False, open_conns := open_conns s - of_bool (conn_open s)\<rparr>"

definition wg_done :: "shared \<Rightarrow> shared" where
  "wg_done s = s\<lparr>wg := wg s - 1\<rparr>"

section \<open>Program points\<close>

datatype pub_pc = PubRLock | PubRead | PubGet nat | PubPut nat

datatype cfg_pc = CfgLock | CfgBody

datatype start_pc =
    StStoreLock "nat list" | StStore "nat list" | StLoop "nat list"
  | StConsume nat "nat list" | StSpawn nat "nat list"

text \<open>The argument says whether the context given to \<^verbatim>\<open>Shutdown\<close> can end.\<close>

datatype stop_pc =
    ShCancel bool | ShWait bool | ShOnce | ShLock | ShPubLock | ShPubWait | ShClosePool | ShCloseConn

datatype rc_pc =
    RcLock | RcTop | RcPubLock | RcPubWait | RcTake | RcClosePool "nat option" | RcCloseConn
  | RcDial | RcDialled | RcSetup | RcInstLock nat | RcInstWait nat | RcInstall nat
  | RcStart | RcLoop "nat list" | RcSpawn nat "nat list" | RcMonitor | RcWait | RcLeave | RcStore

datatype mon_pc = MonWatch | MonSpawn

text \<open>Where a caller of the interface is.\<close>

datatype pc =
    Ready
  | Publishing pub_pc
  | Configuring cfg_pc
  | Starting start_pc
  | Stopping stop_pc

text \<open>
  A goroutine of the application, or one of the SDK, which the wait group counts. A worker at
  \<open>Ready\<close> is in its \<^verbatim>\<open>select\<close> or in the handler, and may make the same calls as the application:
  for a retry, for a heartbeat, or from the handler.
\<close>

datatype gor = User pc | Worker pc | Monitor mon_pc | Reconn rc_pc | Ended

section \<open>The steps\<close>

text \<open>
  The choices that are not the code's: \<open>Go\<close> is the call in question succeeding, or the context
  being found done; \<open>Alt\<close> is the other outcome (an error of the broker, the end of the caller's
  context); \<open>Over\<close> the graceful end of what the goroutine listens to; \<open>Call\<close> a new call.
\<close>

datatype call = CPublish | CConfigure | CStart "nat list" | CShutdown bool

datatype choice = Go | Alt | Over | Call call

type_synonym 'p moved = "(shared \<times> 'p \<times> gor list) option"

text \<open>\<^verbatim>\<open>publishAMQP\<close>: the pool is read under the read lock and used after it was released.\<close>

fun publish_act :: "choice \<Rightarrow> pub_pc \<Rightarrow> shared \<Rightarrow> pub_pc option moved" where
  "publish_act c PubRLock s =
     (if pub_mu s then None else Some (s\<lparr>pub_readers := pub_readers s + 1\<rparr>, Some PubRead, []))"
| "publish_act c PubRead s =
     Some (s\<lparr>pub_readers := pub_readers s - 1\<rparr>, case cur_pool s of None \<Rightarrow> None | Some p \<Rightarrow> Some (PubGet p), [])"
| "publish_act c (PubGet p) s =
     (if c = Go \<and> p \<in># open_pools s
      then Some (s\<lparr>idle_chans := (idle_chans s)(p := idle_chans s p - 1)\<rparr>, Some (PubPut p), [])
      else Some (s, None, []))"
| "publish_act c (PubPut p) s =
     (if c = Go \<and> p \<in># open_pools s
      then Some (s\<lparr>idle_chans := (idle_chans s)(p := idle_chans s p + 1)\<rparr>, None, [])
      else Some (s, None, []))"

text \<open>\<^verbatim>\<open>SetQos\<close> and \<^verbatim>\<open>DeclareQueues\<close> do all their work under \<^verbatim>\<open>SDK.mu\<close>.\<close>

fun configure_act :: "choice \<Rightarrow> cfg_pc \<Rightarrow> shared \<Rightarrow> cfg_pc option moved" where
  "configure_act c CfgLock s = (if s_mu s then None else Some (s\<lparr>s_mu := True\<rparr>, Some CfgBody, []))"
| "configure_act c CfgBody s = Some (s\<lparr>s_mu := False\<rparr>, None, [])"

text \<open>
  \<^verbatim>\<open>Start\<close>, for queues with the given numbers of workers: the configurations are stored under the
  lock, then each queue is consumed under the lock and its workers are started without it.
\<close>

fun start_act :: "choice \<Rightarrow> start_pc \<Rightarrow> shared \<Rightarrow> start_pc option moved" where
  "start_act c (StStoreLock ws) s =
     (if s_mu s then None else Some (s\<lparr>s_mu := True\<rparr>, Some (StStore ws), []))"
| "start_act c (StStore ws) s =
     Some (s\<lparr>s_mu := False, started := started s @ ws\<rparr>, Some (StLoop ws), [])"
| "start_act c (StLoop []) s = Some (s, None, [])"
| "start_act c (StLoop (w # ws)) s =
     (if s_mu s then None else Some (s\<lparr>s_mu := True\<rparr>, Some (StConsume w ws), []))"
| "start_act c (StConsume w ws) s =
     Some (s\<lparr>s_mu := False\<rparr>, if c = Go then Some (StSpawn w ws) else None, [])"
| "start_act c (StSpawn 0 ws) s = Some (s, Some (StLoop ws), [])"
| "start_act c (StSpawn (Suc k) ws) s =
     Some (s\<lparr>wg := wg s + 1\<rparr>, Some (StSpawn k ws), [Worker Ready])"

text \<open>
  \<^verbatim>\<open>Shutdown\<close>: cancel, wait for the goroutines or for the end of the caller's context, and
  close everything once; whoever finds the closing under way waits for it to end.
\<close>

fun stop_act :: "choice \<Rightarrow> stop_pc \<Rightarrow> shared \<Rightarrow> stop_pc option moved" where
  "stop_act c (ShCancel b) s = Some (s\<lparr>ctx_done := True\<rparr>, Some (ShWait b), [])"
| "stop_act c (ShWait b) s =
     (if c = Go then (if wg s = 0 then Some (s, Some ShOnce, []) else None)
      else (if b then Some (s, None, []) else None))"
| "stop_act c ShOnce s =
     (case close_once s of
        NotRun \<Rightarrow> Some (s\<lparr>close_once := Running\<rparr>, Some ShLock, [])
      | Running \<Rightarrow> None
      | Ran \<Rightarrow> Some (s, None, []))"
| "stop_act c ShLock s = (if s_mu s then None else Some (s\<lparr>s_mu := True\<rparr>, Some ShPubLock, []))"
| "stop_act c ShPubLock s = (if pub_mu s then None else Some (s\<lparr>pub_mu := True\<rparr>, Some ShPubWait, []))"
| "stop_act c ShPubWait s = (if pub_readers s = 0 then Some (s, Some ShClosePool, []) else None)"
| "stop_act c ShClosePool s =
     Some ((case cur_pool s of None \<Rightarrow> s | Some p \<Rightarrow> close_pool p s)\<lparr>cur_pool := None, pub_mu := False\<rparr>,
       Some ShCloseConn, [])"
| "stop_act c ShCloseConn s = Some ((close_conn s)\<lparr>s_mu := False, close_once := Ran\<rparr>, None, [])"

text \<open>
  \<^verbatim>\<open>reconnect\<close>: under \<^verbatim>\<open>SDK.mu\<close> from beginning to end. One attempt takes the old pool out and
  closes it and the old connection, dials, sets up the new connection with QoS, topology and
  pool, installs the pool, starts the consumers, and starts the new monitor.
\<close>

fun reconnect_act :: "choice \<Rightarrow> rc_pc \<Rightarrow> shared \<Rightarrow> rc_pc option moved" where
  "reconnect_act c RcLock s = (if s_mu s then None else Some (s\<lparr>s_mu := True\<rparr>, Some RcTop, []))"
| "reconnect_act c RcTop s = Some (s, Some (if ctx_done s then RcLeave else RcPubLock), [])"
| "reconnect_act c RcPubLock s = (if pub_mu s then None else Some (s\<lparr>pub_mu := True\<rparr>, Some RcPubWait, []))"
| "reconnect_act c RcPubWait s = (if pub_readers s = 0 then Some (s, Some RcTake, []) else None)"
| "reconnect_act c RcTake s =
     Some (s\<lparr>cur_pool := None, pub_mu := False\<rparr>, Some (RcClosePool (cur_pool s)), [])"
| "reconnect_act c (RcClosePool old) s =
     Some (case old of None \<Rightarrow> s | Some p \<Rightarrow> close_pool p s, Some RcCloseConn, [])"
| "reconnect_act c RcCloseConn s = Some (close_conn s, Some RcDial, [])"
| "reconnect_act c RcDial s =
     (if c = Go then Some (s\<lparr>open_conns := open_conns s + 1\<rparr>, Some RcDialled, [])
      else Some (s, Some RcWait, []))"
| "reconnect_act c RcDialled s =
     (if ctx_done s then Some (s\<lparr>open_conns := open_conns s - 1\<rparr>, Some RcLeave, [])
      else if c = Go then Some (s\<lparr>conn_open := True\<rparr>, Some RcSetup, [])
      else Some (s\<lparr>open_conns := open_conns s - 1\<rparr>, Some RcWait, []))"
| "reconnect_act c RcSetup s =
     (if c = Go
      then Some (s\<lparr>open_pools := add_mset (next_pool s) (open_pools s),
             idle_chans := (idle_chans s)(next_pool s := pool_fill s), next_pool := next_pool s + 1\<rparr>,
             Some (RcInstLock (next_pool s)), [])
      else Some (close_conn s, Some RcWait, []))"
| "reconnect_act c (RcInstLock p) s =
     (if pub_mu s then None else Some (s\<lparr>pub_mu := True\<rparr>, Some (RcInstWait p), []))"
| "reconnect_act c (RcInstWait p) s = (if pub_readers s = 0 then Some (s, Some (RcInstall p), []) else None)"
| "reconnect_act c (RcInstall p) s = Some (s\<lparr>cur_pool := Some p, pub_mu := False\<rparr>, Some RcStart, [])"
| "reconnect_act c RcStart s =
     Some (s, Some (if started s \<noteq> [] \<and> ctx_done s then RcWait else RcLoop (started s)), [])"
| "reconnect_act c (RcLoop []) s = Some (s, Some RcMonitor, [])"
| "reconnect_act c (RcLoop (w # ws)) s = Some (s, Some (if c = Go then RcSpawn w ws else RcWait), [])"
| "reconnect_act c (RcSpawn 0 ws) s = Some (s, Some (RcLoop ws), [])"
| "reconnect_act c (RcSpawn (Suc k) ws) s =
     Some (s\<lparr>wg := wg s + 1\<rparr>, Some (RcSpawn k ws), [Worker Ready])"
| "reconnect_act c RcMonitor s = Some (s\<lparr>wg := wg s + 1\<rparr>, Some RcLeave, [Monitor MonWatch])"
| "reconnect_act c RcWait s = Some (s, Some (if c \<noteq> Go \<and> ctx_done s then RcLeave else RcTop), [])"
| "reconnect_act c RcLeave s = Some (s\<lparr>s_mu := False\<rparr>, Some RcStore, [])"
| "reconnect_act c RcStore s = Some (wg_done (s\<lparr>reconn_flag := False\<rparr>), None, [])"

text \<open>
  \<^verbatim>\<open>monitorConnection\<close> and \<^verbatim>\<open>handleCloseError\<close>: the monitor ends with the context, with a graceful
  close, or on an error, which starts a reconnect unless one is under way.
\<close>

fun monitor_act :: "choice \<Rightarrow> mon_pc \<Rightarrow> shared \<Rightarrow> mon_pc option moved" where
  "monitor_act c MonWatch s =
     (case c of
        Go \<Rightarrow> if ctx_done s then Some (wg_done s, None, []) else None
      | Alt \<Rightarrow> if reconn_flag s then Some (wg_done s, None, [])
               else Some (s\<lparr>reconn_flag := True\<rparr>, Some MonSpawn, [])
      | Over \<Rightarrow> Some (wg_done s, None, [])
      | Call k \<Rightarrow> None)"
| "monitor_act c MonSpawn s = Some (wg_done (s\<lparr>wg := wg s + 1\<rparr>), None, [Reconn RcLock])"

text \<open>A call that returned leaves its caller at \<open>Ready\<close>.\<close>

fun resume :: "('p \<Rightarrow> pc) \<Rightarrow> 'p option moved \<Rightarrow> pc moved" where
  "resume K None = None"
| "resume K (Some (s, None, new)) = Some (s, Ready, new)"
| "resume K (Some (s, Some q, new)) = Some (s, K q, new)"

fun entry :: "call \<Rightarrow> pc" where
  "entry CPublish = Publishing PubRLock"
| "entry CConfigure = Configuring CfgLock"
| "entry (CStart ws) = Starting (StStoreLock ws)"
| "entry (CShutdown b) = Stopping (ShCancel b)"

fun call_act :: "choice \<Rightarrow> pc \<Rightarrow> shared \<Rightarrow> pc moved" where
  "call_act c Ready s = (case c of Call k \<Rightarrow> Some (s, entry k, []) | _ \<Rightarrow> None)"
| "call_act c (Publishing p) s = resume Publishing (publish_act c p s)"
| "call_act c (Configuring p) s = resume Configuring (configure_act c p s)"
| "call_act c (Starting p) s = resume Starting (start_act c p s)"
| "call_act c (Stopping p) s = resume Stopping (stop_act c p s)"

text \<open>
  One step of a goroutine. The application may also end the context the SDK was created with;
  a worker returns when it finds the context done or its deliveries closed.
\<close>

fun sdk_act :: "choice \<Rightarrow> gor \<Rightarrow> shared \<Rightarrow> gor moved" where
  "sdk_act c (User p) s =
     (if p = Ready \<and> c = Over then Some (s\<lparr>ctx_done := True\<rparr>, User Ready, [])
      else map_option (\<lambda>(s, q, new). (s, User q, new)) (call_act c p s))"
| "sdk_act c (Worker p) s =
     (if p = Ready \<and> (c = Over \<or> c = Go \<and> ctx_done s) then Some (wg_done s, Ended, [])
      else map_option (\<lambda>(s, q, new). (s, Worker q, new)) (call_act c p s))"
| "sdk_act c (Monitor p) s =
     map_option (\<lambda>(s, q, new). (s, case q of None \<Rightarrow> Ended | Some m \<Rightarrow> Monitor m, new)) (monitor_act c p s)"
| "sdk_act c (Reconn p) s =
     map_option (\<lambda>(s, q, new). (s, case q of None \<Rightarrow> Ended | Some r \<Rightarrow> Reconn r, new)) (reconnect_act c p s)"
| "sdk_act c Ended s = None"

record world =
  sh :: shared
  gs :: "gor list"

definition move :: "nat \<Rightarrow> choice \<Rightarrow> world \<Rightarrow> world option" where
  "move i c w =
     (if i < length (gs w)
      then map_option (\<lambda>(s, g, new). \<lparr>sh = s, gs = (gs w)[i := g] @ new\<rparr>) (sdk_act c (gs w ! i) (sh w))
      else None)"

inductive world_step :: "world \<Rightarrow> world \<Rightarrow> bool" where
  world_step: "move i c w = Some v \<Longrightarrow> world_step w v"

text \<open>A new SDK with \<open>k\<close> idle channels in its pool, its monitor, and \<open>n\<close> goroutines of the application.\<close>

definition new_world :: "nat \<Rightarrow> nat \<Rightarrow> world" where
  "new_world k n =
     \<lparr>sh = \<lparr>s_mu = False, pub_mu = False, pub_readers = 0, wg = 1, ctx_done = False, reconn_flag = False,
        close_once = NotRun, cur_pool = Some 0, open_pools = {#0#}, idle_chans = (\<lambda>p. if p = 0 then k else 0),
        next_pool = 1, pool_fill = k, conn_open = True, open_conns = 1, started = []\<rparr>,
      gs = Monitor MonWatch # replicate n (User Ready)\<rparr>"

definition world_init :: "world \<Rightarrow> bool" where
  "world_init w \<longleftrightarrow> (\<exists>k n. w = new_world k n)"

section \<open>Schedules\<close>

fun wrun :: "(nat \<times> choice) list \<Rightarrow> world \<Rightarrow> world option" where
  "wrun [] w = Some w"
| "wrun ((i, c) # sched) w = (case move i c w of None \<Rightarrow> None | Some v \<Rightarrow> wrun sched v)"

lemma wrun_steps: "wrun sched w = Some v \<Longrightarrow> world_step\<^sup>*\<^sup>* w v"
  by (induction sched w rule: wrun.induct)
    (auto split: option.splits intro: converse_rtranclp_into_rtranclp world_step)

lemma new_world_init: "world_init (new_world k n)"
  by (auto simp: world_init_def)

lemma wrun_reach: "wrun sched (new_world k n) = Some v \<Longrightarrow> reach world_init world_step v"
  by (rule reach_steps [OF wrun_steps]) (auto intro: reach_init new_world_init)


end
