(* ===== verification/Sdk_Locks.thy ===== *)
theory Sdk_Locks
  imports Sdk_Goroutines
begin

text \<open>
  What the locks of the SDK protect. Every lock and counter of \<open>Sdk_Goroutines\<close> is an account:
  what the shared state records equals the sum of what the goroutines hold at their program points.
  The locale \<open>ledger\<close> derives that a step keeps an account balanced from what the code of each
  operation does to it; it is interpreted for all accounts and for the pools. On top of the books
  stands the invariant of the system, which gives mutual exclusion, that a swap loses
  no pool and no connection, and that what \<^verbatim>\<open>Shutdown\<close> closed stays closed.
\<close>

section \<open>The books\<close>

text \<open>A quantity summed over the goroutines: so much per program point, and a constant per worker.\<close>

fun weigh :: "(pc \<Rightarrow> 'b) \<Rightarrow> 'b \<Rightarrow> (mon_pc \<Rightarrow> 'b) \<Rightarrow> (rc_pc \<Rightarrow> 'b) \<Rightarrow> gor \<Rightarrow> 'b :: comm_monoid_add" where
  "weigh pf k mf rf (User p) = pf p"
| "weigh pf k mf rf (Worker p) = k + pf p"
| "weigh pf k mf rf (Monitor m) = mf m"
| "weigh pf k mf rf (Reconn r) = rf r"
| "weigh pf k mf rf Ended = 0"

text \<open>
  The accounts: who holds \<^verbatim>\<open>SDK.mu\<close>; who has \<^verbatim>\<open>publisherMu\<close> for writing or has announced itself;
  who reads under it; whom the wait group counts; on whose behalf \<^verbatim>\<open>reconnecting\<close> is set; who is
  inside \<^verbatim>\<open>closeOnce\<close>; which connection is not yet in \<^verbatim>\<open>SDK.conn\<close>.
\<close>

datatype account = Mu | PubMu | Readers | Wg | Flag | Closing | Conns

fun pc_mu :: "pc \<Rightarrow> nat" where
  "pc_mu (Configuring CfgBody) = 1" | "pc_mu (Starting (StStore _)) = 1"
| "pc_mu (Starting (StConsume _ _)) = 1" | "pc_mu (Stopping ShPubLock) = 1"
| "pc_mu (Stopping ShPubWait) = 1" | "pc_mu (Stopping ShClosePool) = 1"
| "pc_mu (Stopping ShCloseConn) = 1" | "pc_mu _ = 0"

fun rc_mu :: "rc_pc \<Rightarrow> nat" where
  "rc_mu RcLock = 0" | "rc_mu RcStore = 0" | "rc_mu _ = 1"

fun pc_pub :: "pc \<Rightarrow> nat" where
  "pc_pub (Stopping ShPubWait) = 1" | "pc_pub (Stopping ShClosePool) = 1" | "pc_pub _ = 0"

fun rc_pub :: "rc_pc \<Rightarrow> nat" where
  "rc_pub RcPubWait = 1" | "rc_pub RcTake = 1" | "rc_pub (RcInstWait _) = 1" | "rc_pub (RcInstall _) = 1"
| "rc_pub _ = 0"

fun pc_closing :: "pc \<Rightarrow> nat" where
  "pc_closing (Stopping (ShCancel _)) = 0" | "pc_closing (Stopping (ShWait _)) = 0"
| "pc_closing (Stopping ShOnce) = 0" | "pc_closing (Stopping _) = 1" | "pc_closing _ = 0"

fun pc_part :: "account \<Rightarrow> pc \<Rightarrow> nat" where
  "pc_part Mu p = pc_mu p" | "pc_part PubMu p = pc_pub p"
| "pc_part Readers p = of_bool (p = Publishing PubRead)" | "pc_part Closing p = pc_closing p"
| "pc_part _ p = 0"

fun mon_part :: "account \<Rightarrow> mon_pc \<Rightarrow> nat" where
  "mon_part Wg m = 1" | "mon_part Flag m = of_bool (m = MonSpawn)" | "mon_part _ m = 0"

fun rc_part :: "account \<Rightarrow> rc_pc \<Rightarrow> nat" where
  "rc_part Mu r = rc_mu r" | "rc_part PubMu r = rc_pub r" | "rc_part Wg r = 1" | "rc_part Flag r = 1"
| "rc_part Conns r = of_bool (r = RcDialled)" | "rc_part _ r = 0"

abbreviation part :: "account \<Rightarrow> gor \<Rightarrow> nat" where
  "part a \<equiv> weigh (pc_part a) (of_bool (a = Wg)) (mon_part a) (rc_part a)"

text \<open>What the shared state records in each account.\<close>

fun booked :: "account \<Rightarrow> shared \<Rightarrow> nat" where
  "booked Mu s = of_bool (s_mu s)" | "booked PubMu s = of_bool (pub_mu s)"
| "booked Readers s = pub_readers s" | "booked Wg s = wg s" | "booked Flag s = of_bool (reconn_flag s)"
| "booked Closing s = of_bool (close_once s = Running)" | "booked Conns s = open_conns s"

definition base :: "account \<Rightarrow> shared \<Rightarrow> nat" where
  "base a s = of_bool (a = Conns \<and> conn_open s)"

text \<open>The pools only a reconnect knows, and the monitors and reconnects themselves.\<close>

fun rc_pools :: "rc_pc \<Rightarrow> nat multiset" where
  "rc_pools (RcClosePool old) = mset_set (set_option old)" | "rc_pools (RcInstLock p) = {#p#}"
| "rc_pools (RcInstWait p) = {#p#}" | "rc_pools (RcInstall p) = {#p#}" | "rc_pools _ = {#}"

abbreviation owned_pools :: "gor \<Rightarrow> nat multiset" where
  "owned_pools \<equiv> weigh (\<lambda>_. {#}) {#} (\<lambda>_. {#}) rc_pools"

abbreviation connecting :: "gor \<Rightarrow> nat" where
  "connecting \<equiv> weigh (\<lambda>_. 0) 0 (\<lambda>_. 1) (\<lambda>_. 1)"

text \<open>What a goroutine can rely on.\<close>

fun pc_aware :: "shared \<Rightarrow> pc \<Rightarrow> bool" where
  "pc_aware s (Stopping (ShCancel _)) = True"
| "pc_aware s (Stopping ShClosePool) = (ctx_done s \<and> pub_readers s = 0)"
| "pc_aware s (Stopping ShCloseConn) = (ctx_done s \<and> cur_pool s = None)"
| "pc_aware s (Stopping _) = ctx_done s"
| "pc_aware s _ = True"

fun rc_aware :: "shared \<Rightarrow> rc_pc \<Rightarrow> bool" where
  "rc_aware s RcTake = (pub_readers s = 0)"
| "rc_aware s (RcClosePool _) = (cur_pool s = None)"
| "rc_aware s RcCloseConn = (cur_pool s = None)"
| "rc_aware s RcDial = (cur_pool s = None \<and> \<not> conn_open s)"
| "rc_aware s RcDialled = (cur_pool s = None \<and> \<not> conn_open s)"
| "rc_aware s RcSetup = (cur_pool s = None)"
| "rc_aware s (RcInstLock _) = (cur_pool s = None)"
| "rc_aware s (RcInstWait _) = (cur_pool s = None)"
| "rc_aware s (RcInstall _) = (cur_pool s = None \<and> pub_readers s = 0)"
| "rc_aware s _ = True"

fun aware :: "shared \<Rightarrow> gor \<Rightarrow> bool" where
  "aware s (User p) = pc_aware s p" | "aware s (Worker p) = pc_aware s p"
| "aware s (Reconn r) = rc_aware s r" | "aware s _ = True"

subsection \<open>Case distinctions\<close>

lemma sdk_act_cases [consumes 1, case_names cancel return user worker monitor reconn]:
  assumes "sdk_act c g s = Some (s', g', new)"
  obtains "g = User Ready" "c = Over" "s' = s\<lparr>ctx_done := True\<rparr>" "g' = User Ready" "new = []"
  | "g = Worker Ready" "c = Over \<or> c = Go \<and> ctx_done s" "s' = wg_done s" "g' = Ended" "new = []"
  | p q where "g = User p" "g' = User q" "call_act c p s = Some (s', q, new)"
  | p q where "g = Worker p" "g' = Worker q" "call_act c p s = Some (s', q, new)"
  | p q where "g = Monitor p" "g' = (case q of None \<Rightarrow> Ended | Some m \<Rightarrow> Monitor m)" "monitor_act c p s = Some (s', q, new)"
  | p q where "g = Reconn p" "g' = (case q of None \<Rightarrow> Ended | Some m \<Rightarrow> Reconn m)" "reconnect_act c p s = Some (s', q, new)"
  using assms by (cases g) (auto split: if_splits)

text \<open>The program points of a call and of a reconnect, one level down.\<close>

lemma pc_exhaust:
  obtains "p = Ready"
  | "p = Publishing PubRLock" | "p = Publishing PubRead"
  | a where "p = Publishing (PubGet a)" | a where "p = Publishing (PubPut a)"
  | "p = Configuring CfgLock" | "p = Configuring CfgBody"
  | ws where "p = Starting (StStoreLock ws)" | ws where "p = Starting (StStore ws)"
  | "p = Starting (StLoop [])" | a ws where "p = Starting (StLoop (a # ws))"
  | a ws where "p = Starting (StConsume a ws)"
  | ws where "p = Starting (StSpawn 0 ws)" | k ws where "p = Starting (StSpawn (Suc k) ws)"
  | b where "p = Stopping (ShCancel b)" | b where "p = Stopping (ShWait b)"
  | "p = Stopping ShOnce" | "p = Stopping ShLock" | "p = Stopping ShPubLock" | "p = Stopping ShPubWait"
  | "p = Stopping ShClosePool" | "p = Stopping ShCloseConn"
proof (cases p)
  case (Publishing x)
  then show ?thesis using that(2-5) by (cases x) auto
next
  case (Configuring x)
  then show ?thesis using that(6-7) by (cases x) auto
next
  case (Starting x)
  then show ?thesis
  proof (cases x)
    case (StLoop ws)
    with Starting show ?thesis using that(10-11) by (cases ws) auto
  next
    case (StSpawn k ws)
    with Starting show ?thesis using that(13-14) by (cases k) auto
  qed (use Starting that(8,9,12) in auto)
next
  case (Stopping x)
  then show ?thesis using that(15-22) by (cases x) auto
qed (rule that(1))

lemma rc_exhaust:
  obtains "r = RcLock" | "r = RcTop" | "r = RcPubLock" | "r = RcPubWait" | "r = RcTake"
  | a where "r = RcClosePool a" | "r = RcCloseConn"
  | "r = RcDial" | "r = RcDialled" | "r = RcSetup"
  | a where "r = RcInstLock a" | a where "r = RcInstWait a" | a where "r = RcInstall a"
  | "r = RcStart" | "r = RcLoop []" | a ws where "r = RcLoop (a # ws)"
  | ws where "r = RcSpawn 0 ws" | k ws where "r = RcSpawn (Suc k) ws"
  | "r = RcMonitor" | "r = RcWait" | "r = RcLeave" | "r = RcStore"
proof (cases r)
  case (RcLoop ws)
  then show ?thesis using that(15-16) by (cases ws) auto
next
  case (RcSpawn k ws)
  then show ?thesis using that(17-18) by (cases k) auto
qed (rule that; assumption)+

lemmas act_simps = close_pool_def close_conn_def wg_done_def
lemmas act_splits = if_splits option.splits once.splits choice.splits

lemma of_bool_Suc [simp]: "of_bool b = Suc n \<longleftrightarrow> b \<and> n = 0" "Suc n = of_bool b \<longleftrightarrow> b \<and> n = 0"
  by (cases b; auto)+

lemma entry_part [simp]:
  "pc_mu (entry k) = 0" "pc_pub (entry k) = 0" "entry k \<noteq> Publishing PubRead" "pc_closing (entry k) = 0"
  "entry k \<noteq> Ready" "pc_aware s (entry k)"
  by (cases k; simp)+

subsection \<open>The ledgers\<close>

text \<open>
  What the shared state records equals what the goroutines account for, step by step.
\<close>

locale ledger =
  fixes pf :: "pc \<Rightarrow> 'b :: comm_monoid_add" and k :: 'b and mf :: "mon_pc \<Rightarrow> 'b" and rf :: "rc_pc \<Rightarrow> 'b"
    and total own :: "shared \<Rightarrow> 'b"
  assumes call_books: "call_act c p s = Some (s', q, new) \<Longrightarrow> pc_aware s p \<Longrightarrow> total s = own s + (r + pf p) \<Longrightarrow>
      total s' = own s' + (r + pf q + sum_list (map (weigh pf k mf rf) new))"
    and monitor_books: "monitor_act c m s = Some (s', m', new) \<Longrightarrow> total s = own s + (r + mf m) \<Longrightarrow>
      total s' = own s' + (r + (case m' of None \<Rightarrow> 0 | Some x \<Rightarrow> mf x) + sum_list (map (weigh pf k mf rf) new))"
    and reconnect_books: "reconnect_act c x s = Some (s', x', new) \<Longrightarrow> rc_aware s x \<Longrightarrow> total s = own s + (r + rf x) \<Longrightarrow>
      total s' = own s' + (r + (case x' of None \<Rightarrow> 0 | Some y \<Rightarrow> rf y) + sum_list (map (weigh pf k mf rf) new))"
    and cancel_books: "total (s\<lparr>ctx_done := True\<rparr>) = total s" "own (s\<lparr>ctx_done := True\<rparr>) = own s"
    and return_books: "total s = own s + (r + (k + pf Ready)) \<Longrightarrow> total (wg_done s) = own (wg_done s) + r"
begin

abbreviation owed :: "gor \<Rightarrow> 'b" where
  "owed \<equiv> weigh pf k mf rf"

lemma act_books:
  assumes "sdk_act c g s = Some (s', g', new)" "aware s g" "total s = own s + (r + owed g)"
  shows "total s' = own s' + (r + owed g' + sum_list (map owed new))"
  using assms(1)
proof (cases rule: sdk_act_cases)
  case cancel
  with assms show ?thesis by (simp add: cancel_books)
next
  case return
  with assms return_books [of s r] show ?thesis by simp
next
  case (user p q)
  with assms call_books [of c p s s' q new r] show ?thesis by simp
next
  case (worker p q)
  with assms call_books [of c p s s' q new "r + k"] show ?thesis by (simp add: ac_simps)
next
  case (monitor p q)
  with assms monitor_books [of c p s s' q new r] show ?thesis by (simp split: option.splits)
next
  case (reconn p q)
  with assms reconnect_books [of c p s s' q new r] show ?thesis by (simp split: option.splits)
qed

lemma move_books:
  assumes "move i c w = Some v" "\<forall>g\<in>set (gs w). aware (sh w) g"
    "total (sh w) = own (sh w) + sum_list (map owed (gs w))"
  shows "total (sh v) = own (sh v) + sum_list (map owed (gs v))"
proof -
  from assms(1) obtain s g new where i: "i < length (gs w)"
    and a: "sdk_act c (gs w ! i) (sh w) = Some (s, g, new)" and v: "v = \<lparr>sh = s, gs = (gs w)[i := g] @ new\<rparr>"
    by (auto simp: move_def split: if_splits)
  obtain r where r: "sum_list (map owed (gs w)) = r + owed (gs w ! i)"
    "sum_list (map owed ((gs w)[i := g])) = r + owed g"
    using sum_list_split [OF i] by blast
  show ?thesis
    using act_books [OF a, of r] assms(2,3) i r by (simp add: v)
qed

end

interpretation accounts: ledger "pc_part a" "of_bool (a = Wg)" "mon_part a" "rc_part a" "booked a" "base a"
  for a :: account
proof (unfold_locales, goal_cases)
  case (1 c p s s' q new r)
  then show ?case
    by (cases a; cases p rule: pc_exhaust) (auto simp: act_simps base_def split: act_splits)
next
  case (2 c m s s' m' new r)
  then show ?case
    by (cases a; cases m) (auto simp: act_simps base_def split: act_splits)
next
  case (3 c x s s' x' new r)
  then show ?case
    by (cases a; cases x rule: rc_exhaust) (auto simp: act_simps base_def split: act_splits)
next
  case (4 s)
  show ?case by (cases a) auto
next
  case (5 s)
  show ?case by (simp add: base_def)
next
  case (6 s r)
  then show ?case by (cases a) (auto simp: base_def wg_done_def)
qed

interpretation pools: ledger "\<lambda>_. {#}" "{#}" "\<lambda>_. {#}" rc_pools open_pools "\<lambda>s. mset_set (set_option (cur_pool s))"
proof (unfold_locales, goal_cases)
  case (1 c p s s' q new r)
  then show ?case
    by (cases p rule: pc_exhaust) (auto simp: act_simps split: act_splits)
next
  case (2 c m s s' m' new r)
  then show ?case by (cases m) (auto simp: act_simps split: act_splits)
next
  case (3 c x s s' x' new r)
  then show ?case
    by (cases x rule: rc_exhaust) (auto simp: act_simps split: act_splits)
qed (auto simp: wg_done_def)

section \<open>The invariant\<close>

text \<open>Who has got past the wait in \<^verbatim>\<open>Shutdown\<close>.\<close>

fun pc_past :: "pc \<Rightarrow> bool" where
  "pc_past (Stopping (ShCancel _)) = False" | "pc_past (Stopping (ShWait _)) = False"
| "pc_past (Stopping _) = True" | "pc_past _ = False"

fun past_wait :: "gor \<Rightarrow> bool" where
  "past_wait (User p) = pc_past p" | "past_wait (Worker p) = pc_past p" | "past_wait _ = False"

lemma entry_past [simp]: "\<not> pc_past (entry k)"
  by (cases k) auto

definition quiet :: "world \<Rightarrow> bool" where
  "quiet w \<longleftrightarrow> sum_list (map connecting (gs w)) = 0"

definition world_inv :: "world \<Rightarrow> bool" where
  "world_inv w \<longleftrightarrow>
     (\<forall>a. booked a (sh w) = base a (sh w) + sum_list (map (part a) (gs w))) \<and>
     open_pools (sh w) = mset_set (set_option (cur_pool (sh w))) + sum_list (map owned_pools (gs w)) \<and>
     (\<forall>g\<in>set (gs w). aware (sh w) g) \<and>
     (quiet w \<or> close_once (sh w) = NotRun \<and> (\<forall>g\<in>set (gs w). \<not> past_wait g)) \<and>
     (close_once (sh w) = Ran \<longrightarrow> cur_pool (sh w) = None \<and> \<not> conn_open (sh w)) \<and>
     (\<forall>p. p \<notin># open_pools (sh w) \<longrightarrow> idle_chans (sh w) p = 0)"

subsection \<open>What one step does\<close>

lemma call_aware: "call_act c p s = Some (s', q, new) \<Longrightarrow> pc_aware s p \<Longrightarrow> pc_aware s' q \<and> set new \<subseteq> {Worker Ready}"
  by (cases p rule: pc_exhaust) (auto simp: act_simps split: act_splits)

lemma rc_aware: "reconnect_act c p s = Some (s', q, new) \<Longrightarrow> rc_aware s p \<Longrightarrow>
  (case q of None \<Rightarrow> True | Some r \<Rightarrow> rc_aware s' r) \<and> set new \<subseteq> {Worker Ready, Monitor MonWatch}"
  by (cases p rule: rc_exhaust) (auto simp: act_simps split: act_splits)

lemma mon_new: "monitor_act c m s = Some (s', m', new) \<Longrightarrow> set new \<subseteq> {Reconn RcLock}"
  by (cases m) (auto split: act_splits)

lemma act_aware:
  assumes "sdk_act c g s = Some (s', g', new)" "aware s g"
  shows "aware s' g' \<and> set new \<subseteq> {Worker Ready, Monitor MonWatch, Reconn RcLock}"
  using assms(1)
proof (cases rule: sdk_act_cases)
  case (user p q)
  with assms(2) call_aware show ?thesis by fastforce
next
  case (worker p q)
  with assms(2) call_aware show ?thesis by fastforce
next
  case (monitor p q)
  with mon_new show ?thesis by (fastforce split: option.splits)
next
  case (reconn p q)
  with assms(2) rc_aware [of c p s s' q new] show ?thesis by (auto split: option.splits)
qed auto

text \<open>Who does not hold a lock leaves alone what it protects.\<close>

lemma call_outside: "call_act c p s = Some (s', q, new) \<Longrightarrow>
  (pc_mu p = 0 \<longrightarrow> cur_pool s' = cur_pool s \<and> conn_open s' = conn_open s)
  \<and> (pub_mu s \<longrightarrow> pub_readers s' \<le> pub_readers s) \<and> (ctx_done s \<longrightarrow> ctx_done s')"
  by (cases p rule: pc_exhaust) (auto simp: act_simps split: act_splits)

lemma rc_outside: "reconnect_act c p s = Some (s', q, new) \<Longrightarrow>
  (rc_mu p = 0 \<longrightarrow> cur_pool s' = cur_pool s \<and> conn_open s' = conn_open s)
  \<and> (pub_mu s \<longrightarrow> pub_readers s' \<le> pub_readers s) \<and> (ctx_done s \<longrightarrow> ctx_done s')"
  by (cases p rule: rc_exhaust) (auto simp: act_simps split: act_splits)

lemma sdk_outside:
  assumes "sdk_act c g s = Some (s', g', new)"
  shows "(part Mu g = 0 \<longrightarrow> cur_pool s' = cur_pool s \<and> conn_open s' = conn_open s)
    \<and> (pub_mu s \<longrightarrow> pub_readers s' \<le> pub_readers s) \<and> (ctx_done s \<longrightarrow> ctx_done s')"
  using assms
proof (cases rule: sdk_act_cases)
  case (user p q)
  with call_outside show ?thesis by simp
next
  case (worker p q)
  with call_outside show ?thesis by simp
next
  case (monitor p q)
  then show ?thesis by (cases p) (auto simp: wg_done_def split: act_splits)
next
  case (reconn p q)
  with rc_outside show ?thesis by simp
qed (auto simp: wg_done_def)

lemma pc_aware_mono:
  assumes "pc_aware s p" "pc_mu p = 0 \<or> cur_pool s' = cur_pool s" "pc_pub p = 0 \<or> pub_readers s' \<le> pub_readers s"
    "ctx_done s \<longrightarrow> ctx_done s'"
  shows "pc_aware s' p"
  using assms by (cases p rule: pc_exhaust) auto

lemma rc_aware_mono:
  assumes "rc_aware s p" "rc_mu p = 0 \<or> cur_pool s' = cur_pool s \<and> conn_open s' = conn_open s"
    "rc_pub p = 0 \<or> pub_readers s' \<le> pub_readers s"
  shows "rc_aware s' p"
  using assms by (cases p rule: rc_exhaust) auto

lemma act_others:
  assumes "sdk_act c g s = Some (s', g', new)" "aware s h"
    "part Mu g + part Mu h \<le> 1" "part PubMu h = 0 \<or> pub_mu s"
  shows "aware s' h"
proof -
  have "part Mu h = 0 \<or> part Mu g = 0" using assms(3) by auto
  with sdk_outside [OF assms(1)] assms(2,4) show ?thesis
    by (cases h) (auto intro: pc_aware_mono rc_aware_mono)
qed

text \<open>Only monitors and reconnects start others of their kind.\<close>

lemma act_connecting:
  assumes "sdk_act c g s = Some (s', g', new)" "connecting g = 0"
  shows "connecting g' = 0 \<and> sum_list (map connecting new) = 0"
  using assms(1)
proof (cases rule: sdk_act_cases)
  case (user p q)
  then show ?thesis by (cases p rule: pc_exhaust) (auto split: act_splits)
next
  case (worker p q)
  then show ?thesis by (cases p rule: pc_exhaust) (auto split: act_splits)
qed (use assms(2) in auto)

lemma act_past:
  assumes "sdk_act c g s = Some (s', g', new)" "\<not> past_wait g" "close_once s = NotRun"
  shows "close_once s' = NotRun \<and> (past_wait g' \<longrightarrow> wg s = 0) \<and> (\<forall>h\<in>set new. \<not> past_wait h)"
  using assms(1)
proof (cases rule: sdk_act_cases)
  case (user p q)
  with assms(2,3) show ?thesis by (cases p rule: pc_exhaust) (auto split: act_splits)
next
  case (worker p q)
  with assms(2,3) show ?thesis by (cases p rule: pc_exhaust) (auto split: act_splits)
next
  case (monitor p q)
  with assms(3) show ?thesis by (cases p) (auto simp: wg_done_def split: act_splits)
next
  case (reconn p q)
  with assms(3) show ?thesis by (cases p rule: rc_exhaust) (auto simp: act_simps split: act_splits)
qed (use assms(2,3) in \<open>auto simp: wg_done_def\<close>)

lemma call_ran:
  assumes "call_act c p s = Some (s', q, new)" "pc_aware s p" "close_once s' = Ran"
    "close_once s = Ran \<longrightarrow> cur_pool s = None \<and> \<not> conn_open s"
  shows "cur_pool s' = None \<and> \<not> conn_open s'"
  using assms by (cases p rule: pc_exhaust) (auto simp: act_simps split: act_splits)

lemma rc_once:
  assumes "reconnect_act c p s = Some (s', q, new)" shows "close_once s' = close_once s"
  using assms by (cases p rule: rc_exhaust) (auto simp: act_simps split: act_splits)

lemma still_open: "a \<noteq> b \<Longrightarrow> a \<in># M - {#b#} \<longleftrightarrow> a \<in># M"
  by (auto simp: in_diff_count)

lemma call_idle:
  assumes "call_act c p s = Some (s', q, new)" "\<forall>p. p \<notin># open_pools s \<longrightarrow> idle_chans s p = 0"
  shows "\<forall>p. p \<notin># open_pools s' \<longrightarrow> idle_chans s' p = 0"
  using assms
  by (cases p rule: pc_exhaust) (auto simp: act_simps still_open split: act_splits)

lemma rc_idle:
  assumes "reconnect_act c p s = Some (s', q, new)" "\<forall>p. p \<notin># open_pools s \<longrightarrow> idle_chans s p = 0"
  shows "\<forall>p. p \<notin># open_pools s' \<longrightarrow> idle_chans s' p = 0"
  using assms
  by (cases p rule: rc_exhaust) (auto simp: act_simps still_open split: act_splits)


lemma act_ran:
  assumes "sdk_act c g s = Some (s', g', new)" "aware s g" "close_once s' = Ran"
    "close_once s = Ran \<longrightarrow> cur_pool s = None \<and> \<not> conn_open s \<and> connecting g = 0"
  shows "cur_pool s' = None \<and> \<not> conn_open s'"
  using assms(1)
proof (cases rule: sdk_act_cases)
  case (user p q)
  with assms call_ran show ?thesis by simp
next
  case (worker p q)
  with assms call_ran show ?thesis by simp
next
  case (monitor p q)
  with assms show ?thesis by (cases p) (auto simp: wg_done_def split: act_splits)
next
  case (reconn p q)
  with assms rc_once show ?thesis by simp
qed (use assms in \<open>auto simp: wg_done_def\<close>)

lemma act_idle:
  assumes "sdk_act c g s = Some (s', g', new)" "\<forall>p. p \<notin># open_pools s \<longrightarrow> idle_chans s p = 0"
  shows "\<forall>p. p \<notin># open_pools s' \<longrightarrow> idle_chans s' p = 0"
  using assms(1)
proof (cases rule: sdk_act_cases)
  case (user p q)
  with assms call_idle show ?thesis by blast
next
  case (worker p q)
  with assms call_idle show ?thesis by blast
next
  case (monitor p q)
  with assms show ?thesis by (cases p) (auto simp: wg_done_def split: act_splits)
next
  case (reconn p q)
  with assms rc_idle show ?thesis by blast
qed (use assms in \<open>auto simp: wg_done_def\<close>)

subsection \<open>The invariant is kept\<close>

lemma moveE:
  assumes "move i c w = Some v"
  obtains s g new where "i < length (gs w)" "sdk_act c (gs w ! i) (sh w) = Some (s, g, new)"
    "v = \<lparr>sh = s, gs = (gs w)[i := g] @ new\<rparr>"
  using assms by (auto simp: move_def split: if_splits)

lemma connecting_waited: "sum_list (map (part Wg) xs) = 0 \<Longrightarrow> sum_list (map connecting xs) = 0"
proof (induction xs)
  case (Cons g xs)
  then show ?case by (cases g) auto
qed simp

lemma sum_list_replicate_none [simp]: "sum_list (replicate n {#}) = {#}"
  by (induction n) auto

lemma world_books:
  assumes "world_inv w"
  shows "of_bool (s_mu (sh w)) = sum_list (map (part Mu) (gs w))"
    "of_bool (pub_mu (sh w)) = sum_list (map (part PubMu) (gs w))"
    "pub_readers (sh w) = sum_list (map (part Readers) (gs w))"
    "wg (sh w) = sum_list (map (part Wg) (gs w))"
    "of_bool (reconn_flag (sh w)) = sum_list (map (part Flag) (gs w))"
    "of_bool (close_once (sh w) = Running) = sum_list (map (part Closing) (gs w))"
    "open_conns (sh w) = of_bool (conn_open (sh w)) + sum_list (map (part Conns) (gs w))"
proof -
  have "booked a (sh w) = base a (sh w) + sum_list (map (part a) (gs w))" for a
    using assms by (simp add: world_inv_def)
  from this [of Mu] this [of PubMu] this [of Readers] this [of Wg] this [of Flag] this [of Closing] this [of Conns]
  show "of_bool (s_mu (sh w)) = sum_list (map (part Mu) (gs w))"
    "of_bool (pub_mu (sh w)) = sum_list (map (part PubMu) (gs w))"
    "pub_readers (sh w) = sum_list (map (part Readers) (gs w))"
    "wg (sh w) = sum_list (map (part Wg) (gs w))"
    "of_bool (reconn_flag (sh w)) = sum_list (map (part Flag) (gs w))"
    "of_bool (close_once (sh w) = Running) = sum_list (map (part Closing) (gs w))"
    "open_conns (sh w) = of_bool (conn_open (sh w)) + sum_list (map (part Conns) (gs w))"
    by (simp_all add: base_def)
qed

lemma world_inv_init: "world_init w \<Longrightarrow> world_inv w"
proof -
  assume "world_init w"
  then obtain k n where w: "w = new_world k n" by (auto simp: world_init_def)
  have "sum_list (map (part a) (replicate n (User Ready))) = 0" for a
    by (cases a) (simp_all add: sum_list_replicate)
  moreover have "booked a (sh w) = base a (sh w) + part a (Monitor MonWatch)" for a
    by (cases a) (simp_all add: w new_world_def base_def)
  ultimately show ?thesis
    by (auto simp: w new_world_def world_inv_def sum_list_replicate)
qed

lemma world_inv_aware:
  assumes inv: "world_inv w" and i: "i < length (gs w)" and a: "sdk_act c (gs w ! i) (sh w) = Some (s, g, new)"
  shows "\<forall>h\<in>set ((gs w)[i := g] @ new). aware s h"
proof
  fix h
  assume h: "h \<in> set ((gs w)[i := g] @ new)"
  have own: "aware s g \<and> set new \<subseteq> {Worker Ready, Monitor MonWatch, Reconn RcLock}"
    using act_aware [OF a] inv i by (simp add: world_inv_def)
  from h show "aware s h"
  proof (cases rule: set_update_cases)
    case (3 j)
    have "part Mu (gs w ! i) + part Mu h \<le> of_bool (s_mu (sh w))"
      using two_in_sum [of i "gs w" j "part Mu"] i 3 unfolding world_books [OF inv] by simp
    moreover have "part PubMu h \<le> of_bool (pub_mu (sh w))"
      using two_in_sum [of i "gs w" j "part PubMu"] i 3 unfolding world_books [OF inv] by simp
    ultimately show ?thesis
      using act_others [OF a, of h] inv 3 by (auto simp: world_inv_def of_bool_def split: if_splits)
  qed (use own in auto)
qed

lemma world_inv_quiet:
  assumes inv: "world_inv w" and i: "i < length (gs w)" and a: "sdk_act c (gs w ! i) (sh w) = Some (s, g, new)"
    and v: "v = \<lparr>sh = s, gs = (gs w)[i := g] @ new\<rparr>"
  shows "quiet v \<or> close_once s = NotRun \<and> (\<forall>h\<in>set (gs v). \<not> past_wait h)"
proof (cases "quiet w")
  case True
  obtain r where r: "sum_list (map connecting (gs w)) = r + connecting (gs w ! i)"
    "sum_list (map connecting ((gs w)[i := g])) = r + connecting g"
    using sum_list_split [OF i] by blast
  then show ?thesis using True act_connecting [OF a] by (simp add: quiet_def v)
next
  case False
  then have "sum_list (map (part Wg) (gs w)) \<noteq> 0"
    unfolding quiet_def by (rule contrapos_nn) (rule connecting_waited)
  then have "wg (sh w) \<noteq> 0"
    unfolding world_books [OF inv] .
  moreover have once: "close_once (sh w) = NotRun" and none: "\<forall>h\<in>set (gs w). \<not> past_wait h"
    using inv False unfolding world_inv_def by blast+
  moreover have "\<not> past_wait (gs w ! i)" using none i by simp
  ultimately have step: "close_once s = NotRun \<and> \<not> past_wait g \<and> (\<forall>h\<in>set new. \<not> past_wait h)"
    using act_past [OF a] by simp
  have "\<not> past_wait h" if "h \<in> set (gs v)" for h
    using that unfolding v world.simps by (cases rule: set_update_cases) (use step none in auto)
  with step show ?thesis by blast
qed

lemma world_inv_move:
  assumes inv: "world_inv w" and m: "move i c w = Some v"
  shows "world_inv v"
proof -
  from m obtain s g new where i: "i < length (gs w)" and a: "sdk_act c (gs w ! i) (sh w) = Some (s, g, new)"
    and v: "v = \<lparr>sh = s, gs = (gs w)[i := g] @ new\<rparr>" by (rule moveE)
  have books: "booked x (sh v) = base x (sh v) + sum_list (map (part x) (gs v))" for x
    using accounts.move_books [OF m] inv by (simp add: world_inv_def)
  have pools: "open_pools (sh v) = mset_set (set_option (cur_pool (sh v))) + sum_list (map owned_pools (gs v))"
    using pools.move_books [OF m] inv by (simp add: world_inv_def)
  have aw: "aware (sh w) (gs w ! i)" using inv i by (simp add: world_inv_def)
  have "close_once (sh w) = Ran \<Longrightarrow> connecting (gs w ! i) = 0"
    using inv i unfolding world_inv_def quiet_def by (auto simp: sum_list_eq_0_iff)
  then have ran: "close_once s = Ran \<longrightarrow> cur_pool s = None \<and> \<not> conn_open s"
    using act_ran [OF a aw] inv by (auto simp: world_inv_def)
  show ?thesis
    unfolding world_inv_def
    using books pools world_inv_aware [OF inv i a] world_inv_quiet [OF inv i a v] ran act_idle [OF a] inv
    by (simp add: v world_inv_def)
qed

interpretation sdk_world: safety_system world_init world_step world_inv
  by unfold_locales (auto intro: world_inv_init world_inv_move elim: world_step.cases)

text \<open>The \<^verbatim>\<open>closeOnce\<close> only goes forward, whoever moves.\<close>

lemma act_once_forward:
  assumes "sdk_act c g s = Some (s', g', new)"
  shows "close_once s \<le> close_once s'"
  using assms
proof (cases rule: sdk_act_cases)
  case (user p q)
  then show ?thesis by (cases p rule: pc_exhaust) (auto simp: act_simps split: act_splits)
next
  case (worker p q)
  then show ?thesis by (cases p rule: pc_exhaust) (auto simp: act_simps split: act_splits)
next
  case (monitor p q)
  then show ?thesis by (cases p) (auto simp: wg_done_def split: act_splits)
next
  case (reconn p q)
  with rc_once show ?thesis by simp
qed (auto simp: wg_done_def)

lemma run_once_forward: "world_step\<^sup>*\<^sup>* w v \<Longrightarrow> close_once (sh w) \<le> close_once (sh v)"
proof (induction rule: rtranclp_induct)
  case (step u v)
  from step(2) obtain i c where "move i c u = Some v" by (auto elim: world_step.cases)
  then have "close_once (sh u) \<le> close_once (sh v)" by (elim moveE) (auto dest: act_once_forward)
  with step(3) show ?case by (rule order_trans)
qed simp

lemma move_ran: "move i c w = Some v \<Longrightarrow> close_once (sh w) = Ran \<Longrightarrow> close_once (sh v) = Ran"
  using run_once_forward [of w v] by (auto intro: world_step)

lemma closed_world:
  assumes "world_inv w" "close_once (sh w) = Ran"
  shows "cur_pool (sh w) = None \<and> open_pools (sh w) = {#} \<and> open_conns (sh w) = 0 \<and> (\<forall>p. idle_chans (sh w) p = 0)"
proof -
  have "connecting g = 0" if "g \<in> set (gs w)" for g
    using assms that unfolding world_inv_def quiet_def by (auto simp: sum_list_eq_0_iff)
  then have "owned_pools g = {#} \<and> part Conns g = 0" if "g \<in> set (gs w)" for g
    using that by (cases g) fastforce+
  then have "sum_list (map owned_pools (gs w)) = {#}" "sum_list (map (part Conns) (gs w)) = 0"
    by (simp_all add: sum_list_eq_0_iff sum_list_0 cong: map_cong)
  with assms world_books(7) [OF assms(1)] show ?thesis by (simp add: world_inv_def)
qed

section \<open>Properties\<close>

text \<open>Whoever replaces the pool.\<close>

fun swapping :: "gor \<Rightarrow> bool" where
  "swapping (Reconn RcTake) = True" | "swapping (Reconn (RcInstall _)) = True"
| "swapping (User (Stopping ShClosePool)) = True" | "swapping (Worker (Stopping ShClosePool)) = True"
| "swapping _ = False"

lemma swapping_aware: "swapping g \<Longrightarrow> aware s g \<Longrightarrow> pub_readers s = 0"
  by (cases g rule: swapping.cases) auto

lemma owned_bound: "size (sum_list (map owned_pools xs)) \<le> sum_list (map (part Flag) xs)"
proof (induction xs)
  case (Cons g xs)
  have "size (mset_set (set_option a)) \<le> 1" for a :: "nat option" by (cases a) auto
  then have "size (rc_pools r) \<le> 1" for r by (cases r) auto
  then have "size (owned_pools g) \<le> part Flag g" by (cases g) auto
  from add_mono [OF this Cons] show ?case by (simp only: list.map sum_list.Cons size_union)
qed simp

lemma dialled_bound: "sum_list (map (part Conns) xs) \<le> sum_list (map (part Flag) xs)"
proof (induction xs)
  case (Cons g xs)
  then show ?case by (cases g) auto
qed simp

text \<open>As long as the SDK has a pool (or a connection) of its own, no reconnect has another.\<close>

lemma none_owned:
  assumes "\<forall>g\<in>set xs. aware s g" "cur_pool s \<noteq> None"
  shows "sum_list (map owned_pools xs) = {#}"
proof -
  have "rc_aware s r \<Longrightarrow> rc_pools r = {#}" for r
    using assms(2) by (cases r rule: rc_exhaust) auto
  then have "owned_pools g = {#}" if "g \<in> set xs" for g
    using assms(1) that by (cases g) fastforce+
  then show ?thesis by (simp add: sum_list_0 cong: map_cong)
qed

lemma none_dialled:
  assumes "\<forall>g\<in>set xs. aware s g" "conn_open s"
  shows "sum_list (map (part Conns) xs) = 0"
  unfolding sum_list_eq_0_iff
proof
  fix n
  assume "n \<in> set (map (part Conns) xs)"
  then obtain g where "g \<in> set xs" "n = part Conns g" by auto
  with assms show "n = 0" by (cases g) fastforce+
qed

text \<open>
  C13: whatever the application and the SDK's goroutines do, and in whatever order, at most one of
  them holds \<^verbatim>\<open>SDK.mu\<close>; while one replaces the publisher pool nobody reads it; at most one
  reconnect runs, and exactly while the flag is set or about to start it; and no pool and no
  connection is forgotten: each open pool is the current one or in the hands of the reconnect, there is
  never more than one, and the same holds of the connections.
\<close>

theorem locks_protect_pool:
  assumes "reach world_init world_step w"
  shows "sum_list (map (part Mu) (gs w)) \<le> 1
     \<and> (\<forall>g\<in>set (gs w). swapping g \<longrightarrow> (\<forall>h\<in>set (gs w). part Readers h = 0))
     \<and> sum_list (map (part Flag) (gs w)) = of_bool (reconn_flag (sh w))
     \<and> open_pools (sh w) = mset_set (set_option (cur_pool (sh w))) + sum_list (map owned_pools (gs w))
     \<and> size (open_pools (sh w)) \<le> 1 \<and> open_conns (sh w) \<le> 1"
proof -
  have inv: "world_inv w" using assms by (rule sdk_world.reach_inv)
  note books = world_books [OF inv]
  have "\<forall>h\<in>set (gs w). part Readers h = 0" if "g \<in> set (gs w)" "swapping g" for g
    using swapping_aware [of g "sh w"] inv that books(3) by (auto simp: world_inv_def sum_list_eq_0_iff)
  moreover have "sum_list (map (part Flag) (gs w)) \<le> 1" "sum_list (map (part Mu) (gs w)) \<le> 1"
    unfolding books [symmetric] by auto
  moreover have aw: "\<forall>g\<in>set (gs w). aware (sh w) g" using inv by (simp add: world_inv_def)
  have "size (open_pools (sh w)) \<le> 1"
  proof (cases "cur_pool (sh w)")
    case None
    with owned_bound [of "gs w"] calculation inv show ?thesis by (simp add: world_inv_def)
  next
    case (Some p)
    with none_owned [OF aw] inv show ?thesis by (simp add: world_inv_def)
  qed
  moreover have "open_conns (sh w) \<le> 1"
    using none_dialled [OF aw] dialled_bound [of "gs w"] calculation unfolding books(7)
    by (cases "conn_open (sh w)") simp_all
  ultimately show ?thesis
    using inv books(5) by (simp add: world_inv_def)
qed

text \<open>One application goroutine and a pool with one channel; the pool is swapped while it is published to.\<close>

definition swap_schedule :: "(nat \<times> choice) list" where
  "swap_schedule = [(1, Call CPublish), (1, Go), (1, Go), (0, Alt), (0, Go),
     (2, Go), (2, Go), (2, Go), (2, Go), (2, Go)]"

lemmas run_simps = move_def new_world_def act_simps numeral_2_eq_2 numeral_3_eq_3 nth_Cons'

theorem locks_protect_pool_witness:
  "\<exists>w. wrun swap_schedule (new_world 1 1) = Some w \<and> gs w = [Ended, User (Publishing (PubGet 0)), Reconn (RcClosePool (Some 0))]
     \<and> open_pools (sh w) = {#0#} \<and> cur_pool (sh w) = None \<and> size (open_pools (sh w)) \<le> 1"
proof -
  let ?w = "new_world 1 1\<lparr>sh := (sh (new_world 1 1))\<lparr>s_mu := True, reconn_flag := True, cur_pool := None\<rparr>,
    gs := [Ended, User (Publishing (PubGet 0)), Reconn (RcClosePool (Some 0))]\<rparr>"
  have run: "wrun swap_schedule (new_world 1 1) = Some ?w"
    by (simp add: swap_schedule_def run_simps)
  show ?thesis
    using locks_protect_pool [OF wrun_reach [OF run]] run by (simp add: new_world_def)
qed

text \<open>
  C15: once the closing of a \<^verbatim>\<open>Shutdown\<close> is through, the SDK has no pool, no pool and no
  connection is open and no channel is left in any pool, and nothing that happens afterwards
  changes that: publishes that still hold a channel of the old pool, late calls, or
  workers that are started late.
\<close>

theorem closed_for_good:
  assumes "reach world_init world_step w" "close_once (sh w) = Ran" "world_step\<^sup>*\<^sup>* w v"
  shows "cur_pool (sh v) = None \<and> open_pools (sh v) = {#} \<and> open_conns (sh v) = 0 \<and> (\<forall>p. idle_chans (sh v) p = 0)"
proof -
  have "close_once (sh v) = Ran"
    using run_once_forward [OF assms(3)] assms(2) by simp
  moreover have "world_inv v"
    using sdk_world.reach_inv [OF reach_steps [OF assms(3,1)]] .
  ultimately show ?thesis by (rule closed_world [rotated])
qed

text \<open>A publish that took its channel before \<^verbatim>\<open>Shutdown\<close> and returns it afterwards.\<close>

definition late_put :: "(nat \<times> choice) list" where
  "late_put = [(1, Call CPublish), (1, Go), (1, Go), (1, Go), (2, Call (CShutdown False)), (2, Go), (0, Go),
     (2, Go), (2, Go), (2, Go), (2, Go), (2, Go), (2, Go), (2, Go)]"

theorem closed_for_good_witness:
  "\<exists>w v. wrun late_put (new_world 1 2) = Some w \<and> gs w = [Ended, User (Publishing (PubPut 0)), User Ready]
     \<and> move 1 Go w = Some v \<and> gs v = [Ended, User Ready, User Ready] \<and> idle_chans (sh v) 0 = 0 \<and> open_pools (sh v) = {#}"
proof -
  let ?s = "(sh (new_world 1 2))\<lparr>wg := 0, ctx_done := True, close_once := Ran, cur_pool := None, open_pools := {#},
    idle_chans := (\<lambda>_. 0), conn_open := False, open_conns := 0\<rparr>"
  let ?w = "\<lparr>sh = ?s, gs = [Ended, User (Publishing (PubPut 0)), User Ready]\<rparr>"
  let ?v = "\<lparr>sh = ?s, gs = [Ended, User Ready, User Ready]\<rparr>"
  have run: "wrun late_put (new_world 1 2) = Some ?w"
    by (simp add: late_put_def run_simps fun_eq_iff)
  have step: "move 1 Go ?w = Some ?v" by (simp add: run_simps)
  then have "world_step\<^sup>*\<^sup>* ?w ?v" by (blast intro: world_step)
  from closed_for_good [OF wrun_reach [OF run] _ this] show ?thesis
    using run step by (intro exI [of _ ?w] exI [of _ ?v]) simp
qed

end
