(* ===== verification/Wind_Down.thy ===== *)
theory Wind_Down
  imports Sdk_Locks
begin

text \<open>
  Progress of the goroutines of \<open>Sdk_Goroutines\<close>: as long as no handler is inside a \<^verbatim>\<open>Shutdown\<close>
  with a context that never ends, the locks cannot deadlock, and once the SDK's context is done
  everything winds down within a bounded number of steps, whatever the library calls answer and
  whichever contexts end. What that leaves out is stated as well: a handler that calls
  \<^verbatim>\<open>Shutdown\<close> with such a context hangs, and a \<^verbatim>\<open>Start\<close> that overlaps a \<^verbatim>\<open>Shutdown\<close> can
  leave a worker behind.
\<close>

section \<open>Progress\<close>

text \<open>
  At rest: an application goroutine outside the SDK, a goroutine that has ended, and, as long as
  the context is not done, a worker or monitor waiting for something to happen.
\<close>

fun resting :: "bool \<Rightarrow> gor \<Rightarrow> bool" where
  "resting d (User p) = (p = Ready)"
| "resting d (Worker p) = (p = Ready \<and> \<not> d)"
| "resting d (Monitor m) = (m = MonWatch \<and> \<not> d)"
| "resting d (Reconn r) = False"
| "resting d Ended = True"

text \<open>A handler inside a \<^verbatim>\<open>Shutdown\<close> whose context never ends: it waits for its own worker.\<close>

fun handler_hangs :: "gor \<Rightarrow> bool" where
  "handler_hangs (Worker (Stopping (ShCancel False))) = True"
| "handler_hangs (Worker (Stopping (ShWait False))) = True"
| "handler_hangs _ = False"

text \<open>
  Two ways to look at what the SDK does without a new call. In an own step somebody inside a
  call, or one of the SDK's goroutines that has found the context done, goes on
  with what is next in its code, or finds the context it gave to \<^verbatim>\<open>Shutdown\<close> ended. In a work
  step anything but a new call happens: library calls succeed or fail, contexts end, connections are lost.
\<close>

fun patient :: "gor \<Rightarrow> bool" where
  "patient (User (Stopping (ShWait True))) = True"
| "patient (Worker (Stopping (ShWait True))) = True"
| "patient _ = False"

inductive own_step :: "world \<Rightarrow> world \<Rightarrow> bool" where
  go_on: "move i Go w = Some v \<Longrightarrow> own_step w v"
| give_up: "patient (gs w ! i) \<Longrightarrow> move i Alt w = Some v \<Longrightarrow> own_step w v"

fun no_call :: "choice \<Rightarrow> bool" where
  "no_call (Call k) = False" | "no_call _ = True"

inductive work_step :: "world \<Rightarrow> world \<Rightarrow> bool" where
  work_step: "no_call c \<Longrightarrow> gs w ! i \<noteq> User Ready \<Longrightarrow> move i c w = Some v \<Longrightarrow> work_step w v"

lemma own_step_work: "own_step w v \<Longrightarrow> work_step w v"
proof (induction rule: own_step.induct)
  case (go_on i w v)
  then have "gs w ! i \<noteq> User Ready" by (auto elim!: moveE)
  with go_on show ?case by (auto intro: work_step [of Go])
next
  case (give_up w i v)
  have "gs w ! i \<noteq> User Ready" using give_up(1) by auto
  with give_up(2) show ?case by (auto intro: work_step [of Alt])
qed

lemma pc_enabled:
  "pc_pub p \<noteq> 0 \<Longrightarrow> pub_readers s = 0 \<Longrightarrow> call_act Go p s \<noteq> None"
  "pc_mu p \<noteq> 0 \<Longrightarrow> pc_pub p = 0 \<Longrightarrow> \<not> pub_mu s \<Longrightarrow> call_act Go p s \<noteq> None"
  "p \<noteq> Ready \<Longrightarrow> \<not> s_mu s \<Longrightarrow> \<not> pub_mu s \<Longrightarrow> pc_pub p = 0 \<Longrightarrow> pc_mu p = 0 \<Longrightarrow>
     p \<noteq> Stopping ShOnce \<or> close_once s \<noteq> Running \<Longrightarrow> (\<And>b. p = Stopping (ShWait b) \<Longrightarrow> wg s = 0) \<Longrightarrow> call_act Go p s \<noteq> None"
  by (cases p rule: pc_exhaust; auto split: option.splits once.splits)+

lemma rc_enabled:
  "rc_pub r \<noteq> 0 \<Longrightarrow> pub_readers s = 0 \<Longrightarrow> reconnect_act Go r s \<noteq> None"
  "rc_pub r = 0 \<Longrightarrow> \<not> pub_mu s \<Longrightarrow> rc_mu r \<noteq> 0 \<or> \<not> s_mu s \<Longrightarrow> reconnect_act Go r s \<noteq> None"
  by (cases r rule: rc_exhaust; auto)+

abbreviation enabled :: "gor \<Rightarrow> shared \<Rightarrow> bool" where
  "enabled g s \<equiv> sdk_act Go g s \<noteq> None"

abbreviation able :: "gor \<Rightarrow> shared \<Rightarrow> bool" where
  "able g s \<equiv> enabled g s \<or> patient g"

lemma able_own_step:
  assumes "h \<in> set (gs w)" "able h (sh w)"
  shows "\<exists>v. own_step w v"
proof -
  obtain i where i: "i < length (gs w)" "gs w ! i = h" using assms(1) by (auto simp: in_set_conv_nth)
  have "\<exists>v. move i Alt w = Some v" if "patient h"
    using that i by (cases h rule: patient.cases) (auto simp: move_def)
  moreover have "\<exists>v. move i Go w = Some v" if "enabled h (sh w)" using that i by (auto simp: move_def)
  ultimately show ?thesis using assms(2) i by (metis go_on give_up)
qed

lemma enabled_caller: "call_act Go p s \<noteq> None \<Longrightarrow> enabled (User p) s" "call_act Go p s \<noteq> None \<Longrightarrow> enabled (Worker p) s"
  by auto

lemma enabled_reader: "part Readers g \<noteq> 0 \<Longrightarrow> enabled g s"
  by (cases g) (auto split: option.splits)

lemma enabled_writer: "part PubMu g \<noteq> 0 \<Longrightarrow> pub_readers s = 0 \<Longrightarrow> enabled g s"
  using enabled_caller [OF pc_enabled(1)] by (cases g) (simp_all add: rc_enabled(1) del: sdk_act.simps(1,2))

lemma enabled_holder: "part Mu g \<noteq> 0 \<Longrightarrow> part PubMu g = 0 \<Longrightarrow> \<not> pub_mu s \<Longrightarrow> enabled g s"
  using enabled_caller [OF pc_enabled(2)] by (cases g) (simp_all add: rc_enabled(2) del: sdk_act.simps(1,2))

lemma enabled_free:
  assumes "\<not> resting (ctx_done s) g" "\<not> s_mu s" "\<not> pub_mu s" "part Mu g = 0" "part PubMu g = 0"
    "g \<noteq> User (Stopping ShOnce) \<and> g \<noteq> Worker (Stopping ShOnce) \<or> close_once s \<noteq> Running"
    "\<And>b. g = User (Stopping (ShWait b)) \<or> g = Worker (Stopping (ShWait b)) \<Longrightarrow> wg s = 0"
  shows "enabled g s"
proof (cases g)
  case (User p)
  with assms pc_enabled(3) [of p s] show ?thesis by auto
next
  case (Worker p)
  with assms pc_enabled(3) [of p s] show ?thesis by auto
next
  case (Monitor m)
  with assms show ?thesis by (cases m) auto
next
  case (Reconn r)
  with assms rc_enabled(2) [of r s] show ?thesis by auto
next
  case Ended
  with assms show ?thesis by simp
qed

text \<open>Inside \<^verbatim>\<open>closeOnce\<close> without \<^verbatim>\<open>SDK.mu\<close>: about to take it.\<close>

lemma closing_unlocked:
  assumes "part Closing g \<noteq> 0" "part Mu g = 0" "\<not> s_mu s"
  shows "enabled g s"
proof -
  have "pc_closing p \<noteq> 0 \<Longrightarrow> pc_mu p = 0 \<Longrightarrow> p = Stopping ShLock" for p
    by (cases p rule: pc_exhaust) auto
  with assms show ?thesis by (cases g) fastforce+
qed

definition awaiting :: "gor \<Rightarrow> bool" where
  "awaiting g \<longleftrightarrow> (\<exists>b. g = User (Stopping (ShWait b)) \<or> g = Worker (Stopping (ShWait b)))"

lemma waiting_enabled:
  assumes inv: "world_inv w" and no: "\<forall>g\<in>set (gs w). \<not> handler_hangs g"
    and all: "\<forall>h\<in>set (gs w). resting (ctx_done (sh w)) h \<or> awaiting h"
    and g: "g \<in> set (gs w)" "awaiting g"
  shows "\<exists>h\<in>set (gs w). able h (sh w)"
proof (cases "\<exists>h\<in>set (gs w). patient h")
  case False
  have d: "ctx_done (sh w)" using inv g by (auto simp: world_inv_def awaiting_def)
  have user: "h = User (Stopping (ShWait False))" if "h \<in> set (gs w)" "awaiting h" for h
    using False no that by (auto simp: awaiting_def) (metis (full_types) handler_hangs.simps(2) patient.simps(1,2))+
  have "part Wg h = 0" if "h \<in> set (gs w)" for h
  proof -
    have "resting True h \<or> h = User (Stopping (ShWait False))" using all user d that by auto
    then show ?thesis by (cases h) auto
  qed
  then have "wg (sh w) = 0" unfolding world_books [OF inv] by (metis positive_part)
  with user [OF g] g(1) show ?thesis by (auto intro!: bexI [of _ g])
qed blast

lemma somebody_enabled:
  assumes inv: "world_inv w" and no: "\<forall>g\<in>set (gs w). \<not> handler_hangs g"
    and busy: "g \<in> set (gs w)" "\<not> resting (ctx_done (sh w)) g"
  shows "\<exists>g\<in>set (gs w). able g (sh w)"
proof -
  let ?s = "sh w"
  note books = world_books [OF inv, symmetric]
  have holder: "\<exists>h\<in>set (gs w). part a h \<noteq> 0" if "sum_list (map (part a) (gs w)) \<noteq> 0" for a
    using that by (rule positive_part)
  consider "pub_readers ?s \<noteq> 0" | "pub_mu ?s" "pub_readers ?s = 0" | "\<not> pub_mu ?s" "s_mu ?s"
    | "\<not> pub_mu ?s" "\<not> s_mu ?s" by blast
  then show ?thesis
  proof cases
    case 1
    with holder [of Readers] show ?thesis unfolding books using enabled_reader by blast
  next
    case 2
    with holder [of PubMu] show ?thesis unfolding books using enabled_writer by force
  next
    case 3
    then have "part PubMu h = 0" if "h \<in> set (gs w)" for h
      using zero_part [OF _ that, of "part PubMu"] unfolding books by simp
    with 3 holder [of Mu] show ?thesis unfolding books using enabled_holder by force
  next
    case 4
    then have free: "part Mu h = 0" "part PubMu h = 0" if "h \<in> set (gs w)" for h
      using zero_part [OF _ that, of "part Mu"] zero_part [OF _ that, of "part PubMu"] unfolding books by simp_all
    show ?thesis
    proof (cases "close_once ?s = Running")
      case True
      with 4 free holder [of Closing] show ?thesis unfolding books using closing_unlocked by force
    next
      case False
      show ?thesis
      proof (cases "\<forall>h\<in>set (gs w). resting (ctx_done ?s) h \<or> awaiting h")
        case True
        with busy have "awaiting g" by blast
        with waiting_enabled [OF inv no True] busy show ?thesis by blast
      next
        case False
        then obtain h where "h \<in> set (gs w)" "\<not> resting (ctx_done ?s) h" "\<not> awaiting h" by blast
        with \<open>close_once ?s \<noteq> Running\<close> free 4 show ?thesis
          using enabled_free [of ?s h] by (auto simp: awaiting_def)
      qed
    qed
  qed
qed

section \<open>After cancellation everything winds down\<close>

text \<open>How many work steps a goroutine and those it starts have left at most once the context is done.\<close>

definition loop_load :: "nat list \<Rightarrow> nat" where
  "loop_load ws = sum_list (map (\<lambda>n. 2 * n + 4) ws)"

fun pc_load :: "pc \<Rightarrow> nat" where
  "pc_load Ready = 0"
| "pc_load (Publishing p) = (case p of PubRLock \<Rightarrow> 4 | PubRead \<Rightarrow> 3 | PubGet _ \<Rightarrow> 2 | PubPut _ \<Rightarrow> 1)"
| "pc_load (Configuring p) = (case p of CfgLock \<Rightarrow> 2 | CfgBody \<Rightarrow> 1)"
| "pc_load (Starting p) = (case p of StStoreLock ws \<Rightarrow> loop_load ws + 3 | StStore ws \<Rightarrow> loop_load ws + 2
     | StLoop ws \<Rightarrow> loop_load ws + 1 | StConsume n ws \<Rightarrow> 2 * n + loop_load ws + 4
     | StSpawn n ws \<Rightarrow> 2 * n + loop_load ws + 2)"
| "pc_load (Stopping p) = (case p of ShCancel _ \<Rightarrow> 8 | ShWait _ \<Rightarrow> 7 | ShOnce \<Rightarrow> 6 | ShLock \<Rightarrow> 5
     | ShPubLock \<Rightarrow> 4 | ShPubWait \<Rightarrow> 3 | ShClosePool \<Rightarrow> 2 | ShCloseConn \<Rightarrow> 1)"

fun rc_load :: "rc_pc \<Rightarrow> nat" where
  "rc_load RcStore = 1" | "rc_load RcLeave = 2" | "rc_load RcTop = 3" | "rc_load RcWait = 4" | "rc_load RcLock = 4"
| "rc_load RcMonitor = 9" | "rc_load (RcLoop ws) = loop_load ws + 10"
| "rc_load (RcSpawn n ws) = 2 * n + loop_load ws + 11"
| "rc_load RcStart = 11" | "rc_load (RcInstall _) = 12" | "rc_load (RcInstWait _) = 13" | "rc_load (RcInstLock _) = 14"
| "rc_load RcSetup = 15" | "rc_load RcDialled = 16" | "rc_load RcDial = 17" | "rc_load RcCloseConn = 18"
| "rc_load (RcClosePool _) = 19" | "rc_load RcTake = 20" | "rc_load RcPubWait = 21" | "rc_load RcPubLock = 22"

abbreviation load :: "gor \<Rightarrow> nat" where
  "load \<equiv> weigh pc_load 1 (\<lambda>m. if m = MonWatch then 6 else 5) rc_load"

lemma loop_load_simps [simp]: "loop_load [] = 0" "loop_load (n # ws) = 2 * n + 4 + loop_load ws"
  by (simp_all add: loop_load_def)

lemma call_load:
  "call_act c p s = Some (s', q, new) \<Longrightarrow> no_call c \<Longrightarrow> pc_load q + sum_list (map load new) < pc_load p"
  by (cases p rule: pc_exhaust) (auto split: act_splits choice.splits if_splits)

lemma rc_load_less:
  "reconnect_act c r s = Some (s', x, new) \<Longrightarrow> ctx_done s \<Longrightarrow>
     (case x of None \<Rightarrow> 0 | Some y \<Rightarrow> rc_load y) + sum_list (map load new) < rc_load r"
  by (cases r rule: rc_exhaust) (auto split: act_splits)

lemma act_load:
  assumes "sdk_act c g s = Some (s', g', new)" "ctx_done s" "no_call c" "g \<noteq> User Ready"
  shows "load g' + sum_list (map load new) < load g"
proof (cases g)
  case (User p)
  with assms call_load [of c p s] show ?thesis by (auto split: if_splits)
next
  case (Worker p)
  with assms call_load [of c p s] show ?thesis by (auto split: if_splits)
next
  case (Monitor m)
  with assms show ?thesis by (cases m) (auto split: if_splits choice.splits)
next
  case (Reconn r)
  with rc_load_less [of c r s s' _ new] assms show ?thesis by (auto split: option.splits)
qed (use assms in simp)

abbreviation total_load :: "world \<Rightarrow> nat" where
  "total_load w \<equiv> sum_list (map load (gs w))"

text \<open>What holds while the SDK winds down with no handler that waits for itself.\<close>

definition winding :: "world \<Rightarrow> bool" where
  "winding w \<longleftrightarrow> world_inv w \<and> ctx_done (sh w) \<and> (\<forall>g\<in>set (gs w). \<not> handler_hangs g)"

lemma hangs_wait:
  "handler_hangs (Worker (Stopping (ShCancel b))) \<longleftrightarrow> \<not> b" "handler_hangs (Worker (Stopping (ShWait b))) \<longleftrightarrow> \<not> b"
  by (cases b; simp)+

lemma call_handler_hangs:
  "call_act c p s = Some (s', q, new) \<Longrightarrow> no_call c \<Longrightarrow> \<not> handler_hangs (Worker p) \<Longrightarrow> \<not> handler_hangs (Worker q)"
  by (cases p rule: pc_exhaust) (auto simp: hangs_wait split: act_splits choice.splits if_splits)

lemma act_handler:
  assumes "sdk_act c g s = Some (s', g', new)" "no_call c" "\<not> handler_hangs g" "aware s g"
  shows "\<not> handler_hangs g' \<and> (\<forall>h\<in>set new. \<not> handler_hangs h)"
proof -
  have "\<not> handler_hangs g'"
  proof (cases g)
    case (Worker p)
    with assms call_handler_hangs [of c p s] show ?thesis by (auto split: if_splits)
  qed (use assms(1) in \<open>auto split: if_splits option.splits\<close>)
  then show ?thesis using act_aware [OF assms(1,4)] by auto
qed

lemma work_winding:
  assumes "work_step w v" "winding w"
  shows "winding v \<and> total_load v < total_load w"
proof -
  from assms(1) obtain i c where c: "no_call c" "gs w ! i \<noteq> User Ready" and m: "move i c w = Some v"
    by (auto elim: work_step.cases)
  then obtain s g new where i: "i < length (gs w)" and a: "sdk_act c (gs w ! i) (sh w) = Some (s, g, new)"
    and v: "v = \<lparr>sh = s, gs = (gs w)[i := g] @ new\<rparr>" by (auto elim: moveE)
  have w: "world_inv w" "ctx_done (sh w)" "\<forall>g\<in>set (gs w). \<not> handler_hangs g"
    using assms(2) by (auto simp: winding_def)
  have "aware (sh w) (gs w ! i)" using w i by (simp add: world_inv_def)
  then have h: "\<not> handler_hangs g \<and> (\<forall>h\<in>set new. \<not> handler_hangs h)"
    using act_handler [OF a c(1)] w i by simp
  have "\<not> handler_hangs x" if "x \<in> set (gs v)" for x
    using that unfolding v world.simps by (cases rule: set_update_cases) (use h w in auto)
  moreover have "ctx_done s" using sdk_outside [OF a] w by simp
  ultimately have "winding v"
    using world_inv_move [OF w(1) m] by (simp add: winding_def v)
  moreover obtain r where "total_load w = r + load (gs w ! i)" "sum_list (map load ((gs w)[i := g])) = r + load g"
    using sum_list_split [OF i] by blast
  then have "total_load v < total_load w" using act_load [OF a w(2) c] by (simp add: v)
  ultimately show ?thesis ..
qed

interpretation sdk_winds: winding_system work_step winding "\<lambda>w. total_load w"
  by unfold_locales (rule work_winding)

lemma work_stuck:
  assumes "winding w" "\<nexists>v. work_step w v"
  shows "set (gs w) \<subseteq> {User Ready, Ended}"
proof -
  have "resting True g" if g: "g \<in> set (gs w)" for g
  proof (rule ccontr)
    assume "\<not> resting True g"
    then obtain h where "h \<in> set (gs w)" "able h (sh w)"
      using somebody_enabled [of w g] assms(1) g by (auto simp: winding_def)
    with able_own_step own_step_work assms(2) show False by blast
  qed
  then show ?thesis by (metis gor.exhaust insertCI resting.simps(1-4) subsetI)
qed

text \<open>
  A \<^verbatim>\<open>Shutdown\<close> whose context does not end, or that has got past its wait, ends with
  everything closed.
\<close>

fun committed :: "stop_pc \<Rightarrow> bool" where
  "committed (ShCancel b) = (\<not> b)"
| "committed (ShWait b) = (\<not> b)"
| "committed _ = True"

lemma act_stopping:
  assumes "sdk_act c (User (Stopping p)) s = Some (s', g', new)" "committed p"
  shows "(\<exists>q. g' = User (Stopping q) \<and> committed q) \<or> close_once s' = Ran"
  using assms by (cases p) (auto split: act_splits if_splits)

lemma work_stopping:
  assumes "work_step w v" "i < length (gs w)"
    "(\<exists>p. gs w ! i = User (Stopping p) \<and> committed p) \<or> close_once (sh w) = Ran"
  shows "i < length (gs v) \<and> ((\<exists>p. gs v ! i = User (Stopping p) \<and> committed p) \<or> close_once (sh v) = Ran)"
proof -
  from assms(1) obtain j c where m: "move j c w = Some v" by (auto elim: work_step.cases)
  then obtain s g new where a: "sdk_act c (gs w ! j) (sh w) = Some (s, g, new)" "j < length (gs w)"
    and v: "v = \<lparr>sh = s, gs = (gs w)[j := g] @ new\<rparr>" by (auto elim: moveE)
  show ?thesis
  proof (cases "close_once (sh w) = Ran")
    case True
    then show ?thesis using move_ran [OF m] assms(2) v by simp
  next
    case False
    with assms(3) obtain p where "gs w ! i = User (Stopping p)" "committed p" by blast
    then show ?thesis
      using act_stopping [of c p "sh w" s g new] a assms(2) by (auto simp: v nth_append nth_list_update)
  qed
qed

lemma work_run_stopping:
  assumes "work_step\<^sup>*\<^sup>* w v" "i < length (gs w)" "gs w ! i = User (Stopping p)" "committed p"
  shows "i < length (gs v) \<and> ((\<exists>p. gs v ! i = User (Stopping p) \<and> committed p) \<or> close_once (sh v) = Ran)"
  using assms(1) by (induction rule: rtranclp_induct) (use assms(2-4) work_stopping in blast)+

lemma winding_reach:
  assumes "reach world_init world_step w" "ctx_done (sh w)" "\<forall>g\<in>set (gs w). \<not> handler_hangs g"
  shows "winding w"
  using assms sdk_world.reach_inv by (simp add: winding_def)

lemma stopping_closes:
  assumes "winding w" "work_step\<^sup>*\<^sup>* w v" "\<nexists>u. work_step v u" "User (Stopping p) \<in> set (gs w)" "committed p"
  shows "close_once (sh v) = Ran \<and> open_pools (sh v) = {#} \<and> open_conns (sh v) = 0"
proof -
  have v: "winding v" using sdk_winds.run_keeps assms by blast
  obtain i where "i < length (gs w)" "gs w ! i = User (Stopping p)" using assms(4) by (auto simp: in_set_conv_nth)
  from work_run_stopping [OF assms(2) this assms(5)] have "close_once (sh v) = Ran"
    using work_stuck [OF v assms(3)] nth_mem by fastforce
  with closed_world [of v] v show ?thesis by (simp add: winding_def)
qed

section \<open>A handler that calls Shutdown\<close>




section \<open>Properties\<close>

text \<open>
  C14: as long as no handler is inside a \<^verbatim>\<open>Shutdown\<close> whose context never ends (such a handler waits for its own worker,
  see the theorem on it below), the locks, the wait group and the once of the SDK
  cannot deadlock. In every reachable state in which a goroutine is inside a call
  or, with the context done, one of the SDK's goroutines has not ended, somebody can go on with what is next
  in its code, or give up a \<^verbatim>\<open>Shutdown\<close> because the context it gave to it ends; no new call, message
  or loss of the connection is needed for that. Calls of the client library are taken to answer.
\<close>

theorem sdk_never_deadlocks:
  assumes "reach world_init world_step w" "\<forall>g\<in>set (gs w). \<not> handler_hangs g"
    "g \<in> set (gs w)" "\<not> resting (ctx_done (sh w)) g"
  shows "\<exists>v. own_step w v"
  using somebody_enabled [OF sdk_world.reach_inv [OF assms(1)] assms(2-4)] able_own_step by blast

text \<open>\<^verbatim>\<open>Start\<close> waits for \<^verbatim>\<open>SDK.mu\<close>, which a reconnect holds that waits for the readers of the pool.\<close>

definition contended :: "(nat \<times> choice) list" where
  "contended = [(1, Call CPublish), (1, Go), (0, Alt), (0, Go), (3, Go), (3, Go), (3, Go), (2, Call (CStart [1]))]"

theorem sdk_never_deadlocks_witness:
  "\<exists>w. wrun contended (new_world 1 2) = Some w
     \<and> gs w = [Ended, User (Publishing PubRead), User (Starting (StStoreLock [1])), Reconn RcPubWait]
     \<and> move 2 Go w = None \<and> move 3 Go w = None \<and> (\<exists>v. own_step w v)"
proof -
  let ?w = "\<lparr>sh = (sh (new_world 1 2))\<lparr>s_mu := True, pub_mu := True, pub_readers := 1, reconn_flag := True\<rparr>,
    gs = [Ended, User (Publishing PubRead), User (Starting (StStoreLock [1])), Reconn RcPubWait]\<rparr>"
  have run: "wrun contended (new_world 1 2) = Some ?w"
    by (simp add: contended_def run_simps)
  have "\<exists>v. own_step ?w v"
    using sdk_never_deadlocks [OF wrun_reach [OF run], of "Reconn RcPubWait"] by simp
  then show ?thesis using run by (simp add: run_simps)
qed

text \<open>
  C12: \<^verbatim>\<open>Shutdown\<close> brings the SDK to an end. Once the SDK's context is done, as long as no handler is inside a
  \<^verbatim>\<open>Shutdown\<close> whose context never ends, and with no new calls and messages,
  the goroutines have only finitely many steps left, at most the given number, whatever the dials and other library
  calls answer, whichever connections are lost and whichever contexts end; and whenever none
  is left, every call has returned and every goroutine of the SDK has ended. If a
  \<^verbatim>\<open>Shutdown\<close> of the application was under way whose context does not end, or that was past its
  wait, the closing is through by then, and nothing is open. (One whose
  context ends first returns without having closed anything.)
\<close>

theorem shutdown_winds_down:
  assumes "reach world_init world_step w" "ctx_done (sh w)" "\<forall>g\<in>set (gs w). \<not> handler_hangs g"
  shows "(\<forall>n v. (work_step ^^ n) w v \<longrightarrow> n \<le> total_load w)
     \<and> (\<exists>v. work_step\<^sup>*\<^sup>* w v \<and> (\<nexists>u. work_step v u))
     \<and> (\<forall>v. work_step\<^sup>*\<^sup>* w v \<and> (\<nexists>u. work_step v u) \<longrightarrow>
          set (gs v) \<subseteq> {User Ready, Ended}
          \<and> ((\<exists>p. User (Stopping p) \<in> set (gs w) \<and> committed p) \<longrightarrow>
               close_once (sh v) = Ran \<and> open_pools (sh v) = {#} \<and> open_conns (sh v) = 0))"
proof (intro conjI allI impI, goal_cases)
  case (1 n v)
  then show ?case using sdk_winds.run_bound [of n w v] winding_reach [OF assms] by simp
next
  case 2
  show ?case using sdk_winds.run_ends [OF winding_reach [OF assms]] .
next
  case (3 v)
  then show ?case using work_stuck sdk_winds.run_keeps [OF _ winding_reach [OF assms]] by blast
qed (use stopping_closes [OF winding_reach [OF assms]] in blast)+

theorem shutdown_winds_down_witness:
  "\<exists>w v. wrun [(0, Alt), (1, Call (CShutdown False)), (1, Go), (0, Go)] (new_world 1 1) = Some w \<and> total_load w = 11
     \<and> gs w = [Ended, User (Stopping (ShWait False)), Reconn RcLock]
     \<and> work_step\<^sup>*\<^sup>* w v \<and> set (gs v) \<subseteq> {User Ready, Ended} \<and> close_once (sh v) = Ran \<and> open_conns (sh v) = 0"
proof -
  let ?w = "\<lparr>sh = (sh (new_world 1 1))\<lparr>ctx_done := True, reconn_flag := True\<rparr>,
    gs = [Ended, User (Stopping (ShWait False)), Reconn RcLock]\<rparr>"
  have run: "wrun [(0, Alt), (1, Call (CShutdown False)), (1, Go), (0, Go)] (new_world 1 1) = Some ?w"
    by (simp add: run_simps)
  have "ctx_done (sh ?w)" "\<forall>g\<in>set (gs ?w). \<not> handler_hangs g" by simp_all
  note down = shutdown_winds_down [OF wrun_reach [OF run] this]
  then obtain v where v: "work_step\<^sup>*\<^sup>* ?w v" "\<nexists>u. work_step v u" by blast
  moreover have "\<exists>p. User (Stopping p) \<in> set (gs ?w) \<and> committed p" by (rule exI [of _ "ShWait False"]) simp
  ultimately have "set (gs v) \<subseteq> {User Ready, Ended} \<and> close_once (sh v) = Ran \<and> open_conns (sh v) = 0"
    using down by blast
  moreover have "total_load ?w = 11" by simp
  ultimately show ?thesis using run v(1) by auto
qed




text \<open>
  C30: a \<^verbatim>\<open>Start\<close> that overlaps a \<^verbatim>\<open>Shutdown\<close> can leave a worker behind. It starts its workers after
  it released \<^verbatim>\<open>SDK.mu\<close>, and nothing orders that before the wait: there is a run in
  which \<^verbatim>\<open>Shutdown\<close> has waited for every goroutine, closed everything and returned, and a worker
  starts afterwards.
\<close>

theorem worker_can_outlive_shutdown:
  "\<exists>w. reach world_init world_step w \<and> close_once (sh w) = Ran \<and> gs w = [Ended, User Ready, User Ready, Worker Ready]"
proof -
  let ?sched = "[(1, Call (CStart [1])), (1, Go), (1, Go), (1, Go), (1, Go), (2, Call (CShutdown False)), (2, Go), (0, Go),
     (2, Go), (2, Go), (2, Go), (2, Go), (2, Go), (2, Go), (2, Go), (1, Go), (1, Go), (1, Go)] :: (nat \<times> choice) list"
  let ?s = "(sh (new_world 1 2))\<lparr>ctx_done := True, close_once := Ran, cur_pool := None, open_pools := {#},
    idle_chans := (\<lambda>_. 0), conn_open := False, open_conns := 0, started := [1]\<rparr>"
  have "wrun ?sched (new_world 1 2) = Some \<lparr>sh = ?s, gs = [Ended, User Ready, User Ready, Worker Ready]\<rparr>"
    by (simp add: run_simps fun_eq_iff)
  then show ?thesis using wrun_reach by fastforce
qed

end
