(* ===== verification/Sdk_Run.thy ===== *)
theory Sdk_Run
  imports Reconnect
begin

text \<open>
  The SDK as a whole: any sequence of calls of its interface, of rounds of its workers, of its
  monitor and of its reconnects. The lemmas show what each of them keeps of the SDK's
  invariant, so that it holds at every moment from \<^verbatim>\<open>NewSDK\<close> on.
\<close>

section \<open>Events that open and close nothing\<close>

definition neutral :: "event \<Rightarrow> bool" where
  "neutral e \<longleftrightarrow> (\<forall>m. chan_effect e m = m) \<and> (\<forall>m. conn_effect e m = m)"

lemma neutral_list: "list_all neutral es \<Longrightarrow> fold chan_effect es m = m \<and> fold conn_effect es n = n"
  by (induction es arbitrary: m n) (auto simp: neutral_def)

lemma grows_neutral: "grows neutral h h' \<Longrightarrow> live_chans h' = live_chans h \<and> live_conns h' = live_conns h"
  by (auto simp: grows_def neutral_list)

lemma neutral_simps [simp]:
  "neutral (EvCtxErr x a)" "neutral (EvSelectDone x a)" "neutral (EvNow t)" "neutral (EvRawSetDeadline w t a)"
  "neutral (EvRawClose w a)" "neutral (EvPublish k st1 st2 b b' pub p)" "neutral (EvConfirmWait i x v)"
  "neutral (EvAck i b a)" "neutral (EvNack i b b' a)" "neutral (EvHandler f x st1 d hr)" "neutral (EvMetric fam ls t)"
  "neutral (EvSpawnWorker i q)" "neutral (EvWorker i we)" "neutral (EvTickerNew t)" "neutral (EvTickerReset t)"
  "neutral EvTickerStop" "neutral (EvSpanStart x st1)" "neutral (EvSpanError er)" "neutral EvSpanEnd"
  "neutral (EvQos k i1 i2 b a)" "neutral (EvMonitor me)" "neutral EvSpawnReconnect" "neutral EvCancel"
  "neutral (EvWgWait b)" "neutral (EvConsume k st1 st2 b1 b2 b3 b4 tb p)"
  "neutral (EvExporterNew a)" "neutral (EvTracerShutdown x a)" "neutral (EvServe st1)" "neutral (EvServerShutdown x a)"
  by (simp_all add: neutral_def)

lemma metric_neutral: "metric_only f \<Longrightarrow> grows neutral h (f h)"
proof -
  have "is_metric e \<Longrightarrow> neutral e" for e by (cases e) auto
  then show "metric_only f \<Longrightarrow> grows neutral h (f h)"
    unfolding metric_only_def grows_def by (metis list.pred_mono_strong)
qed

lemmas sink_neutral = sink.sink_laws [THEN metric_neutral]

lemma declaring_neutral: "grows declaring_event h h' \<Longrightarrow> grows neutral h h'"
proof (erule grows_mono)
  show "declaring_event e \<Longrightarrow> neutral e" for e by (cases e) (auto simp: neutral_def)
qed

lemma starting_neutral: "grows starting_event h h' \<Longrightarrow> grows neutral h h'"
proof (erule grows_mono)
  show "starting_event e \<Longrightarrow> neutral e" for e by (cases e) auto
qed

lemma validateContext_neutral: "grows neutral h (snd (validateContext L c h))"
  by (simp add: validateContext_def ctx_err_def Let_def)

lemma msg_validate_neutral: "grows neutral h (snd (msg_validate L mp h))"
  by (auto simp: msg_validate_def now_def Let_def split: option.splits)

lemma publish_on_neutral: "grows neutral h (snd (publish_on L p ch c x k pub h))"
proof -
  obtain v h1 where v: "validateContext L c h = (v, h1)" by fastforce
  have "grows neutral h1 (snd (publish_on L p ch c x k pub h))"
    using v by (cases v)
      (auto simp: publish_on_def pool_interrupt_def env_defs Let_def grows_def
        split: option.splits sum.splits if_splits)
  with validateContext_neutral [of h L c] v show ?thesis by (auto intro: grows_trans)
qed

section \<open>Operations that change only the pool\<close>

definition frame :: "SDK \<Rightarrow> hist \<Rightarrow> SDK \<Rightarrow> hist \<Rightarrow> bool" where
  "frame s h s' h' \<longleftrightarrow> s'\<lparr>publisherPool := publisherPool s\<rparr> = s \<and> longer h h'
     \<and> live_conns h' = live_conns h \<and> (owns s h \<longrightarrow> owns s' h')
     \<and> (publisherPool s = None \<longrightarrow> publisherPool s' = None \<and> live_chans h' = live_chans h)"

lemma frame_neutral: "grows neutral h h' \<Longrightarrow> frame s h s h'"
  using grows_neutral [of h h'] by (auto simp: frame_def owns_def longer_grows)

lemma frame_trans:
  assumes "frame s h s1 h1" "frame s1 h1 s2 h2"
  shows "frame s h s2 h2"
proof -
  have "s2\<lparr>publisherPool := publisherPool s\<rparr> = s"
    using assms by (cases s, cases s1, cases s2) (auto simp: frame_def)
  then show ?thesis using assms by (auto simp: frame_def intro: grows_trans)
qed

text \<open>A computation that returns, with the SDK \<open>g\<close> reads off its result framed by the one before.\<close>

definition framed :: "('a \<Rightarrow> SDK) \<Rightarrow> SDK \<Rightarrow> hist \<Rightarrow> 'a outcome \<times> hist \<Rightarrow> bool" where
  "framed g s h r \<longleftrightarrow> (\<exists>x h'. r = (Returns x, h') \<and> sdk_pool_ok 0 (g x) \<and> frame s h (g x) h')"

lemma framed_return:
  "sdk_pool_ok 0 s \<Longrightarrow> grows neutral h h' \<Longrightarrow> g x = s \<Longrightarrow> framed g s h (Returns x, h')"
  using frame_neutral by (auto simp: framed_def)

lemma framed_obind:
  assumes "framed g s h r" "\<And>x h1. sdk_pool_ok 0 (g x) \<Longrightarrow> framed g' (g x) h1 (f x h1)"
  shows "framed g' s h (obind r f)"
  using assms frame_trans by (fastforce simp: framed_def)

lemma framed_before: "grows neutral h h1 \<Longrightarrow> framed g s h1 r \<Longrightarrow> framed g s h r"
  using frame_trans [OF frame_neutral] by (auto simp: framed_def)

lemma publishAMQP_framed:
  assumes "sdk_pool_ok 0 s"
  shows "framed snd s h (publishAMQP L c x k pub s h)"
proof -
  obtain v h1 where v: "validateContext L c h = (v, h1)" by fastforce
  have g1: "grows neutral h h1" using validateContext_neutral [of h L c] v by simp
  show ?thesis
  proof (cases "v = None \<and> publisherPool s \<noteq> None")
    case False
    then show ?thesis
      using v assms g1 by (cases v) (auto simp: publishAMQP_def framed_return)
  next
    case True
    then obtain p where p: "publisherPool s = Some p" by auto
    have ok: "pool_ok 0 p" using assms p by (simp add: sdk_pool_ok_def)
    obtain r p1 h2 where g: "get L (WithTimeout c (publisherPoolWait s)) p h1 = (r, p1, h2)" by (metis prod_cases3)
    have l2: "longer h h2" using grows_trans [OF longer_grows [OF g1] longer_grows [OF get_grows [OF g]]] .
    have conns: "live_conns h2 = live_conns h"
      using publisher_pool.acquire_conns [OF ok g] grows_neutral [OF g1] by simp
    show ?thesis
    proof (cases r)
      case (Inl e)
      let ?s = "s\<lparr>publisherPool := Some p1\<rparr>"
      have "pool_ok 0 p1" using g ok Inl by (blast intro: publisher_pool.acquire_failed)
      moreover have "owns s h \<longrightarrow> live_chans h2 \<subseteq># {#channel s#} + mset (buf (channels p1))"
        using publisher_pool.acquire_accounted [OF ok g, of "{#channel s#}"] grows_neutral [OF g1] p Inl
        by (auto simp: owns_def idle_chans_def)
      ultimately have "frame s h ?s h2" "sdk_pool_ok 0 ?s"
        using p l2 conns by (auto simp: frame_def owns_def idle_chans_def sdk_pool_ok_def)
      then show ?thesis using v True p g Inl by (auto simp: framed_def publishAMQP_def)
    next
      case (Inr ch)
      obtain e h3 where on: "publish_on L p1 ch c x k pub h2 = (e, h3)" by fastforce
      have n3: "grows neutral h2 h3" using publish_on_neutral [of h2 L p1 ch c x k pub] on by simp
      obtain pe p2 h4 where put: "put L (Some ch) p1 h3 = (Returns (pe, p2), h4)" "pool_ok 0 p2"
        using publisher_pool.borrow [OF ok] g Inr by blast
      let ?s = "s\<lparr>publisherPool := Some p2\<rparr>"
      have acc: "live_chans h1 \<subseteq># R + mset (buf (channels p)) \<Longrightarrow>
          live_chans h4 \<subseteq># R + mset (buf (channels p2)) \<and> live_conns h4 = live_conns h1" for R
        using publisher_pool.borrow_accounted [OF ok g [unfolded Inr] _ _ put(1), of R] grows_neutral [OF n3] by simp
      have "live_conns h4 = live_conns h"
        using acc [of "live_chans h1"] grows_neutral [OF g1] by simp
      moreover have "owns s h \<longrightarrow> live_chans h4 \<subseteq># {#channel s#} + mset (buf (channels p2))"
        using acc [of "{#channel s#}"] grows_neutral [OF g1] p by (auto simp: owns_def idle_chans_def)
      moreover have "longer h h4"
        using grows_trans [OF grows_trans [OF l2 longer_grows [OF n3]] longer_grows [OF put_grows [OF put(1)]]] .
      ultimately have "frame s h ?s h4" "sdk_pool_ok 0 ?s"
        using p put(2) by (auto simp: frame_def owns_def idle_chans_def sdk_pool_ok_def)
      then show ?thesis using v True p g Inr on put by (auto simp: framed_def publishAMQP_def)
    qed
  qed
qed

section \<open>Publishing\<close>

fun pub_sdk :: "err option \<times> msg_heap \<times> SDK \<Rightarrow> SDK" where
  "pub_sdk (e, M, s) = s"

lemma Publish_framed:
  assumes "sdk_pool_ok 0 s"
  shows "framed pub_sdk s h (Publish L c x k msg M s h)"
proof -
  obtain v h1 where v: "validateContext L c h = (v, h1)" by fastforce
  have g1: "grows neutral h h1" using validateContext_neutral [of h L c] v by simp
  obtain r h2 where m: "msg_validate L (map_option M msg) h1 = (r, h2)" by fastforce
  have g2: "grows neutral h h2"
    using g1 msg_validate_neutral [of h1 L "map_option M msg"] m by (auto intro: grows_trans)
  show ?thesis
  proof (cases "v \<noteq> None \<or> (\<exists>e. r = Inl e)")
    case True
    then show ?thesis
      using v m assms g1 g2 by (cases v) (auto simp: Publish_def framed_return)
  next
    case False
    then obtain m' where r: "r = Inr m'" by (cases r) auto
    have "m_Headers m' \<noteq> None" using msg_validate_ready m r by (auto simp: msg_ready_def)
    then obtain t where t: "trace_headers L s c (m_Headers m') h2 = (Returns (Some t), h2)"
      using trace_headers_returns by blast
    let ?pub = "the_publishing (final_headers s c (Some t)) (m'\<lparr>m_Headers := Some t\<rparr>)"
    have p: "framed snd s h2 (publishAMQP L c x k ?pub s h2)" by (rule publishAMQP_framed [OF assms])
    have "framed pub_sdk s h2 (Publish L c x k msg M s h)"
      unfolding Publish_def using v m r t False
      by (auto intro!: framed_obind [OF p] simp: Let_def split: option.splits)
        (auto intro!: framed_return sink_neutral)
    then show ?thesis by (rule framed_before [OF g2])
  qed
qed

lemma batch_loop_framed:
  "sdk_pool_ok 0 s \<Longrightarrow> framed pub_sdk s h (batch_loop L c x k msgs M s h)"
proof (induction msgs arbitrary: M s h)
  case (Cons msg msgs)
  show ?case
    by (simp, rule framed_obind [OF Publish_framed [OF Cons.prems]])
      (auto split: option.splits simp: Cons.IH framed_return)
qed (simp add: framed_return)

lemma BatchPublish_framed: "sdk_pool_ok 0 s \<Longrightarrow> framed pub_sdk s h (BatchPublish L c x k msgs M s h)"
  using validateContext_neutral [of h L c]
  by (auto simp: BatchPublish_def split: prod.splits option.splits
      intro: framed_return framed_before batch_loop_framed)

lemma PublishWithDelay_framed:
  assumes "sdk_pool_ok 0 s"
  shows "framed pub_sdk s h (PublishWithDelayDLXTTL L c q msg M s h)"
proof -
  obtain v h1 where v: "validateContext L c h = (v, h1)" by fastforce
  have g1: "grows neutral h h1" using validateContext_neutral [of h L c] v by simp
  obtain r h2 where m: "msg_validate L (map_option M msg) h1 = (r, h2)" by fastforce
  have g2: "grows neutral h h2"
    using g1 msg_validate_neutral [of h1 L "map_option M msg"] m by (auto intro: grows_trans)
  show ?thesis
    using v m assms g1 g2 framed_before [OF g2 Publish_framed [OF assms]]
    by (cases v; cases r) (auto simp: PublishWithDelayDLXTTL_def framed_return)
qed

section \<open>Consuming\<close>

lemma nack_framed: "sdk_pool_ok 0 s \<Longrightarrow> framed (\<lambda>s. s) s h (nack_delivery L c d q rq s h)"
  by (auto simp: nack_delivery_def d_nack_def Let_def split: option.splits
      intro!: framed_return grows_trans [OF _ sink_neutral(3)])

lemma ack_neutral:
  "grows neutral h (h @ [EvAck t b a])" "grows neutral h (IncMessagesNacked m c q (h @ [EvAck t b a]))"
  "grows neutral h (IncMessagesAcked m c q (h @ [EvAck t b a]))"
  by (auto intro: grows_trans [OF _ sink_neutral(2)] grows_trans [OF _ sink_neutral(3)])

lemma handleDeliveryFailure_framed:
  assumes "sdk_pool_ok 0 s"
  shows "framed (\<lambda>s. s) s h (handleDeliveryFailure L c d q s h)"
proof (cases "0 < MaxRedelivery q \<and> deliveryRetryCount (d_Headers d) < MaxRedelivery q")
  case False
  then show ?thesis using nack_framed [OF assms] by (auto simp: handleDeliveryFailure_def Let_def)
next
  case True
  have "framed (\<lambda>s. s) s1 h1 (case err of
      None \<Rightarrow> (case d_ack L d False h1 of
                 (Some e, h2) \<Rightarrow> (Returns s1, h2)
               | (None, h2) \<Rightarrow> (Returns s1, IncMessagesNacked (sdk_metrics s1) c (Name q) h2))
    | Some e \<Rightarrow> nack_delivery L c d q True s1 h1)" if "sdk_pool_ok 0 s1" for err s1 h1
    using that ack_neutral
    by (auto simp: d_ack_def Let_def nack_framed framed_return split: option.splits)
  then show ?thesis
    using True by (auto simp: handleDeliveryFailure_def Let_def intro!: framed_obind [OF publishAMQP_framed [OF assms]])
qed

lemma observe_neutral: "grows neutral h (observe_duration L c q t s h)"
  by (auto simp: observe_duration_def now_def Let_def intro: grows_trans [OF _ sink_neutral(6)])

lemma record_neutral: "grows neutral h (record_span sp e h)"
  by (simp add: record_span_def)

lemma framed_after:
  assumes "framed (\<lambda>s. s) s h (r, h1)" "grows neutral h1 h2"
  shows "framed (\<lambda>s. s) s h (r, h2)"
  using assms frame_trans [OF _ frame_neutral [OF assms(2)]] by (auto simp: framed_def)

lemma processDelivery_framed:
  assumes "sdk_pool_ok 0 s"
  shows "framed (\<lambda>s. s) s h (processDelivery L c d q sp s h)"
proof -
  obtain t h1 where t: "now L h = (t, h1)" by fastforce
  obtain r h2 where r: "run_handler L c d q h1 = (r, h2)" by fastforce
  have g: "grows neutral h h2"
    using t r by (cases rule: run_handler_cases [of L c d q h1]) (auto simp: now_def Let_def grows_def)
  have "framed (\<lambda>s. s) s h2 (processDelivery L c d q sp s h)"
  proof (cases r)
    case (HandlerPanic m)
    have "framed (\<lambda>s. s) s h2 (recover_panic L c d q sp t m s h2)"
      unfolding recover_panic_def
      by (rule framed_before [OF grows_trans [OF observe_neutral record_neutral] handleDeliveryFailure_framed [OF assms]])
    then show ?thesis using t r HandlerPanic by (simp add: processDelivery_def)
  next
    case (HandlerErr e)
    have "framed (\<lambda>s. s) s h2 (handleDeliveryFailure L c d q s (record_span sp e h2))"
      by (rule framed_before [OF record_neutral handleDeliveryFailure_framed [OF assms]])
    then obtain s1 h3 where f: "handleDeliveryFailure L c d q s (record_span sp e h2) = (Returns s1, h3)"
      "framed (\<lambda>s. s) s h2 (Returns s1, h3)" by (auto simp: framed_def)
    from framed_after [OF f(2) observe_neutral] f(1) t r HandlerErr show ?thesis
      by (simp add: processDelivery_def)
  next
    case HandlerOk
    with t r assms show ?thesis
      by (auto simp: processDelivery_def d_ack_def Let_def framed_return
          grows_trans [OF ack_neutral(1) observe_neutral] grows_trans [OF ack_neutral(3) observe_neutral]
          split: option.splits)
  qed
  then show ?thesis by (rule framed_before [OF g])
qed

lemma consume_delivery_framed:
  assumes "sdk_pool_ok 0 s" "worker_queue q"
  shows "framed (\<lambda>s. s) s h (consume_delivery L c d q s h)"
proof (cases "DummyMessageEnabled q \<and> isHeartbeatDummyMessage d")
  case True
  then show ?thesis
    using assms
    by (auto simp: consume_delivery_def d_ack_def ticker_reset_def worker_queue_def Let_def grows_def
        intro!: framed_return)
next
  case False
  obtain c' sp h1 where ctx: "consume_context L c d s h = (c', sp, h1)" by (metis prod_cases3)
  have g: "grows neutral h (IncMessagesReceived (sdk_metrics s) c' (Name q) h1)"
    using ctx by (auto simp: consume_context_def Let_def intro!: grows_trans [OF _ sink_neutral(1)] split: if_splits)
  show ?thesis
    using False ctx
    by (auto simp: consume_delivery_def framed_return
        intro!: framed_before [OF g framed_obind [OF processDelivery_framed [OF assms(1)]]])
qed

lemma consume_tick_framed:
  assumes "sdk_pool_ok 0 s" "worker_queue q"
  shows "framed (\<lambda>s. s) s h (consume_tick L c q s h)"
  unfolding consume_tick_def
  by (rule framed_obind [OF publishAMQP_framed [OF assms(1)]])
    (use assms(2) in \<open>auto simp: ticker_reset_def worker_queue_def framed_return\<close>)

fun worker_sdk :: "worker_status \<Rightarrow> SDK" where
  "worker_sdk (Working s) = s"
| "worker_sdk (Stopped s) = s"

lemma consume_loop_framed:
  assumes "worker_queue q"
  shows "sdk_pool_ok 0 s \<Longrightarrow> framed worker_sdk s h (consume_loop L n c msgs q s h)"
proof (induction n arbitrary: s h)
  case (Suc n)
  define ev where "ev = workerSelect L h msgs"
  have sel: "worker_select L msgs h = (ev, h @ [EvWorker msgs ev])" by (simp add: worker_select_def ev_def Let_def)
  have g: "grows neutral h (h @ [EvWorker msgs ev])" by simp
  note ih = framed_obind [where g' = worker_sdk, OF _ Suc.IH]
  show ?case
    using sel Suc.prems framed_before [OF g Suc.IH [OF Suc.prems]]
      framed_before [OF g ih [OF consume_delivery_framed [OF Suc.prems assms]]]
      framed_before [OF g ih [OF consume_tick_framed [OF Suc.prems assms]]]
    by (cases ev) (auto simp: framed_return)
qed (simp add: framed_return)

lemma consume_framed:
  assumes "worker_queue q" "sdk_pool_ok 0 s"
  shows "framed worker_sdk s h (consume L n c msgs q s h)"
proof (cases "DummyMessageEnabled q")
  case True
  let ?h = "h @ [EvTickerNew (DummyMessageFrequency q)]"
  have "framed worker_sdk s ?h (obind (consume_loop L n c msgs q s ?h)
      (\<lambda>w h1. (Returns w, case w of Stopped _ \<Rightarrow> h1 @ [EvTickerStop] | Working _ \<Rightarrow> h1)))"
    by (rule framed_obind [OF consume_loop_framed [OF assms]])
      (auto split: worker_status.splits intro!: framed_return)
  then have "framed worker_sdk s h (obind (consume_loop L n c msgs q s ?h)
      (\<lambda>w h1. (Returns w, case w of Stopped _ \<Rightarrow> h1 @ [EvTickerStop] | Working _ \<Rightarrow> h1)))"
    by (rule framed_before [rotated]) simp
  with True assms(1) show ?thesis by (simp add: consume_def worker_queue_def)
qed (use consume_loop_framed [OF assms] in \<open>simp add: consume_def\<close>)

section \<open>The invariant of a running SDK\<close>

text \<open>
  Everything open belongs to the SDK, its sizes are in range, what it would replay is valid;
  after a shutdown has begun its context was cancelled, and after it has completed there is no
  pool and nothing is open. \<open>c\<close> is the context the SDK was created with.
\<close>

definition sdk_inv :: "ctx \<Rightarrow> SDK \<Rightarrow> hist \<Rightarrow> bool" where
  "sdk_inv c s h \<longleftrightarrow> owns s h \<and> sdk_limits s \<and> replayable s \<and> sdk_ctx s = WithCancel c
     \<and> (shutdownOnce s \<longrightarrow> EvCancel \<in> set h)
     \<and> (closeOnce s \<longrightarrow> shutdownOnce s \<and> publisherPool s = None \<and> live_conns h = {#} \<and> live_chans h = {#})"

text \<open>What is relied on of contexts: once cancelled, they report an error.\<close>

definition cancel_respected :: "lib \<Rightarrow> ctx \<Rightarrow> bool" where
  "cancel_respected L c \<longleftrightarrow> (\<forall>g. EvCancel \<in> set g \<longrightarrow> ctxErr L g (WithCancel c) \<noteq> None)"

lemma longer_set: "longer h h' \<Longrightarrow> e \<in> set h \<Longrightarrow> e \<in> set h'"
  by (auto simp: grows_def)

lemma frame_fields:
  assumes "frame s h s' h'"
  shows "sdk_limits s' = sdk_limits s" "replayable s' = replayable s" "sdk_ctx s' = sdk_ctx s"
    "shutdownOnce s' = shutdownOnce s" "closeOnce s' = closeOnce s"
proof -
  have e: "s'\<lparr>publisherPool := publisherPool s\<rparr> = s" using assms by (simp add: frame_def)
  show "sdk_limits s' = sdk_limits s" using arg_cong [OF e, of sdk_limits] by (simp add: sdk_limits_def)
  show "replayable s' = replayable s" using arg_cong [OF e, of replayable] by (simp add: replayable_def)
  show "sdk_ctx s' = sdk_ctx s" using arg_cong [OF e, of sdk_ctx] by simp
  show "shutdownOnce s' = shutdownOnce s" using arg_cong [OF e, of shutdownOnce] by simp
  show "closeOnce s' = closeOnce s" using arg_cong [OF e, of closeOnce] by simp
qed

lemma inv_frame:
  assumes "sdk_inv c s h" "frame s h s' h'"
  shows "sdk_inv c s' h'"
proof -
  have f: "longer h h'" "live_conns h' = live_conns h" "owns s h \<longrightarrow> owns s' h'"
    "publisherPool s = None \<longrightarrow> publisherPool s' = None \<and> live_chans h' = live_chans h"
    using assms(2) unfolding frame_def by simp_all
  show ?thesis
    using assms(1) f longer_set [OF f(1), of EvCancel] unfolding sdk_inv_def frame_fields [OF assms(2)] by simp
qed

lemma inv_framed:
  assumes "sdk_inv c s h" "sdk_pool_ok 0 s \<Longrightarrow> framed g s h r"
  shows "\<exists>x h'. r = (Returns x, h') \<and> sdk_inv c (g x) h'"
proof -
  have "sdk_pool_ok 0 s" using assms(1) by (simp add: sdk_inv_def owns_def)
  then obtain x h' where "r = (Returns x, h')" "frame s h (g x) h'" using assms(2) by (auto simp: framed_def)
  with inv_frame [OF assms(1)] show ?thesis by blast
qed

text \<open>The fields the invariant does not depend on.\<close>

lemma inv_cong:
  assumes "sdk_inv c s h" "grows neutral h h'" "replayable s'"
    "conn s' = conn s" "channel s' = channel s" "publisherPool s' = publisherPool s"
    "publisherPoolSize s' = publisherPoolSize s" "publisherMaxPoolSize s' = publisherMaxPoolSize s"
    "sdk_ctx s' = sdk_ctx s" "shutdownOnce s' = shutdownOnce s" "closeOnce s' = closeOnce s"
  shows "sdk_inv c s' h'"
proof -
  have "owns s' h'"
    using owns_fields [OF owns_events, of s h h' s'] assms grows_neutral [OF assms(2)] by (simp add: sdk_inv_def)
  then show ?thesis
    using assms grows_neutral [OF assms(2)] longer_set [OF longer_grows [OF assms(2)]]
    by (auto simp: sdk_inv_def sdk_limits_def)
qed

lemma inv_update:
  assumes "sdk_inv c s h" "grows neutral h h'"
  shows "sdk_inv c (s\<lparr>logger := l\<rparr>) h'" "sdk_inv c (s\<lparr>reconnecting := b\<rparr>) h'" "sdk_inv c s h'"
    "sdk_inv c (s\<lparr>qosConfigured := b1, qosPrefetchCount := n1, qosPrefetchSize := n2, qosGlobal := b2\<rparr>) h'"
    "\<forall>q \<in> set qs. queue_validate q = None \<Longrightarrow> sdk_inv c (s\<lparr>declaredQueues := declaredQueues s @ qs\<rparr>) h'"
    "start_validate qs = None \<Longrightarrow> sdk_inv c (s\<lparr>queues := queues s @ qs\<rparr>) h'"
proof -
  have r: "replayable s" using assms(1) by (simp add: sdk_inv_def)
  note cong = inv_cong [OF assms]
  show "sdk_inv c (s\<lparr>logger := l\<rparr>) h'" by (rule cong) (use r in \<open>simp_all add: replayable_def\<close>)
  show "sdk_inv c (s\<lparr>reconnecting := b\<rparr>) h'" by (rule cong) (use r in \<open>simp_all add: replayable_def\<close>)
  show "sdk_inv c s h'" by (rule cong) (use r in simp_all)
  show "sdk_inv c (s\<lparr>qosConfigured := b1, qosPrefetchCount := n1, qosPrefetchSize := n2, qosGlobal := b2\<rparr>) h'"
    by (rule cong) (use r in \<open>simp_all add: replayable_def\<close>)
  show "sdk_inv c (s\<lparr>declaredQueues := declaredQueues s @ qs\<rparr>) h'" if "\<forall>q \<in> set qs. queue_validate q = None"
    by (rule cong) (use r that in \<open>auto simp: replayable_def\<close>)
  show "sdk_inv c (s\<lparr>queues := queues s @ qs\<rparr>) h'" if "start_validate qs = None"
    by (rule cong) (use r that in \<open>auto simp: replayable_def start_validate_None\<close>)
qed

section \<open>The other operations\<close>

lemma SetQos_inv:
  assumes "sdk_inv c s h" "SetQos L c' n z g s h = (e, s', h')"
  shows "sdk_inv c s' h'"
proof -
  obtain v h1 where v: "validateContext L c' h = (v, h1)" by fastforce
  have g1: "grows neutral h h1" using validateContext_neutral [of h L c'] v by simp
  show ?thesis
    using assms(2) v inv_update [OF assms(1) g1] inv_update [OF assms(1) grows_snoc [OF g1]]
    by (auto simp: SetQos_def ch_qos_def Let_def split: option.splits)
qed

lemma DeclareQueues_inv:
  assumes "sdk_inv c s h" "DeclareQueues L c' qs s h = (e, s', h')"
  shows "sdk_inv c s' h'"
proof -
  obtain v h1 where v: "validateContext L c' h = (v, h1)" by fastforce
  have g1: "grows neutral h h1" using validateContext_neutral [of h L c'] v by simp
  obtain x h2 where l: "declare_loop L (channel s) c' qs h1 = (x, h2)" by fastforce
  have g2: "grows neutral h h2"
    using grows_trans [OF g1 declaring_neutral] declare_loop_grows [of h1 L "channel s" c' qs] l by simp
  have "x = None \<Longrightarrow> \<forall>q \<in> set qs. queue_validate q = None" using declare_loop_None_valid l by blast
  then show ?thesis
    using assms(2) v l inv_update [OF assms(1) g1] inv_update [OF assms(1) g2]
    by (auto simp: DeclareQueues_def declareQueuesLocked_def split: option.splits)
qed

lemma Start_inv:
  assumes "sdk_inv c s h" "Start L c' qs s h = (e, s', h')"
  shows "sdk_inv c s' h'"
proof -
  obtain v h1 where v: "validateContext L c' h = (v, h1)" by fastforce
  have g1: "grows neutral h h1" using validateContext_neutral [of h L c'] v by simp
  show ?thesis
  proof (cases v)
    case None
    then have st: "startWithStoreQueuesFlag L c' qs True s h1 = (e, s', h')"
      using assms(2) v by (simp add: Start_def)
    have g2: "grows neutral h h'" using grows_trans [OF g1 starting_neutral [OF start_grows [OF st]]] .
    show ?thesis
      using startWithStoreQueuesFlag_spec [OF st] inv_update [OF assms(1) g2] by auto
  next
    case (Some x)
    with assms(2) v inv_update(3) [OF assms(1) g1] show ?thesis by (auto simp: Start_def)
  qed
qed

lemma monitor_inv:
  assumes "sdk_inv c s h"
  shows "sdk_inv c (fst (monitorConnection L a b s h)) (snd (monitorConnection L a b s h))"
proof -
  have "grows neutral h (snd (monitorConnection L a b s h))"
  proof (induction L a b s h rule: monitorConnection.induct)
    case (1 L a b s h)
    define ev where "ev = monitorSelect L h"
    have sel: "monitor_select L h = (ev, h @ [EvMonitor ev])" by (simp add: monitor_select_def ev_def Let_def)
    have g: "grows neutral h (h @ [EvMonitor ev])" by simp
    have e: "grows neutral h (snd (handleCloseError x s (h @ [EvMonitor ev])))" for x
      by (auto simp: handleCloseError_def grows_def split: option.splits)
    show ?case
      using 1 [OF _ sel [symmetric]] sel grows_trans [OF g] e
      by (subst monitorConnection.simps) (auto simp: Let_def split: monitor_event.splits option.splits)
  qed
  moreover obtain b' where "fst (monitorConnection L a b s h) = s\<lparr>reconnecting := b'\<rparr>"
    using monitor_spec [of s a b h L] by (auto simp: monitored_def)
  ultimately show ?thesis using inv_update(2) [OF assms] by simp
qed

fun reconnect_sdk :: "reconnect_status \<Rightarrow> SDK" where
  "reconnect_sdk (Reconnecting s) = s"
| "reconnect_sdk (GaveUp s) = s"
| "reconnect_sdk (Reconnected s) = s"

lemma rest_same_flags:
  assumes "rest_same s s'"
  shows "shutdownOnce s' = shutdownOnce s" "closeOnce s' = closeOnce s" "sdk_ctx s' = sdk_ctx s"
  by (insert assms, unfold rest_same_def, cases s, cases s', simp)+

lemma inv_flag: "sdk_inv c s h \<Longrightarrow> sdk_inv c (s\<lparr>reconnecting := b\<rparr>) h"
  by (rule inv_update(2) [OF _ grows_refl])

text \<open>A reconnect of an SDK that was shut down returns at once; any other keeps the invariant.\<close>

lemma reconnect_inv:
  assumes "sdk_inv c s h" "cancel_respected L c"
  shows "\<exists>st h'. reconnect L n (sdk_ctx s) s h = (Returns st, h') \<and> sdk_inv c (reconnect_sdk st) h'"
proof -
  have "\<exists>st h'. reconnect_loop L n (sdk_ctx s) s h = (Returns st, h') \<and> sdk_inv c (reconnect_sdk st) h'"
  proof (cases "shutdownOnce s")
    case True
    then have "ctxErr L h (sdk_ctx s) \<noteq> None" using assms by (auto simp: sdk_inv_def cancel_respected_def)
    then show ?thesis
      using assms(1) inv_update(3) [OF assms(1)] by (cases n) (auto simp: poll_done_eq)
  next
    case False
    obtain st h' where l: "reconnect_loop L n (sdk_ctx s) s h = (Returns st, h')" "loop_ok s st h'"
      using reconnect_loop_spec [of s h L n "sdk_ctx s"] assms(1) unfolding sdk_inv_def by blast
    have r: "rest_same s (reconnect_sdk st)" "owns (reconnect_sdk st) h'" using l(2) up_owns by (cases st; auto)+
    have "sdk_inv c (reconnect_sdk st) h'"
      using assms(1) False r sdk_limits_rest [OF r(1)] rest_same_fields [OF r(1)] rest_same_flags [OF r(1)]
      by (auto simp: sdk_inv_def replayable_def)
    with l(1) show ?thesis by blast
  qed
  then obtain st h' where "reconnect_loop L n (sdk_ctx s) s h = (Returns st, h')" "sdk_inv c (reconnect_sdk st) h'"
    by blast
  then show ?thesis by (cases st) (auto simp: reconnect_def inv_flag)
qed

lemma Shutdown_rest:
  assumes "Shutdown L c' s h = (Returns (e, s'), h')" "c' \<noteq> CtxNil"
  shows "s'\<lparr>shutdownOnce := shutdownOnce s, closeOnce := closeOnce s, publisherPool := publisherPool s, closeErr := closeErr s\<rparr> = s
     \<and> longer h h' \<and> (shutdownOnce s \<or> EvCancel \<in> set h') \<and> (closeOnce s \<longrightarrow> closeOnce s')"
proof -
  obtain s1 h1 where b: "shutdown_begin L c' s h = (s1, h1)" by fastforce
  have s1: "s1 = s\<lparr>shutdownOnce := True\<rparr>" using shutdown_begin_spec [OF b] by simp
  have l1: "longer h h1" "shutdownOnce s \<or> EvCancel \<in> set h1"
  proof -
    have i: "longer (h @ [EvCancel]) (snd (state_interrupt L c' (connectionState s) (h @ [EvCancel])))"
      by (rule longer_grows [OF state_interrupt_grows])
    have "h1 = (if shutdownOnce s then h else snd (state_interrupt L c' (connectionState s) (h @ [EvCancel])))"
      using b by (simp add: shutdown_begin_def split_def split: if_splits)
    then show "longer h h1" "shutdownOnce s \<or> EvCancel \<in> set h1"
      using i longer_set [OF i, of EvCancel] grows_trans [OF longer_append [OF grows_refl] i] by auto
  qed
  show ?thesis
  proof (cases rule: shutdown_wait_cases [of L h1 c'])
    case finished
    let ?h2 = "h1 @ [EvWgWait True]"
    have l2: "longer h1 ?h2" by (simp add: grows_def)
    have c: "shutdown_close L s1 ?h2 = (Returns s', h')"
      using assms b finished by (auto simp: Shutdown_def obind_def split: outcome.splits prod.splits)
    have l3: "longer ?h2 h'"
    proof (cases "publisherPool s1")
      case (Some p)
      obtain r g where r: "pool_close L p ?h2 = (r, g)" by fastforce
      have "longer ?h2 g" using longer_grows [OF pool_close_grows [OF r]] .
      with c Some r show ?thesis
        by (cases r) (auto simp: shutdown_close_def env_defs Let_def longer_append split: if_splits)
    qed (use c in \<open>auto simp: shutdown_close_def env_defs Let_def grows_def split: if_splits\<close>)
    have "\<exists>b p ce. s' = s1\<lparr>closeOnce := b, publisherPool := p, closeErr := ce\<rparr> \<and> (closeOnce s1 \<longrightarrow> b)"
    proof (cases "closeOnce s1")
      case True
      with c show ?thesis by (intro exI [of _ True]) (cases s1, auto simp: shutdown_close_def)
    next
      case False
      with c show ?thesis
        by (auto simp: shutdown_close_def obind_def split: outcome.splits prod.splits option.splits)
    qed
    then show ?thesis
      using s1 l1 grows_trans [OF grows_trans [OF l1(1) l2] l3] longer_set [OF grows_trans [OF l2 l3]]
      by (cases s) auto
  next
    case (gave_up x)
    then have e: "s' = s1" "h' = h1 @ [EvWgWait False, EvSelectDone c' (Some x)]"
      using assms b by (auto simp: Shutdown_def)
    then have l2: "longer h1 h'" by (simp add: grows_def)
    then show ?thesis
      using e(1) s1 l1 grows_trans [OF l1(1) l2] longer_set [OF l2] by (cases s) auto
  qed (use assms b in \<open>simp add: Shutdown_def\<close>)
qed

text \<open>
  A \<^verbatim>\<open>Shutdown\<close> that does not come back: goroutines that never finish, a context that never
  ends, and nothing closed.
\<close>

definition stuck_in_shutdown :: "lib \<Rightarrow> ctx \<Rightarrow> SDK \<Rightarrow> hist \<Rightarrow> 'a outcome \<times> hist \<Rightarrow> bool" where
  "stuck_in_shutdown L c' s h r \<longleftrightarrow> (\<exists>g h'. r = (Blocks, h') \<and> never_ready L c' g \<and> sdk_pool_ok 0 s
     \<and> live_conns h' \<subseteq># {#conn s#} \<and> live_chans h' \<subseteq># {#channel s#} + idle_chans s)"

lemma Shutdown_inv:
  assumes "sdk_inv c s h"
  shows "(\<exists>e s' h'. Shutdown L c' s h = (Returns (e, s'), h') \<and> sdk_inv c s' h')
     \<or> stuck_in_shutdown L c' s h (Shutdown L c' s h)"
proof (cases "c' = CtxNil")
  case True
  with assms show ?thesis by (simp add: Shutdown_def)
next
  case False
  have own: "owns s h" using assms by (simp add: sdk_inv_def)
  obtain g where out: "shutdown_outcome L c' s h g (Shutdown L c' s h)" using Shutdown_spec [OF own False] by blast
  show ?thesis
  proof (cases "never_ready L c' g")
    case True
    then have "\<not> wgWait L g" by (simp add: never_ready_def)
    with True out own show ?thesis by (auto simp: shutdown_outcome_def stuck_in_shutdown_def owns_def)
  next
    case ready: False
    obtain e s' h' where S: "Shutdown L c' s h = (Returns (e, s'), h')" "owns s' h'" "shutdownOnce s'"
      "closeOnce s' \<and> \<not> closeOnce s \<longrightarrow> live_conns h' = {#} \<and> live_chans h' = {#} \<and> publisherPool s' = None"
      "closeOnce s' = closeOnce s \<longrightarrow> live_conns h' = live_conns h \<and> live_chans h' = live_chans h
         \<and> publisherPool s' = publisherPool s"
      using out ready by (cases "wgWait L g"; cases "closeOnce s") (auto simp: shutdown_outcome_def)
    note R = Shutdown_rest [OF S(1) False]
    have "sdk_limits s' = sdk_limits s" "replayable s' = replayable s" "sdk_ctx s' = sdk_ctx s"
      using R by (cases s, cases s', simp add: sdk_limits_def replayable_def)+
    moreover have "EvCancel \<in> set h'" using R assms longer_set by (auto simp: sdk_inv_def)
    ultimately have "sdk_inv c s' h'" using S R assms by (auto simp: sdk_inv_def)
    with S(1) show ?thesis by blast
  qed
qed

section \<open>Runs\<close>

text \<open>
  What can happen to an SDK: its user calls the interface or builds a new message at an address,
  and its goroutines go on: a worker of a validated queue runs some rounds, the monitor of
  the connection sees what happens to it, a reconnect that was started runs some rounds.
\<close>

datatype sdk_op =
    DoSetLogger "nat option"
  | DoSetQos ctx int int bool
  | DoDeclareQueues ctx "QueueConfig list"
  | DoStart ctx "QueueConfig list"
  | DoMessage nat "Message \<Rightarrow> Message"
  | DoPublish ctx string string "nat option"
  | DoBatchPublish ctx string string "nat option list"
  | DoPublishWithDelayDLXTTL ctx string "nat option"
  | DoConsume nat nat QueueConfig
  | DoMonitor
  | DoReconnect nat
  | DoShutdown ctx

fun sdk_step :: "lib \<Rightarrow> sdk_op \<Rightarrow> SDK \<times> msg_heap \<Rightarrow> hist \<Rightarrow> (SDK \<times> msg_heap) outcome \<times> hist" where
  "sdk_step L (DoSetLogger l) (s, M) h = (Returns (SetLogger l s, M), h)"
| "sdk_step L (DoSetQos c n z g) (s, M) h = (case SetQos L c n z g s h of (e, s1, h1) \<Rightarrow> (Returns (s1, M), h1))"
| "sdk_step L (DoDeclareQueues c qs) (s, M) h = (case DeclareQueues L c qs s h of (e, s1, h1) \<Rightarrow> (Returns (s1, M), h1))"
| "sdk_step L (DoStart c qs) (s, M) h = (case Start L c qs s h of (e, s1, h1) \<Rightarrow> (Returns (s1, M), h1))"
| "sdk_step L (DoMessage a build) (s, M) h = (case NewMessage L h of (m, h1) \<Rightarrow> (Returns (s, M(a := build m)), h1))"
| "sdk_step L (DoPublish c x k msg) (s, M) h =
     obind (Publish L c x k msg M s h) (\<lambda>(e, M1, s1) h1. (Returns (s1, M1), h1))"
| "sdk_step L (DoBatchPublish c x k msgs) (s, M) h =
     obind (BatchPublish L c x k msgs M s h) (\<lambda>(e, M1, s1) h1. (Returns (s1, M1), h1))"
| "sdk_step L (DoPublishWithDelayDLXTTL c q msg) (s, M) h =
     obind (PublishWithDelayDLXTTL L c q msg M s h) (\<lambda>(e, M1, s1) h1. (Returns (s1, M1), h1))"
| "sdk_step L (DoConsume n msgs q) (s, M) h =
     (if start_validate [q] = None
      then obind (consume L n (sdk_ctx s) msgs (default_frequency q) s h) (\<lambda>w h1. (Returns (worker_sdk w, M), h1))
      else (Returns (s, M), h))"
| "sdk_step L DoMonitor (s, M) h = (case monitorConnection L True True s h of (s1, h1) \<Rightarrow> (Returns (s1, M), h1))"
| "sdk_step L (DoReconnect n) (s, M) h =
     (if reconnecting s
      then obind (reconnect L n (sdk_ctx s) s h) (\<lambda>st h1. (Returns (reconnect_sdk st, M), h1))
      else (Returns (s, M), h))"
| "sdk_step L (DoShutdown c) (s, M) h = obind (Shutdown L c s h) (\<lambda>(e, s1) h1. (Returns (s1, M), h1))"

fun sdk_run :: "lib \<Rightarrow> sdk_op list \<Rightarrow> SDK \<times> msg_heap \<Rightarrow> hist \<Rightarrow> (SDK \<times> msg_heap) outcome \<times> hist" where
  "sdk_run L [] sm h = (Returns sm, h)"
| "sdk_run L (op # ops) sm h = obind (sdk_step L op sm h) (\<lambda>sm1 h1. sdk_run L ops sm1 h1)"

lemma publish_step_inv:
  assumes "sdk_inv c s h" "sdk_pool_ok 0 s \<Longrightarrow> framed pub_sdk s h r"
  shows "\<exists>s' M' h'. obind r (\<lambda>(e, M1, s1) h1. (Returns (s1, M1), h1)) = (Returns (s', M'), h') \<and> sdk_inv c s' h'"
proof -
  obtain e M1 s1 h1 where "r = (Returns (e, M1, s1), h1)" "sdk_inv c s1 h1"
    using inv_framed [OF assms] by (metis pub_sdk.simps prod_cases3)
  then show ?thesis by simp
qed

lemma consume_step_inv:
  assumes "sdk_inv c s h" "start_validate [q] = None"
  shows "\<exists>w h'. consume L n (sdk_ctx s) msgs (default_frequency q) s h = (Returns w, h') \<and> sdk_inv c (worker_sdk w) h'"
proof -
  have "worker_queue (default_frequency q)"
    using assms(2) unfolding start_validate_None by (simp add: default_worker_queue)
  then show ?thesis using inv_framed [OF assms(1) consume_framed] by blast
qed

text \<open>The only step that need not come back is a \<^verbatim>\<open>Shutdown\<close>.\<close>

lemma sdk_step_inv:
  assumes "sdk_inv c s h" "cancel_respected L c"
  shows "(\<exists>s' M' h'. sdk_step L op (s, M) h = (Returns (s', M'), h') \<and> sdk_inv c s' h')
     \<or> (\<exists>c'. op = DoShutdown c' \<and> stuck_in_shutdown L c' s h (sdk_step L op (s, M) h))"
proof (cases op)
  case (DoSetLogger l)
  then show ?thesis
    using assms(1) inv_update(1) [OF assms(1) grows_refl] by (cases l) (auto simp: SetLogger_def)
next
  case (DoSetQos c' n z g)
  then show ?thesis using SetQos_inv [OF assms(1), of L c' n z g] by (auto split: prod.splits)
next
  case (DoDeclareQueues c' qs)
  then show ?thesis using DeclareQueues_inv [OF assms(1), of L c' qs] by (auto split: prod.splits)
next
  case (DoStart c' qs)
  then show ?thesis using Start_inv [OF assms(1), of L c' qs] by (auto split: prod.splits)
next
  case (DoMessage a build)
  then show ?thesis using inv_update(3) [OF assms(1)] by (simp add: NewMessage_def now_def Let_def)
next
  case (DoPublish c' x k msg)
  then show ?thesis using publish_step_inv [OF assms(1) Publish_framed] by simp
next
  case (DoBatchPublish c' x k msgs)
  then show ?thesis using publish_step_inv [OF assms(1) BatchPublish_framed] by simp
next
  case (DoPublishWithDelayDLXTTL c' q msg)
  then show ?thesis using publish_step_inv [OF assms(1) PublishWithDelay_framed] by simp
next
  case (DoConsume n msgs q)
  then show ?thesis
    using consume_step_inv [OF assms(1), of q L n msgs] assms(1)
    by (cases "start_validate [q]") (auto simp del: start_validate.simps)
next
  case DoMonitor
  then show ?thesis using monitor_inv [OF assms(1), of L True True] by (auto split: prod.splits)
next
  case (DoReconnect n)
  then show ?thesis using reconnect_inv [OF assms, of n] assms(1) by (cases "reconnecting s") auto
next
  case (DoShutdown c')
  then show ?thesis using Shutdown_inv [OF assms(1), of L c'] by (auto simp: stuck_in_shutdown_def)
qed

lemma sdk_run_inv:
  assumes "cancel_respected L c"
  shows "sdk_inv c s h \<Longrightarrow> (\<exists>s' M' h'. sdk_run L ops (s, M) h = (Returns (s', M'), h') \<and> sdk_inv c s' h')
     \<or> (\<exists>c' s1 h1. DoShutdown c' \<in> set ops \<and> stuck_in_shutdown L c' s1 h1 (sdk_run L ops (s, M) h))"
proof (induction ops arbitrary: s M h)
  case (Cons op ops)
  from sdk_step_inv [OF Cons.prems assms, of op M] show ?case
  proof
    assume "\<exists>s' M' h'. sdk_step L op (s, M) h = (Returns (s', M'), h') \<and> sdk_inv c s' h'"
    then obtain s1 M1 h1 where "sdk_step L op (s, M) h = (Returns (s1, M1), h1)" "sdk_inv c s1 h1" by blast
    with Cons.IH [of s1 h1 M1] show ?case by (simp, blast)
  next
    assume "\<exists>c'. op = DoShutdown c' \<and> stuck_in_shutdown L c' s h (sdk_step L op (s, M) h)"
    then show ?case unfolding stuck_in_shutdown_def by (metis list.set_intros(1) obind_simps(3) sdk_run.simps(2))
  qed
qed simp

text \<open>So a run comes back when no \<^verbatim>\<open>Shutdown\<close> in it can wait for ever.\<close>

definition shutdowns_end :: "lib \<Rightarrow> sdk_op list \<Rightarrow> bool" where
  "shutdowns_end L ops \<longleftrightarrow> (\<forall>c' g. DoShutdown c' \<in> set ops \<longrightarrow> \<not> never_ready L c' g)"

lemma shutdowns_end_Nil [simp]: "shutdowns_end L []"
  by (simp add: shutdowns_end_def)

lemma shutdowns_end_Cons [simp]:
  "shutdowns_end L (op # ops) \<longleftrightarrow> (\<forall>c' g. op = DoShutdown c' \<longrightarrow> \<not> never_ready L c' g) \<and> shutdowns_end L ops"
  by (auto simp: shutdowns_end_def)

lemma sdk_step_returns:
  assumes "sdk_inv c s h" "cancel_respected L c" "shutdowns_end L [op]"
  shows "\<exists>s' M' h'. sdk_step L op (s, M) h = (Returns (s', M'), h') \<and> sdk_inv c s' h'"
  using sdk_step_inv [OF assms(1,2), of op M] assms(3) by (auto simp: stuck_in_shutdown_def)

lemma sdk_run_returns:
  assumes "cancel_respected L c" "sdk_inv c s h" "shutdowns_end L ops"
  shows "\<exists>s' M' h'. sdk_run L ops (s, M) h = (Returns (s', M'), h') \<and> sdk_inv c s' h'"
  using sdk_run_inv [OF assms(1,2), of ops M] assms(3)
  by (auto simp: shutdowns_end_def stuck_in_shutdown_def simp del: sdk_run.simps)

text \<open>Only \<^verbatim>\<open>DeclareQueues\<close> and \<^verbatim>\<open>Start\<close> change what is set up.\<close>

fun sets_up :: "sdk_op \<Rightarrow> bool" where
  "sets_up (DoDeclareQueues _ _) = True"
| "sets_up (DoStart _ _) = True"
| "sets_up _ = False"

definition same_setup :: "SDK \<Rightarrow> SDK \<Rightarrow> bool" where
  "same_setup s s' \<longleftrightarrow> queues s' = queues s \<and> declaredQueues s' = declaredQueues s"

lemma frame_setup: "frame s h s' h' \<Longrightarrow> same_setup s s'"
proof -
  assume "frame s h s' h'"
  then have e: "s'\<lparr>publisherPool := publisherPool s\<rparr> = s" by (simp add: frame_def)
  show ?thesis using arg_cong [OF e, of queues] arg_cong [OF e, of declaredQueues] by (simp add: same_setup_def)
qed

lemma framed_setup: "framed g s h (Returns x, h') \<Longrightarrow> same_setup s (g x)"
  using frame_setup by (auto simp: framed_def)

lemma publish_step_setup:
  assumes "framed pub_sdk s h r" "obind r (\<lambda>(e, M1, s1) h1. (Returns (s1, M1), h1)) = (Returns (s', M'), h')"
  shows "same_setup s s'"
  using assms framed_setup [of pub_sdk] by (auto simp: framed_def)

lemma reconnect_setup_same:
  assumes "sdk_inv c s h" "reconnect L n (sdk_ctx s) s h = (Returns st, h')"
  shows "same_setup s (reconnect_sdk st)"
proof -
  obtain st' g where l: "reconnect_loop L n (sdk_ctx s) s h = (Returns st', g)" "loop_ok s st' g"
    using reconnect_loop_spec [of s h L n "sdk_ctx s"] assms(1) unfolding sdk_inv_def by blast
  have r: "rest_same s (reconnect_sdk st')" using l(2) by (cases st') auto
  show ?thesis
    using assms(2) l(1) rest_same_fields(1,2) [OF r] by (cases st') (auto simp: reconnect_def same_setup_def)
qed

lemma sdk_step_setup:
  assumes inv: "sdk_inv c s h" and op: "\<not> sets_up op"
    and step: "sdk_step L op (s, M) h = (Returns (s', M'), h')"
  shows "same_setup s s'"
proof -
  have ok: "sdk_pool_ok 0 s" using inv by (simp add: sdk_inv_def owns_def)
  show ?thesis
  proof (cases op)
    case (DoSetLogger l)
    with step show ?thesis by (cases l) (auto simp: SetLogger_def same_setup_def)
  next
    case (DoSetQos c' n z g)
    with step show ?thesis
      by (auto simp: SetQos_def same_setup_def split: prod.splits option.splits)
  next
    case (DoPublish c' x k msg)
    with step publish_step_setup [OF Publish_framed [OF ok]] show ?thesis by simp
  next
    case (DoBatchPublish c' x k msgs)
    with step publish_step_setup [OF BatchPublish_framed [OF ok]] show ?thesis by simp
  next
    case (DoPublishWithDelayDLXTTL c' q msg)
    with step publish_step_setup [OF PublishWithDelay_framed [OF ok]] show ?thesis by simp
  next
    case (DoConsume n msgs q)
    show ?thesis
    proof (cases "start_validate [q] = None")
      case True
      then have q: "worker_queue (default_frequency q)"
        unfolding start_validate_None by (simp add: default_worker_queue)
      have "framed worker_sdk s h (consume L n (sdk_ctx s) msgs (default_frequency q) s h)"
        by (rule consume_framed [OF q ok])
      with step DoConsume True show ?thesis
        by (auto simp: framed_def frame_setup simp del: start_validate.simps)
    qed (use step DoConsume in \<open>auto simp: same_setup_def simp del: start_validate.simps\<close>)
  next
    case DoMonitor
    obtain b where "fst (monitorConnection L True True s h) = s\<lparr>reconnecting := b\<rparr>"
      using monitor_spec [of s True True h L] by (auto simp: monitored_def)
    with step DoMonitor show ?thesis by (auto simp: same_setup_def split: prod.splits)
  next
    case (DoReconnect n)
    then show ?thesis
      using step reconnect_setup_same [OF inv, of L n]
      by (cases "reconnecting s") (auto simp: same_setup_def obind_def split: outcome.splits prod.splits)
  next
    case (DoShutdown c')
    then obtain e where S: "Shutdown L c' s h = (Returns (e, s'), h')"
      using step by (auto simp: obind_def split: outcome.splits prod.splits)
    show ?thesis
    proof (cases "c' = CtxNil")
      case False
      from Shutdown_rest [OF S False] show ?thesis by (cases s, cases s') (simp add: same_setup_def)
    qed (use S in \<open>simp add: Shutdown_def same_setup_def\<close>)
  qed (use step op in \<open>auto simp: same_setup_def split: prod.splits\<close>)
qed

lemma sdk_run_setup:
  assumes "cancel_respected L c"
  shows "sdk_inv c s h \<Longrightarrow> list_all (\<lambda>op. \<not> sets_up op) ops \<Longrightarrow> sdk_run L ops (s, M) h = (Returns (s', M'), h') \<Longrightarrow>
     same_setup s s'"
proof (induction ops arbitrary: s M h)
  case (Cons op ops)
  obtain s1 M1 h1 where st: "sdk_step L op (s, M) h = (Returns (s1, M1), h1)" "sdk_inv c s1 h1"
    using sdk_step_inv [OF Cons.prems(1) assms, of op M] Cons.prems(3) by (auto simp: stuck_in_shutdown_def)
  have "same_setup s s1" using sdk_step_setup [OF Cons.prems(1) _ st(1)] Cons.prems(2) by simp
  moreover have "same_setup s1 s'" using Cons.IH [OF st(2)] Cons.prems(2,3) st(1) by simp
  ultimately show ?case by (simp add: same_setup_def)
qed (simp add: same_setup_def)

text \<open>The invariant holds of a new SDK.\<close>

lemma NewSDK_inv:
  assumes "PublisherPoolSize cfg < 2 ^ 30" "PublisherMaxPoolSize cfg < 2 ^ 31"
    "NewSDK L c cfg h0 = (Returns (Inr s), h)" "live_conns h0 = {#}" "live_chans h0 = {#}"
  shows "sdk_inv c s h"
proof -
  obtain cn ch st p m where s: "s = the_sdk c cfg cn ch st p m" and ok: "config_error c cfg = None"
    and cr: "created cfg h0 {#} (Inr s) h"
    using NewSDK_spec [OF assms(1,2), of L c h0] assms(3,4) by auto
  have "\<not> the_poolMaxSize cfg < the_poolSize cfg" using assms(3) ok by (auto simp: NewSDK_def)
  from NewSDK_config_ok [OF ok assms(1,2) this] have "sdk_limits s" by (simp add: s the_sdk_def sdk_limits_def)
  moreover have "owns s h" using cr assms(5) by (simp add: created_def owns_def)
  ultimately show ?thesis by (simp add: sdk_inv_def s the_sdk_def replayable_def)
qed

section \<open>Declaring, and declaring again\<close>

text \<open>Successful calls of \<^verbatim>\<open>DeclareQueues\<close>, one after the other.\<close>

fun declare_calls :: "lib \<Rightarrow> (ctx \<times> QueueConfig list) list \<Rightarrow> SDK \<Rightarrow> hist \<Rightarrow> (SDK \<times> hist) option" where
  "declare_calls L [] s h = Some (s, h)"
| "declare_calls L ((c, qs) # calls) s h =
     (case DeclareQueues L c qs s h of
        (None, s1, h1) \<Rightarrow> declare_calls L calls s1 h1
      | (Some e, s1, h1) \<Rightarrow> None)"

lemma DeclareQueues_success:
  assumes "DeclareQueues L c qs s h = (None, s1, h1)"
  shows "s1 = s\<lparr>declaredQueues := declaredQueues s @ qs\<rparr> \<and> grows neutral h h1
     \<and> (\<exists>es. h1 = h @ es \<and> decls (channel s) es = concat (map topology qs))"
proof -
  obtain v h0 where v: "validateContext L c h = (v, h0)" by fastforce
  have g0: "grows neutral h h0" using validateContext_neutral [of h L c] v by simp
  have q0: "decls ch h0 = decls ch h" for ch
    using v by (auto simp: validateContext_def ctx_err_def Let_def split: if_splits)
  have l: "declare_loop L (channel s) c qs h0 = (None, h1)" "s1 = s\<lparr>declaredQueues := declaredQueues s @ qs\<rparr>"
    using assms v by (auto simp: DeclareQueues_def declareQueuesLocked_def split: prod.splits option.splits)
  have g1: "grows neutral h h1"
    using grows_trans [OF g0 declaring_neutral] declare_loop_grows [of h0 L "channel s" c qs] l(1) by simp
  have "decls (channel s) h1 = decls (channel s) h0 @ concat (map topology qs)"
    using declares_loop [of "channel s" qs L c] l(1) unfolding declares_def by (metis fst_conv snd_conv)
  with g1 q0 l(2) show ?thesis by (auto simp: grows_def)
qed

lemma declare_calls_success:
  "declare_calls L calls s h = Some (s1, h1) \<Longrightarrow>
     s1 = s\<lparr>declaredQueues := declaredQueues s @ concat (map snd calls)\<rparr> \<and> grows neutral h h1
     \<and> (\<exists>es. h1 = h @ es \<and> decls (channel s) es = concat (map topology (concat (map snd calls))))"
proof (induction calls arbitrary: s h)
  case (Cons cq calls)
  obtain c qs where cq: "cq = (c, qs)" by fastforce
  obtain s0 h0 where d: "DeclareQueues L c qs s h = (None, s0, h0)" "declare_calls L calls s0 h0 = Some (s1, h1)"
    using Cons.prems cq by (auto split: prod.splits option.splits)
  obtain es where e: "h0 = h @ es" "decls (channel s) es = concat (map topology qs)" "grows neutral h h0"
    "s0 = s\<lparr>declaredQueues := declaredQueues s @ qs\<rparr>"
    using DeclareQueues_success [OF d(1)] by blast
  obtain es' where e': "h1 = h0 @ es'" "decls (channel s0) es' = concat (map topology (concat (map snd calls)))"
    "grows neutral h0 h1" "s1 = s0\<lparr>declaredQueues := declaredQueues s0 @ concat (map snd calls)\<rparr>"
    using Cons.IH [OF d(2)] by blast
  have "h1 = h @ (es @ es')" "decls (channel s) (es @ es') = concat (map topology (concat (map snd (cq # calls))))"
    using e e' cq by simp_all
  with grows_trans [OF e(3) e'(3)] e(4) e'(4) cq show ?case by auto
qed simp

section \<open>An environment that respects cancellation\<close>

definition cancel_lib :: lib where
  "cancel_lib = calm_lib\<lparr>ctxErr := (\<lambda>h c. if EvCancel \<in> set h then Some Canceled else None)\<rparr>"

lemma cancel_lib_respects: "cancel_respected cancel_lib c"
  by (simp add: cancel_respected_def cancel_lib_def)

lemma cancel_simps [simp]:
  "ctxErr cancel_lib h c = (if EvCancel \<in> set h then Some Canceled else None)"
  "ctxDeadline cancel_lib h c = None" "timeNow cancel_lib h = 1 + int (length h)" "dialURI cancel_lib h u = None"
  "netDial cancel_lib h c = Inr (length h)" "handshake cancel_lib h r = Inr (length h)"
  "rawSetDeadline cancel_lib h r t = None" "connChannel cancel_lib h k = Inr (length h)"
  "chConfirm cancel_lib h k = None" "wgWait cancel_lib h = True" "ctxEnds cancel_lib h c"
  by (simp_all add: cancel_lib_def)

lemma cancel_NewSDK: "\<exists>s h'. NewSDK cancel_lib (CtxOf 0) sample_config [] = (Returns (Inr s), h')"
proof -
  have cfg: "config_error (CtxOf 0) sample_config = None" "the_poolSize sample_config = 5" "the_poolMaxSize sample_config = 10"
    by (simp_all add: config_error_def the_poolSize_def the_poolMaxSize_def sample_config_def
        defaultPublisherPoolSize_def in_int64_def)
  obtain cn st h1 where d: "DialConfig cancel_lib (WithCancel (CtxOf 0)) (connection_url sample_config)
      (the_connectionConfig sample_config) None [] = (Inr cn, st, h1)"
    by (simp add: DialConfig_def dial_def state_set_def env_defs Let_def)
  obtain p h2 where p: "newPublisherChannelPool cancel_lib cn st 5 10
      (h1 @ [EvConnChannel cn (Inr (length h1))]) = (Returns (Inr p), h2)"
    by (simp add: newPublisherChannelPool_def make_chan_def eval_nat_numeral env_defs Let_def chan_send_def add_cur_def)
  have m: "new_metrics cancel_lib sample_config h2 = (Inr NoOpMetrics, h2)"
    by (simp add: new_metrics_def sample_config_def)
  have "new_on_conn cancel_lib (CtxOf 0) sample_config cn st h1 =
      (Returns (Inr (the_sdk (CtxOf 0) sample_config cn (length h1) st p NoOpMetrics)), h2 @ [EvSpawnMonitor (length h1) cn])"
    by (simp add: new_on_conn_def state_current_def conn_channel_def Let_def cfg p m)
  then show ?thesis by (simp add: NewSDK_def cfg d)
qed

section \<open>Properties\<close>

text \<open>
  C3: from creation to shutdown the SDK leaks nothing. For publisher pool sizes below 2 to the 30
  and maximal ones below 2 to the 31, whatever sequence of calls its user
  makes and its workers, monitor and reconnects run through, and whatever the broker answers, as
  long as a cancelled context reports that it is cancelled: either
  every call returns, and then what is open is at most the SDK's current connection, its consume
  channel and the idle channels of its pool, and once a \<^verbatim>\<open>Shutdown\<close> has completed nothing is
  open and nothing is ever opened again; or the run ends in a \<^verbatim>\<open>Shutdown\<close> that waits for ever
  because the goroutines never finish and its context never ends, and even then no more than that is open.
  No call panics.
\<close>

theorem sdk_leaks_nothing:
  assumes "PublisherPoolSize cfg < 2 ^ 30" "PublisherMaxPoolSize cfg < 2 ^ 31" "cancel_respected L c"
    "NewSDK L c cfg [] = (Returns (Inr s), h)"
  shows "(\<exists>s' M' h'. sdk_run L ops (s, M) h = (Returns (s', M'), h')
       \<and> live_conns h' \<subseteq># {#conn s'#} \<and> live_chans h' \<subseteq># {#channel s'#} + idle_chans s'
       \<and> (closeOnce s' \<longrightarrow> live_conns h' = {#} \<and> live_chans h' = {#}))
     \<or> (\<exists>c' g s' h'. sdk_run L ops (s, M) h = (Blocks, h')
       \<and> DoShutdown c' \<in> set ops \<and> \<not> wgWait L g
       \<and> ctxErr L (g @ [EvWgWait False]) c' = None \<and> \<not> ctxEnds L (g @ [EvWgWait False]) c'
       \<and> live_conns h' \<subseteq># {#conn s'#} \<and> live_chans h' \<subseteq># {#channel s'#} + idle_chans s')"
proof -
  note inv = NewSDK_inv [OF assms(1,2,4) live_conns_Nil live_chans_Nil]
  from sdk_run_inv [OF assms(3) inv, of ops M] show ?thesis
  proof (elim disjE exE conjE)
    fix s' M' h' assume "sdk_run L ops (s, M) h = (Returns (s', M'), h')" "sdk_inv c s' h'"
    then show ?thesis by (intro disjI1) (auto simp: sdk_inv_def owns_def)
  next
    fix c' s1 h1 assume "DoShutdown c' \<in> set ops" "stuck_in_shutdown L c' s1 h1 (sdk_run L ops (s, M) h)"
    then show ?thesis
      unfolding stuck_in_shutdown_def never_ready_def ctx_hangs_def by (intro disjI2) blast
  qed
qed

theorem sdk_leaks_nothing_witness:
  "\<exists>s h s' M' h'. NewSDK cancel_lib (CtxOf 0) sample_config [] = (Returns (Inr s), h)
     \<and> sdk_run cancel_lib [DoDeclareQueues (CtxOf 0) [ordersQueue], DoStart (CtxOf 0) [ordersQueue],
          DoPublish (CtxOf 0) [] ''huma.orders'' (Some 0), DoShutdown (CtxOf 1), DoReconnect 3] (s, sample_heap) h
        = (Returns (s', M'), h')
     \<and> live_conns h' \<subseteq># {#conn s'#} \<and> (closeOnce s' \<longrightarrow> live_chans h' = {#})"
proof -
  obtain s h where new: "NewSDK cancel_lib (CtxOf 0) sample_config [] = (Returns (Inr s), h)"
    using cancel_NewSDK by blast
  have "PublisherPoolSize sample_config < 2 ^ 30" "PublisherMaxPoolSize sample_config < 2 ^ 31"
    by (simp_all add: sample_config_def)
  from sdk_leaks_nothing [OF this cancel_lib_respects new,
      of "[DoDeclareQueues (CtxOf 0) [ordersQueue], DoStart (CtxOf 0) [ordersQueue],
          DoPublish (CtxOf 0) [] ''huma.orders'' (Some 0), DoShutdown (CtxOf 1), DoReconnect 3]" sample_heap]
  have "\<exists>s' M' h'. sdk_run cancel_lib [DoDeclareQueues (CtxOf 0) [ordersQueue], DoStart (CtxOf 0) [ordersQueue],
          DoPublish (CtxOf 0) [] ''huma.orders'' (Some 0), DoShutdown (CtxOf 1), DoReconnect 3] (s, sample_heap) h
        = (Returns (s', M'), h')
     \<and> live_conns h' \<subseteq># {#conn s'#} \<and> (closeOnce s' \<longrightarrow> live_chans h' = {#})"
    by (elim disjE exE conjE) (auto simp del: sdk_run.simps)
  with new show ?thesis by blast
qed

text \<open>
  C4: a running SDK recovers. For publisher pool sizes below 2 to the 30 and maximal ones below 2 to the
  31: after any history of calls, workers and earlier reconnects that came back,
  in whatever environment \<open>L\<close> they ran, if in the environment \<open>L'\<close> from then on the SDK's context is
  not cancelled (so not after a \<^verbatim>\<open>Shutdown\<close>, where a reconnect gives up instead), the timer between
  two attempts fires, and the broker accepts everything after some time, a reconnect succeeds after
  finitely many attempts: one connection, one consume channel and a full pool
  are open, and every queue declared and started in that history is set up again on it.
\<close>

theorem sdk_always_recovers:
  assumes "PublisherPoolSize cfg < 2 ^ 30" "PublisherMaxPoolSize cfg < 2 ^ 31" "cancel_respected L c"
    "NewSDK L c cfg [] = (Returns (Inr s), h)" "sdk_run L ops (s, M) h = (Returns (s1, M1), h1)"
    and "\<And>g. N \<le> length g \<Longrightarrow> healthy L' g" "\<And>g. ctxErr L' g (sdk_ctx s1) = None"
      "\<And>g. waitTimer L' g (sdk_ctx s1)"
  shows "\<exists>n s2 h2. reconnect L' n (sdk_ctx s1) s1 h1 = (Returns (Reconnected s2), h2) \<and> up s2 h2
     \<and> queues s2 = queues s1 \<and> declaredQueues s2 = declaredQueues s1 \<and> replayed_last s1 (channel s2) h2"
proof -
  have inv: "sdk_inv c s1 h1"
    using sdk_run_inv [OF assms(3) NewSDK_inv [OF assms(1,2,4) live_conns_Nil live_chans_Nil], of ops M] assms(5)
    by (auto simp: stuck_in_shutdown_def)
  then have i: "owns s1 h1" "sdk_limits s1" "replayable s1" by (simp_all add: sdk_inv_def)
  obtain s2 h2 where l: "reconnect_loop L' (Suc N) (sdk_ctx s1) s1 h1 = (Returns (Reconnected s2), h2)"
    "up s2 h2" "rest_same s1 s2"
    using reconnect_loop_reaches [of N L' "sdk_ctx s1" s1 h1 N] i assms(6-8) by auto
  moreover have "loop_ok s1 (Reconnected s2) h2"
    using reconnect_loop_spec [OF i(1,2), of L' "Suc N" "sdk_ctx s1"] l(1) by auto
  ultimately show ?thesis
    using rest_same_fields [OF l(3)]
    by (intro exI [of _ "Suc N"] exI [of _ "s2\<lparr>reconnecting := False\<rparr>"] exI [of _ h2])
      (simp add: reconnect_def flag_free del: reconnect_loop.simps)
qed

theorem sdk_always_recovers_witness:
  "\<exists>s h s1 M1 h1 n s2 h2. NewSDK cancel_lib (CtxOf 0) sample_config [] = (Returns (Inr s), h)
     \<and> sdk_run cancel_lib [DoDeclareQueues (CtxOf 0) [ordersQueue]] (s, sample_heap) h = (Returns (s1, M1), h1)
     \<and> reconnect calm_lib n (sdk_ctx s1) s1 h1 = (Returns (Reconnected s2), h2) \<and> up s2 h2"
proof -
  obtain s h where new: "NewSDK cancel_lib (CtxOf 0) sample_config [] = (Returns (Inr s), h)"
    using cancel_NewSDK by blast
  have small: "PublisherPoolSize sample_config < 2 ^ 30" "PublisherMaxPoolSize sample_config < 2 ^ 31"
    by (simp_all add: sample_config_def)
  obtain s1 M1 h1 where run: "sdk_run cancel_lib [DoDeclareQueues (CtxOf 0) [ordersQueue]] (s, sample_heap) h = (Returns (s1, M1), h1)"
    using sdk_run_returns [OF cancel_lib_respects NewSDK_inv [OF small new live_conns_Nil live_chans_Nil],
        of "[DoDeclareQueues (CtxOf 0) [ordersQueue]]" sample_heap] by (auto simp del: sdk_run.simps)
  from sdk_always_recovers [OF small cancel_lib_respects new run, of 0 calm_lib] calm_healthy new run
  show ?thesis by (auto simp del: sdk_run.simps)
qed

text \<open>
  C6: what a reconnect declares is what the user declared. For any sequence of successful
  \<^verbatim>\<open>DeclareQueues\<close> calls on a new SDK, whatever happened since, the declarations that a
  successful reconnect makes on the new channel are the same ones, with the same arguments and
  in the same order, as those the calls had made on the old channel.
\<close>

theorem replay_equals_original:
  assumes "declaredQueues s = []" "declare_calls L calls s h = Some (s1, h @ es)"
    "declaredQueues s2 = declaredQueues s1" "owns s2 h2" "sdk_limits s2"
    "reconnect L' n c s2 h2 = (Returns (Reconnected s3), h3)"
  shows "\<exists>g es'. h3 = g @ es' \<and> decls (channel s3) es' = decls (channel s) es"
proof -
  obtain st h' where l: "reconnect_loop L' n c s2 h2 = (Returns st, h')" "loop_ok s2 st h'"
    using reconnect_loop_spec [OF assms(4,5)] by blast
  then obtain s3' where s3: "st = Reconnected s3'" "s3 = s3'\<lparr>reconnecting := False\<rparr>" "h3 = h'"
    using assms(6) by (cases st) (auto simp: reconnect_def)
  obtain g es' where "h3 = g @ es'" "decls (channel s3) es' = concat (map topology (declaredQueues s2))"
    using l(2) s3 by (auto simp: replayed_last_def)
  with declare_calls_success [OF assms(2)] assms(1,3) show ?thesis by auto
qed

theorem replay_equals_original_witness:
  "\<exists>s1 es n s3 h3 g es'.
     declare_calls calm_lib [(CtxOf 0, [ordersQueue]), (CtxOf 0, [scheduledQueue])] sample_sdk sample_hist = Some (s1, sample_hist @ es)
     \<and> reconnect calm_lib n (CtxOf 0) s1 (sample_hist @ es) = (Returns (Reconnected s3), h3)
     \<and> h3 = g @ es' \<and> decls (channel s3) es' = decls 2 es"
proof -
  let ?calls = "[(CtxOf 0, [ordersQueue]), (CtxOf 0, [scheduledQueue])]"
  have d: "\<exists>s' h'. DeclareQueues calm_lib (CtxOf 0) [q] s h = (None, s', h')"
    if "q \<in> {ordersQueue, scheduledQueue}" for q s h
    using that example_queues_valid by (intro calm_DeclareQueues) auto
  obtain sa ha where a: "DeclareQueues calm_lib (CtxOf 0) [ordersQueue] sample_sdk sample_hist = (None, sa, ha)"
    using d by blast
  obtain s1 h1 where b: "DeclareQueues calm_lib (CtxOf 0) [scheduledQueue] sa ha = (None, s1, h1)"
    using d by blast
  have calls: "declare_calls calm_lib ?calls sample_sdk sample_hist = Some (s1, h1)" using a b by simp
  from declare_calls_success [OF this] have s1: "s1 = sample_sdk\<lparr>declaredQueues := [ordersQueue, scheduledQueue]\<rparr>"
    and g: "grows neutral sample_hist h1" by (auto simp: sample_sdk_def)
  obtain es where es: "h1 = sample_hist @ es" using g by (auto simp: grows_def)
  have own: "owns s1 h1"
    using owns_fields [OF owns_events [OF sample_owns], of h1 s1] grows_neutral [OF g] s1 by simp
  have lim: "sdk_limits s1" "replayable s1"
    using running_sdk_ok(2) example_queues_valid s1
    by (simp_all add: running_sdk_def sdk_limits_def replayable_def sample_sdk_def)
  obtain s3 h3 where r: "reconnect_loop calm_lib (Suc 0) (CtxOf 0) s1 h1 = (Returns (Reconnected s3), h3)"
    using reconnect_loop_reaches [of 0 calm_lib "CtxOf 0" s1 h1 0] own lim calm_healthy by auto
  then have r': "reconnect calm_lib (Suc 0) (CtxOf 0) s1 h1 = (Returns (Reconnected (s3\<lparr>reconnecting := False\<rparr>)), h3)"
    by (simp add: reconnect_def del: reconnect_loop.simps)
  have "declaredQueues sample_sdk = []" "channel sample_sdk = 2" by (simp_all add: sample_sdk_def)
  with replay_equals_original [OF _ calls [unfolded es] refl own lim(1) r'] calls es r' show ?thesis by metis
qed

end
