(* ===== verification/Examples.thy ===== *)
theory Examples
  imports Sdk_Run
begin

text \<open>
  The example programs under \<^verbatim>\<open>examples/\<close> as clients of the SDK. All four connect, declare and
  start their queues, publish, wait for a signal while the goroutines of the SDK go on, and
  shut down; they differ in configuration, queues, messages and in what they run beside the SDK
  (an HTTP server, a tracer). Their log output is left out.
\<close>

section \<open>The common shape\<close>

text \<open>
  A program ends at a \<^verbatim>\<open>log.Fatal\<close>, here named by the start of its message, or after its
  \<^verbatim>\<open>Shutdown\<close>. The context of
  \<^verbatim>\<open>signal.NotifyContext\<close> and the one of the shutdown are derived from the background.
\<close>

datatype exit = Fatal string | Finished SDK

definition background :: ctx where
  "background = CtxOf 0"

definition main_ctx :: ctx where
  "main_ctx = WithCancel background"

definition shutdown_ctx :: ctx where
  "shutdown_ctx = WithTimeout background (10 * second)"

text \<open>The goroutines of the SDK, which run while the program waits.\<close>

fun goroutine_op :: "sdk_op \<Rightarrow> bool" where
  "goroutine_op (DoConsume _ _ _) = True"
| "goroutine_op DoMonitor = True"
| "goroutine_op (DoReconnect _) = True"
| "goroutine_op _ = False"

text \<open>
  What a program does once its consumers are started: calls of the SDK, a span of its own around
  them, and an HTTP server that listens in a goroutine of its own (an error of it is only logged).
\<close>

datatype app_op = Sdk sdk_op | TraceStart string | TraceEnd | Serve string

fun app_run :: "lib \<Rightarrow> app_op list \<Rightarrow> SDK \<times> msg_heap \<Rightarrow> hist \<Rightarrow> (SDK \<times> msg_heap) outcome \<times> hist" where
  "app_run L [] x h = (Returns x, h)"
| "app_run L (Sdk op # ops) x h = obind (sdk_step L op x h) (app_run L ops)"
| "app_run L (TraceStart n # ops) x h = app_run L ops x (h @ [EvSpanStart (spanCtx L main_ctx) n])"
| "app_run L (TraceEnd # ops) x h = app_run L ops x (h @ [EvSpanEnd])"
| "app_run L (Serve addr # ops) x h = app_run L ops x (h @ [EvServe addr])"

text \<open>
  While the program waits for the end of its context, by a signal, the goroutines of the SDK
  go on. The signal need not come; then the program waits for ever.
  \<open>closing\<close> is what the program shuts down, under the same context, before the SDK.
\<close>

definition client ::
  "SDKConfig \<Rightarrow> sdk_op list \<Rightarrow> QueueConfig list \<Rightarrow> app_op list \<Rightarrow> (hist \<Rightarrow> hist) \<Rightarrow> lib \<Rightarrow> sdk_op list \<Rightarrow> msg_heap
     \<Rightarrow> hist \<Rightarrow> exit outcome \<times> hist" where
  "client cfg before qs body closing L waiting M h =
     obind (NewSDK L main_ctx cfg h) (\<lambda>r h1.
       case r of
         Inl e \<Rightarrow> (Returns (Fatal ''failed to connect''), h1)
       | Inr sdk \<Rightarrow>
           obind (sdk_run L before (sdk, M) h1) (\<lambda>(s1, M1) h2.
             case DeclareQueues L main_ctx qs s1 h2 of (e1, s2, h3) \<Rightarrow>
               if e1 \<noteq> None then (Returns (Fatal ''failed to declare queues''), h3)
               else (case Start L main_ctx qs s2 h3 of (e2, s3, h4) \<Rightarrow>
                 if e2 \<noteq> None then (Returns (Fatal ''failed to start consumers''), h4)
                 else obind (app_run L body (s3, M1) h4) (\<lambda>(s4, M2) h5.
                      obind (sdk_run L (filter goroutine_op waiting) (s4, M2) h5) (\<lambda>(s5, M3) h6.
                      if ctx_hangs L main_ctx h6 then (Blocks, h6)
                      else (case await_done L main_ctx h6 of (done, h7) \<Rightarrow>
                        obind (Shutdown L shutdown_ctx s5 (closing h7)) (\<lambda>(e3, s6) h8. (Returns (Finished s6), h8))))))))"

definition zero_config :: SDKConfig where
  "zero_config = \<lparr>Addr = [], VHost = [], Username = [], Password = [], Heartbeat = 0, DialTimeout = 0,
     ConnectionName = [], ReconnectDelay = 0, TLSConfig = None, EnableMetrics = False, MetricsNamespace = [],
     MetricsRegisterer = None, PublisherPoolSize = 0, PublisherMaxPoolSize = 0, PublisherPoolWait = 0,
     EnableTracing = False, MetricLabelName = [], MetricLabelValue = None, InjectHeaders = None,
     ExtractContext = None\<rparr>"

section \<open>examples/basic\<close>

definition basic_config :: SDKConfig where
  "basic_config = zero_config\<lparr>Addr := ''127.0.0.1:5672'', Username := ''guest'', Password := ''guest'',
     ConnectionName := ''huma-example''\<rparr>"

definition basic_queue :: QueueConfig where
  "basic_queue = zero_queue\<lparr>Name := ''huma.example'', Durable := True, Handler := Some 0, NumWorkers := 2,
     ProcessTimeout := 5 * second\<rparr>"

text \<open>Creating the logger can fail too; \<open>newLogger\<close> is its error or the logger.\<close>

definition basic_main :: "err + nat \<Rightarrow> lib \<Rightarrow> sdk_op list \<Rightarrow> msg_heap \<Rightarrow> hist \<Rightarrow> exit outcome \<times> hist" where
  "basic_main newLogger L waiting M h =
     (case newLogger of
        Inl e \<Rightarrow> (Returns (Fatal []), h)
      | Inr lg \<Rightarrow>
          client basic_config [DoSetLogger (Some lg)] [basic_queue]
            [Sdk (DoMessage 0 (WithBody ''hello from huma'')), Sdk (DoPublish main_ctx [] ''huma.example'' (Some 0))]
            (\<lambda>h. h) L waiting M h)"

section \<open>examples/dlq-and-delay\<close>

definition dlq_config :: SDKConfig where
  "dlq_config = zero_config\<lparr>Addr := ''127.0.0.1:5672'', Username := ''guest'', Password := ''guest'',
     ConnectionName := ''huma-dlq-delay-example''\<rparr>"

definition dlq_main ::
  "((string \<times> string) list \<Rightarrow> err + bytes) \<Rightarrow> lib \<Rightarrow> sdk_op list \<Rightarrow> msg_heap \<Rightarrow> hist \<Rightarrow> exit outcome \<times> hist" where
  "dlq_main marshal =
     client dlq_config [] [ordersQueue, scheduledQueue]
       [Sdk (DoMessage 0 (WithJSONBody marshal [(''order_id'', ''42'')])), Sdk (DoPublish main_ctx [] ''huma.orders'' (Some 0)),
        Sdk (DoMessage 1 (WithBody ''scheduled task'')),
        Sdk (DoPublishWithDelayDLXTTL main_ctx ''huma.scheduled'' (Some 1))] (\<lambda>h. h)"

text \<open>The handlers of the two queues: every order fails, every scheduled task succeeds.\<close>

definition dlq_handler :: "handler_ref \<Rightarrow> handler_result" where
  "dlq_handler f = (if Some f = Handler ordersQueue then HandlerErr (ErrNew ''simulated processing error'') else HandlerOk)"

section \<open>examples/metrics\<close>

definition appIDHeader :: string where
  "appIDHeader = ''x-app-id''"

text \<open>\<open>CtxValue c v\<close> is \<open>c\<close> with the value \<open>v\<close> under the example's key; derived contexts inherit it.\<close>

fun appIDFromContext :: "ctx \<Rightarrow> string" where
  "appIDFromContext (CtxValue c v) = v"
| "appIDFromContext (WithCancel c) = appIDFromContext c"
| "appIDFromContext (WithTimeout c d) = appIDFromContext c"
| "appIDFromContext _ = []"

definition app_inject :: "ctx \<Rightarrow> table option \<Rightarrow> table option" where
  "app_inject c headers =
     (let t = (case headers of None \<Rightarrow> [] | Some t \<Rightarrow> t)
      in Some (AList.update appIDHeader (FStr (appIDFromContext c)) t))"

definition app_extract :: "ctx \<Rightarrow> delivery \<Rightarrow> ctx" where
  "app_extract c d = (case table_get (d_Headers d) appIDHeader of Some (FStr appID) \<Rightarrow> CtxValue c appID | _ \<Rightarrow> c)"

definition metrics_config :: SDKConfig where
  "metrics_config = zero_config\<lparr>Addr := ''127.0.0.1:5672'', Username := ''guest'', Password := ''guest'',
     ConnectionName := ''huma-metrics-example'', EnableMetrics := True, MetricsNamespace := ''huma_example'',
     MetricLabelName := ''app_id'', MetricLabelValue := Some appIDFromContext,
     InjectHeaders := Some app_inject, ExtractContext := Some app_extract\<rparr>"

definition metrics_queue :: QueueConfig where
  "metrics_queue = zero_queue\<lparr>Name := ''huma.metrics.example'', Durable := True, Handler := Some 0, NumWorkers := 1,
     ProcessTimeout := 5 * second\<rparr>"

text \<open>\<^verbatim>\<open>Shutdown\<close> of the HTTP server; its error is only logged.\<close>

definition server_shutdown :: "lib \<Rightarrow> ctx \<Rightarrow> hist \<Rightarrow> err option \<times> hist" where
  "server_shutdown L c h = (let r = serverShutdown L h c in (r, h @ [EvServerShutdown c r]))"

definition metrics_main :: "lib \<Rightarrow> sdk_op list \<Rightarrow> msg_heap \<Rightarrow> hist \<Rightarrow> exit outcome \<times> hist" where
  "metrics_main L =
     client metrics_config [] [metrics_queue]
       [Sdk (DoMessage 0 (WithBody ''metric example'')),
        Sdk (DoPublish (CtxValue main_ctx ''metrics-example'') [] ''huma.metrics.example'' (Some 0)),
        Serve '':2112''] (\<lambda>h. snd (server_shutdown L shutdown_ctx h)) L"

section \<open>examples/tracing\<close>

definition tracing_config :: SDKConfig where
  "tracing_config = zero_config\<lparr>Addr := ''127.0.0.1:5672'', Username := ''guest'', Password := ''guest'',
     ConnectionName := ''huma-tracing-example'', EnableTracing := True\<rparr>"

definition tracing_queue :: QueueConfig where
  "tracing_queue = zero_queue\<lparr>Name := ''huma.tracing.example'', Durable := True, Handler := Some 0, NumWorkers := 1,
     ProcessTimeout := 5 * second\<rparr>"

text \<open>
  \<^verbatim>\<open>initTracer\<close> can fail when it creates the exporter; what it returns is the \<^verbatim>\<open>Shutdown\<close> of the
  tracer provider, which \<^verbatim>\<open>main\<close> defers. A \<^verbatim>\<open>log.Fatal\<close> does not run deferred functions.
\<close>

definition initTracer :: "lib \<Rightarrow> hist \<Rightarrow> (err + (ctx \<Rightarrow> hist \<Rightarrow> err option \<times> hist)) \<times> hist" where
  "initTracer L h =
     (let r = exporterNew L h; h1 = h @ [EvExporterNew r]
      in case r of
           Some e \<Rightarrow> (Inl e, h1)
         | None \<Rightarrow> (Inr (\<lambda>c g. let e = tracerShutdown L g c in (e, g @ [EvTracerShutdown c e])), h1))"

definition tracing_main :: "lib \<Rightarrow> sdk_op list \<Rightarrow> msg_heap \<Rightarrow> hist \<Rightarrow> exit outcome \<times> hist" where
  "tracing_main L waiting M h =
     (case initTracer L h of (t, h1) \<Rightarrow>
        (case t of
           Inl e \<Rightarrow> (Returns (Fatal ''failed to create trace exporter''), h1)
         | Inr shutdown \<Rightarrow>
             obind (client tracing_config [] [tracing_queue]
                      ([TraceStart ''publish-messages'']
                       @ concat (map (\<lambda>i. [Sdk (DoMessage i (WithBody ''traced message'')),
                                           Sdk (DoPublish (spanCtx L main_ctx) [] ''huma.tracing.example'' (Some i))]) [0..<3])
                       @ [TraceEnd]) (\<lambda>h. h) L waiting M h1)
               (\<lambda>x h2. case x of
                  Fatal m \<Rightarrow> (Returns x, h2)
                | Finished s \<Rightarrow> (Returns x, snd (shutdown background h2)))))"

section \<open>Lemmas\<close>

text \<open>
  What a client leaves behind: if it could not begin, nothing is open; if it finished, its queues
  were declared and started, the SDK's shutdown has begun, nothing is open if it was completed,
  and what ran \<open>beside\<close> the SDK was shut down.
\<close>

definition clean_exit :: "QueueConfig list \<Rightarrow> (hist \<Rightarrow> bool) \<Rightarrow> exit \<Rightarrow> hist \<Rightarrow> bool" where
  "clean_exit qs beside x h \<longleftrightarrow>
     (case x of
        Fatal m \<Rightarrow>
          m \<in> {''failed to connect'', ''failed to create trace exporter''} \<and> live_conns h = {#} \<and> live_chans h = {#}
          \<or> m \<in> {''failed to declare queues'', ''failed to start consumers''} \<and> size (live_conns h) \<le> 1
      | Finished s \<Rightarrow> queues s = qs \<and> declaredQueues s = qs \<and> shutdownOnce s \<and> size (live_conns h) \<le> 1
          \<and> (closeOnce s \<longrightarrow> live_conns h = {#} \<and> live_chans h = {#}) \<and> beside h)"

lemma clean_exit_later:
  assumes "clean_exit qs beside x h" "grows neutral h h'" "\<And>s. x = Finished s \<Longrightarrow> beside h \<Longrightarrow> beside' h'"
  shows "clean_exit qs beside' x h'"
  using assms grows_neutral [OF assms(2)] by (auto simp: clean_exit_def split: exit.splits)

lemma inv_conns: "sdk_inv c s h \<Longrightarrow> size (live_conns h) \<le> 1"
  using size_mset_mono [of "live_conns h" "{#conn s#}"] by (simp add: sdk_inv_def owns_def)

lemma new_setup: "same_setup (the_sdk c cfg cn ch st p m) s \<Longrightarrow> queues s = [] \<and> declaredQueues s = []"
  by (simp add: same_setup_def the_sdk_def)

lemma Start_success: "Start L c qs s h = (None, s', h') \<Longrightarrow> s' = s\<lparr>queues := queues s @ qs\<rparr>"
  using startWithStoreQueuesFlag_spec [of L c qs True s _ None s' h']
  by (auto simp: Start_def split: prod.splits option.splits)

lemma goroutine_setup: "list_all (\<lambda>op. \<not> sets_up op) (filter goroutine_op ops)"
proof -
  have "goroutine_op op \<Longrightarrow> \<not> sets_up op" for op by (cases op) auto
  then show ?thesis by (auto simp: list_all_iff)
qed

text \<open>The body of a program keeps the invariant and the set-up, whatever runs beside the SDK.\<close>

fun op_sets_up :: "app_op \<Rightarrow> bool" where
  "op_sets_up (Sdk op) = sets_up op"
| "op_sets_up _ = False"

fun comes_back :: "sdk_op \<Rightarrow> bool" where
  "comes_back (DoShutdown c) = False"
| "comes_back _ = True"

fun op_comes_back :: "app_op \<Rightarrow> bool" where
  "op_comes_back (Sdk op) = comes_back op"
| "op_comes_back _ = True"

lemma comes_back_ends: "list_all comes_back ops \<Longrightarrow> shutdowns_end L ops"
  by (auto simp: shutdowns_end_def list_all_iff)

lemma goroutine_comes_back: "list_all comes_back (filter goroutine_op ops)"
proof -
  have "goroutine_op op \<Longrightarrow> comes_back op" for op by (cases op) auto
  then show ?thesis by (auto simp: list_all_iff)
qed

lemma inv_neutral: "sdk_inv c s h \<Longrightarrow> neutral e \<Longrightarrow> sdk_inv c s (h @ [e])"
  by (rule inv_frame [OF _ frame_neutral]) (auto simp: grows_def)

lemma app_run_inv:
  assumes "cancel_respected L c"
  shows "sdk_inv c s h \<Longrightarrow> list_all (\<lambda>op. \<not> op_sets_up op) ops \<Longrightarrow> list_all op_comes_back ops \<Longrightarrow>
     \<exists>s' M' h'. app_run L ops (s, M) h = (Returns (s', M'), h') \<and> sdk_inv c s' h' \<and> same_setup s s'"
proof (induction ops arbitrary: s M h)
  case (Cons op ops)
  show ?case
  proof (cases op)
    case (Sdk o')
    obtain s1 M1 h1 where st: "sdk_step L o' (s, M) h = (Returns (s1, M1), h1)" "sdk_inv c s1 h1"
      using sdk_step_returns [OF Cons.prems(1) assms, of o' M] Cons.prems(3) Sdk comes_back_ends [of "[o']" L] by auto
    have "same_setup s s1" using sdk_step_setup [OF Cons.prems(1) _ st(1)] Cons.prems(2) Sdk by simp
    moreover obtain s2 M2 h2 where "app_run L ops (s1, M1) h1 = (Returns (s2, M2), h2)" "sdk_inv c s2 h2" "same_setup s1 s2"
      using Cons.IH [OF st(2)] Cons.prems(2,3) by force
    ultimately show ?thesis using Sdk st(1) by (auto simp: same_setup_def)
  qed (use Cons.IH [OF inv_neutral [OF Cons.prems(1)]] Cons.prems(2,3) in simp_all)
qed (simp add: same_setup_def)

text \<open>From the started SDK to the end of the program.\<close>

lemma client_end:
  assumes inv: "sdk_inv main_ctx s3 h4" and cr: "cancel_respected L main_ctx"
    and sig: "\<And>h. \<not> ctx_hangs L main_ctx h" and dl: "\<And>h. \<not> ctx_hangs L shutdown_ctx h"
    and body: "list_all (\<lambda>op. \<not> op_sets_up op) body" "list_all op_comes_back body"
    and cl: "\<And>h. grows neutral h (closing h)" and qs: "queues s3 = qs" "declaredQueues s3 = qs"
  shows "\<exists>x h'. obind (app_run L body (s3, M1) h4) (\<lambda>(s4, M2) h5.
                 obind (sdk_run L (filter goroutine_op waiting) (s4, M2) h5) (\<lambda>(s5, M3) h6.
                 if ctx_hangs L main_ctx h6 then (Blocks, h6)
                 else (case await_done L main_ctx h6 of (done, h7) \<Rightarrow>
                   obind (Shutdown L shutdown_ctx s5 (closing h7)) (\<lambda>(e3, s6) h8. (Returns (Finished s6), h8)))))
             = (Returns x, h') \<and> clean_exit qs (\<lambda>h. \<exists>g. longer (closing g) h) x h'"
proof -
  obtain s4 M2 h5 where p: "app_run L body (s3, M1) h4 = (Returns (s4, M2), h5)" "sdk_inv main_ctx s4 h5" "same_setup s3 s4"
    using app_run_inv [OF cr inv body] by blast
  obtain s5 M3 h6 where w: "sdk_run L (filter goroutine_op waiting) (s4, M2) h5 = (Returns (s5, M3), h6)" "sdk_inv main_ctx s5 h6"
    using sdk_run_returns [OF cr p(2) comes_back_ends [OF goroutine_comes_back]] by blast
  obtain e0 h7 where d: "await_done L main_ctx h6 = (e0, h7)" "grows neutral h6 h7"
    by (simp add: await_done_def Let_def)
  have i7: "sdk_inv main_ctx s5 (closing h7)"
    using inv_frame [OF w(2) frame_neutral [OF grows_trans [OF d(2) cl]]] .
  obtain e s6 h8 where sd: "Shutdown L shutdown_ctx s5 (closing h7) = (Returns (e, s6), h8)" "sdk_inv main_ctx s6 h8"
    using Shutdown_inv [OF i7, of L shutdown_ctx] dl by (auto simp: stuck_in_shutdown_def never_ready_def)
  have c: "shutdown_ctx \<noteq> CtxNil" by (simp add: shutdown_ctx_def)
  have same: "same_setup s3 s5"
    using p(3) sdk_run_setup [OF cr p(2) goroutine_setup w(1)] by (simp add: same_setup_def)
  have rest: "longer (closing h7) h8" using Shutdown_rest [OF sd(1) c] by simp
  have "same_setup s5 s6"
    using Shutdown_rest [OF sd(1) c] by (cases s5, cases s6) (simp add: same_setup_def)
  moreover have "shutdownOnce s6"
    using Shutdown_spec [of s5 "closing h7" shutdown_ctx L] i7 sd(1) c
    by (auto simp: sdk_inv_def shutdown_outcome_def split: if_splits)
  ultimately have "clean_exit qs (\<lambda>h. \<exists>g. longer (closing g) h) (Finished s6) h8"
    using rest same qs sd(2) inv_conns [OF sd(2)] by (auto simp: clean_exit_def same_setup_def sdk_inv_def)
  with p(1) w(1) d(1) sig sd(1) show ?thesis by simp
qed

text \<open>
  What the programs need to come to an end: their context ends, by a signal, and so does a
  context with a timeout.
\<close>

definition ends_some_time :: "lib \<Rightarrow> bool" where
  "ends_some_time L \<longleftrightarrow> (\<forall>h. ctxEnds L h main_ctx) \<and> (\<forall>h c t. ctxEnds L h (WithTimeout c t))"

lemma ends_some_time_hangs:
  "ends_some_time L \<Longrightarrow> \<not> ctx_hangs L main_ctx h" "ends_some_time L \<Longrightarrow> \<not> ctx_hangs L shutdown_ctx h"
  by (auto simp: ends_some_time_def ctx_hangs_def shutdown_ctx_def)

lemma client_spec:
  assumes cr: "cancel_respected L main_ctx" and en: "ends_some_time L"
    and sz: "PublisherPoolSize cfg = 0" "PublisherMaxPoolSize cfg = 0"
    and ops: "list_all (\<lambda>op. \<not> sets_up op) before" "list_all (\<lambda>op. \<not> op_sets_up op) body"
      "list_all comes_back before" "list_all op_comes_back body"
    and cl: "\<And>h. grows neutral h (closing h)" and h: "live_conns h = {#}" "live_chans h = {#}"
  shows "\<exists>x h'. client cfg before qs body closing L waiting M h = (Returns x, h')
     \<and> clean_exit qs (\<lambda>h. \<exists>g. longer (closing g) h) x h'"
proof -
  have small: "PublisherPoolSize cfg < 2 ^ 30" "PublisherMaxPoolSize cfg < 2 ^ 31" using sz by simp_all
  obtain r h1 where new: "NewSDK L main_ctx cfg h = (Returns r, h1)" "created cfg h {#} r h1"
    "\<forall>s. r = Inr s \<longrightarrow> (\<exists>cn ch st p m. s = the_sdk main_ctx cfg cn ch st p m)"
    using NewSDK_spec [OF small, of L main_ctx h] unfolding h by blast
  show ?thesis
  proof (cases r)
    case (Inl e)
    with new h show ?thesis by (simp add: client_def created_def clean_exit_def)
  next
    case (Inr s)
    have inv: "sdk_inv main_ctx s h1" using NewSDK_inv [OF small _ h] new(1) Inr by simp
    obtain s1 M1 h2 where b: "sdk_run L before (s, M) h1 = (Returns (s1, M1), h2)" "sdk_inv main_ctx s1 h2"
      using sdk_run_returns [OF cr inv comes_back_ends [OF ops(3)]] by blast
    have e1: "queues s1 = []" "declaredQueues s1 = []"
      using sdk_run_setup [OF cr inv ops(1) b(1)] new(3) Inr new_setup by blast+
    obtain d s2 h3 where dq: "DeclareQueues L main_ctx qs s1 h2 = (d, s2, h3)" by (metis prod_cases3)
    have i2: "sdk_inv main_ctx s2 h3" using DeclareQueues_inv [OF b(2) dq] .
    obtain st s3 h4 where sq: "Start L main_ctx qs s2 h3 = (st, s3, h4)" by (metis prod_cases3)
    have i3: "sdk_inv main_ctx s3 h4" using Start_inv [OF i2 sq] .
    show ?thesis
    proof (cases "d = None \<and> st = None")
      case False
      then show ?thesis
        using new(1) Inr b(1) dq sq inv_conns [OF i2] inv_conns [OF i3]
        by (cases d) (auto simp: client_def clean_exit_def)
    next
      case True
      have q3: "queues s3 = qs" "declaredQueues s3 = qs"
        using True dq sq e1 DeclareQueues_success Start_success by fastforce+
      show ?thesis
        using client_end [OF i3 cr ends_some_time_hangs [OF en] ops(2,4) cl q3, of M1 waiting] new(1) Inr b(1) dq sq True by (auto simp: client_def)
    qed
  qed
qed

text \<open>The metrics example connects in the calm environment.\<close>

lemma calm_metrics_NewSDK: "\<exists>s h'. NewSDK calm_lib main_ctx metrics_config [] = (Returns (Inr s), h')"
proof -
  have cfg: "config_error main_ctx metrics_config = None" "the_poolSize metrics_config = 5" "the_poolMaxSize metrics_config = 10"
    by (simp_all add: config_error_def the_poolSize_def the_poolMaxSize_def metrics_config_def zero_config_def
        main_ctx_def defaultPublisherPoolSize_def in_int64_def)
  obtain cn st h1 where d: "DialConfig calm_lib (WithCancel main_ctx) (connection_url metrics_config)
      (the_connectionConfig metrics_config) None [] = (Inr cn, st, h1)"
    by (simp add: DialConfig_def dial_def state_set_def env_defs Let_def)
  obtain p h2 where p: "newPublisherChannelPool calm_lib cn st 5 10
      (h1 @ [EvConnChannel cn (Inr (length h1))]) = (Returns (Inr p), h2)"
    by (simp add: newPublisherChannelPool_def make_chan_def eval_nat_numeral env_defs Let_def chan_send_def add_cur_def)
  have "\<exists>m h3. new_metrics calm_lib metrics_config h2 = (Inr m, h3)"
    by (simp add: new_metrics_def metrics_config_def newPrometheusMetrics_def collectors_def Let_def)
  then obtain m h3 where m: "new_metrics calm_lib metrics_config h2 = (Inr m, h3)" by blast
  have "new_on_conn calm_lib main_ctx metrics_config cn st h1 =
      (Returns (Inr (the_sdk main_ctx metrics_config cn (length h1) st p m)), h3 @ [EvSpawnMonitor (length h1) cn])"
    by (simp add: new_on_conn_def state_current_def conn_channel_def Let_def cfg p m)
  then show ?thesis by (simp add: NewSDK_def cfg d)
qed

section \<open>The four programs\<close>

lemma example_sizes:
  "cfg \<in> {basic_config, dlq_config, metrics_config, tracing_config} \<Longrightarrow> PublisherPoolSize cfg = 0 \<and> PublisherMaxPoolSize cfg = 0"
  by (auto simp: basic_config_def dlq_config_def metrics_config_def tracing_config_def zero_config_def)

lemma basic_spec:
  assumes "cancel_respected L main_ctx" "ends_some_time L"
  shows "\<exists>x h. basic_main (Inr lg) L waiting M [] = (Returns x, h) \<and> clean_exit [basic_queue] (\<lambda>h. True) x h"
  using client_spec [OF assms(1,2), where cfg = basic_config and before = "[DoSetLogger (Some lg)]" and h = "[]"
      and qs = "[basic_queue]" and waiting = waiting and M = M and closing = "\<lambda>h. h"
      and body = "[Sdk (DoMessage 0 (WithBody ''hello from huma'')), Sdk (DoPublish main_ctx [] ''huma.example'' (Some 0))]"]
  by (auto simp: basic_main_def example_sizes elim!: clean_exit_later)

lemma dlq_spec:
  assumes "cancel_respected L main_ctx" "ends_some_time L"
  shows "\<exists>x h. dlq_main marshal L waiting M [] = (Returns x, h) \<and> clean_exit [ordersQueue, scheduledQueue] (\<lambda>h. True) x h"
  using client_spec [OF assms(1,2), where cfg = dlq_config and before = "[]" and h = "[]"
      and qs = "[ordersQueue, scheduledQueue]" and waiting = waiting and M = M and closing = "\<lambda>h. h"
      and body = "[Sdk (DoMessage 0 (WithJSONBody marshal [(''order_id'', ''42'')])), Sdk (DoPublish main_ctx [] ''huma.orders'' (Some 0)),
        Sdk (DoMessage 1 (WithBody ''scheduled task'')), Sdk (DoPublishWithDelayDLXTTL main_ctx ''huma.scheduled'' (Some 1))]"]
  by (auto simp: dlq_main_def example_sizes elim!: clean_exit_later)

lemma metrics_spec:
  assumes "cancel_respected L main_ctx" "ends_some_time L"
  shows "\<exists>x h. metrics_main L waiting M [] = (Returns x, h)
     \<and> clean_exit [metrics_queue] (\<lambda>h. \<exists>r. EvServerShutdown shutdown_ctx r \<in> set h) x h"
proof -
  have down: "\<exists>r. snd (server_shutdown L shutdown_ctx g) = g @ [EvServerShutdown shutdown_ctx r]" for g
    by (simp add: server_shutdown_def Let_def)
  have "grows neutral g (snd (server_shutdown L shutdown_ctx g))" for g
    by (auto simp: server_shutdown_def Let_def grows_def)
  then obtain x h where x: "metrics_main L waiting M [] = (Returns x, h)"
    "clean_exit [metrics_queue] (\<lambda>h. \<exists>g. longer (snd (server_shutdown L shutdown_ctx g)) h) x h"
    using client_spec [OF assms(1,2), where cfg = metrics_config and before = "[]" and h = "[]" and qs = "[metrics_queue]"
        and waiting = waiting and M = M and closing = "\<lambda>h. snd (server_shutdown L shutdown_ctx h)"
        and body = "[Sdk (DoMessage 0 (WithBody ''metric example'')),
          Sdk (DoPublish (CtxValue main_ctx ''metrics-example'') [] ''huma.metrics.example'' (Some 0)), Serve '':2112'']"]
    by (auto simp: metrics_main_def example_sizes)
  have "\<exists>r. EvServerShutdown shutdown_ctx r \<in> set h" if "longer (snd (server_shutdown L shutdown_ctx g)) h" for g
    using longer_set [OF that] down [of g] by (metis in_set_conv_decomp)
  with x show ?thesis by (blast intro: clean_exit_later [OF _ grows_refl])
qed

lemma exporter_live [simp]: "live_conns [EvExporterNew r] = {#}" "live_chans [EvExporterNew r] = {#}"
  using grows_neutral [of "[]" "[EvExporterNew r]"] by (auto simp: grows_def)

lemma tracing_spec:
  assumes "cancel_respected L main_ctx" "ends_some_time L"
  shows "\<exists>x h. tracing_main L waiting M [] = (Returns x, h)
     \<and> clean_exit [tracing_queue] (\<lambda>h. \<exists>r. EvTracerShutdown background r \<in> set h) x h"
proof (cases "exporterNew L []")
  case (Some e)
  then show ?thesis by (simp add: tracing_main_def initTracer_def clean_exit_def)
next
  case None
  let ?body = "[TraceStart ''publish-messages'']
     @ concat (map (\<lambda>i. [Sdk (DoMessage i (WithBody ''traced message'')),
                         Sdk (DoPublish (spanCtx L main_ctx) [] ''huma.tracing.example'' (Some i))]) [0..<3]) @ [TraceEnd]"
  have body: "list_all (\<lambda>op. \<not> op_sets_up op) ?body" "list_all op_comes_back ?body" by (simp_all add: list_all_iff)
  obtain x h where x: "client tracing_config [] [tracing_queue] ?body (\<lambda>h. h) L waiting M [EvExporterNew None] = (Returns x, h)"
    "clean_exit [tracing_queue] (\<lambda>h. \<exists>g. longer g h) x h"
    using client_spec [OF assms _ _ _ body(1) _ body(2), where cfg = tracing_config and before = "[]" and closing = "\<lambda>h. h"
        and h = "[EvExporterNew None]" and qs = "[tracing_queue]" and waiting = waiting and M = M]
    by (auto simp: example_sizes)
  let ?e = "EvTracerShutdown background (tracerShutdown L h background)"
  have run: "tracing_main L waiting M [] = (Returns x, case x of Fatal m \<Rightarrow> h | Finished s \<Rightarrow> h @ [?e])"
    using None x(1) by (cases x) (simp_all add: tracing_main_def initTracer_def Let_def)
  have "clean_exit [tracing_queue] (\<lambda>h. \<exists>r. EvTracerShutdown background r \<in> set h) x (case x of Fatal m \<Rightarrow> h | Finished s \<Rightarrow> h @ [?e])"
    by (rule clean_exit_later [OF x(2)]) (cases x; auto simp: grows_def)+
  with run show ?thesis by blast
qed

section \<open>The orders of the dead-letter example\<close>

text \<open>A handler that never succeeds makes every delivery a failed one.\<close>

lemma failing_handler:
  assumes ok: "sdk_pool_ok n s" and q: "Handler q = Some f" and fails: "\<And>h c. runHandler L h f c (Name q) d \<noteq> HandlerOk"
    and run: "processDelivery L c d q span s h = (r, h @ es)"
  shows "\<exists>ha. failed_delivery d q ha h (h @ es)"
proof -
  obtain st h1 where t: "now L h = (st, h1)" by fastforce
  obtain a h2 where a: "run_handler L c d q h1 = (a, h2)" "a \<noteq> HandlerOk"
    by (cases rule: run_handler_cases [of L c d q h1]) (use q fails in auto)
  obtain ha where "does h1 h2 [] [] [] ha []" using run_handler_does [OF a(1)] by blast
  from does_before [OF _ this] have g: "does h h2 [] [] [] ha []" using does_now [of h L] t by simp
  show ?thesis
  proof (cases a)
    case (HandlerPanic m)
    with recover_panic_spec [OF ok, of L c d q span st m h2] run t a(1) have "failed_delivery d q [] h2 (h @ es)"
      by (auto simp: processDelivery_def)
    then show ?thesis using failed_before [OF g] by blast
  next
    case (HandlerErr e)
    obtain s' h3 where p: "handleDeliveryFailure L c d q s (record_span span e h2) = (Returns s', h3)"
      "failed_delivery d q [] (record_span span e h2) h3"
      using handleDeliveryFailure_spec [OF ok] by blast
    have "failed_delivery d q (ha @ []) h (observe_duration L c q st s' h3)"
      using failed_after [OF failed_before [OF g failed_before [OF does_record p(2)]] does_observe] by simp
    with run t a(1) HandlerErr p(1) show ?thesis by (auto simp: processDelivery_def)
  qed (use a in simp)
qed

lemma orders_wired:
  assumes "DeclareQueues L c [ordersQueue, scheduledQueue] s h = (None, s', h')"
  shows "\<exists>x key args. DeclQueue ''huma.orders'' True False False False args \<in> set (decls (channel s) h')
     \<and> table_get args ''x-dead-letter-exchange'' = Some (FStr x)
     \<and> table_get args ''x-dead-letter-routing-key'' = Some (FStr key)
     \<and> DeclQueue ''huma.orders.DLQ'' True False False False None \<in> set (decls (channel s) h')
     \<and> DeclBind ''huma.orders.DLQ'' key x False None \<in> set (decls (channel s) h')"
proof -
  have dlq: "EnableDLQ ordersQueue" by (simp add: ordersQueue_def)
  have "set (topology ordersQueue) \<subseteq> set (decls (channel s) h')" using DeclareQueues_None [OF assms, of ordersQueue] by simp
  with topology_dlq [OF dlq] queue_args_dlq [OF dlq] show ?thesis
    by (intro exI [of _ "dlxName ordersQueue"] exI [of _ "dlqName ordersQueue"] exI [of _ "queue_args ordersQueue"])
      (auto simp: ordersQueue_def zero_queue_def dlqName_def)
qed

section \<open>Properties\<close>

text \<open>
  C20: each example program comes to its end when its context ends some time, by the signal it
  waits for, and so do contexts with a timeout, whatever the broker answers and whatever the
  goroutines of the SDK do while it waits. There are three ways it ends. It could not begin
  (no trace exporter, no connection) and leaves nothing open; it stopped with a fatal message because
  declaring its queues or starting its consumers failed, and then, having called no \<^verbatim>\<open>Shutdown\<close>, may leave
  its one connection to the end of the process; or it reached its shutdown: exactly its queues are declared and started,
  when \<^verbatim>\<open>Shutdown\<close> could complete within its ten seconds every connection and channel is
  closed, and the HTTP server of the metrics example and the tracer of the tracing example were shut down.
\<close>

theorem examples_clean_up:
  assumes "cancel_respected L main_ctx"
    "\<And>h. ctxEnds L h main_ctx" "\<And>h c t. ctxEnds L h (WithTimeout c t)"
    "(main, qs, beside) \<in> {(basic_main (Inr lg), [basic_queue], \<lambda>h. True),
       (dlq_main marshal, [ordersQueue, scheduledQueue], \<lambda>h. True),
       (metrics_main, [metrics_queue], \<lambda>h. \<exists>r. EvServerShutdown shutdown_ctx r \<in> set h),
       (tracing_main, [tracing_queue], \<lambda>h. \<exists>r. EvTracerShutdown background r \<in> set h)}"
  shows "\<exists>x h. main L waiting M [] = (Returns x, h) \<and>
     (case x of
        Fatal m \<Rightarrow>
          m \<in> {''failed to connect'', ''failed to create trace exporter''} \<and> live_conns h = {#} \<and> live_chans h = {#}
          \<or> m \<in> {''failed to declare queues'', ''failed to start consumers''} \<and> size (live_conns h) \<le> 1
      | Finished s \<Rightarrow> queues s = qs \<and> declaredQueues s = qs \<and> shutdownOnce s \<and> size (live_conns h) \<le> 1
          \<and> (closeOnce s \<longrightarrow> live_conns h = {#} \<and> live_chans h = {#}) \<and> beside h)"
proof -
  have en: "ends_some_time L" using assms(2,3) by (simp add: ends_some_time_def)
  note a = assms(1) en
  have "\<exists>x h. main L waiting M [] = (Returns x, h) \<and> clean_exit qs beside x h"
    using assms(4) basic_spec [OF a] dlq_spec [OF a] metrics_spec [OF a] tracing_spec [OF a]
    by auto
  then show ?thesis unfolding clean_exit_def .
qed

lemma tracing_finishes:
  "case fst (tracing_main cancel_lib [DoMonitor, DoReconnect 2] sample_heap []) of
     Returns (Finished s) \<Rightarrow> closeOnce s | _ \<Rightarrow> False"
  by code_simp

theorem examples_clean_up_witness:
  "\<exists>s h. tracing_main cancel_lib [DoMonitor, DoReconnect 2] sample_heap [] = (Returns (Finished s), h)
     \<and> queues s = [tracing_queue] \<and> closeOnce s \<and> live_conns h = {#} \<and> live_chans h = {#}
     \<and> (\<exists>r. EvTracerShutdown background r \<in> set h)"
proof -
  obtain s h where x: "tracing_main cancel_lib [DoMonitor, DoReconnect 2] sample_heap [] = (Returns (Finished s), h)" "closeOnce s"
    using tracing_finishes
    by (cases "tracing_main cancel_lib [DoMonitor, DoReconnect 2] sample_heap []") (auto split: outcome.splits exit.splits)
  moreover have "queues s = [tracing_queue] \<and> (closeOnce s \<longrightarrow> live_conns h = {#} \<and> live_chans h = {#})
      \<and> (\<exists>r. EvTracerShutdown background r \<in> set h)"
    using examples_clean_up [OF cancel_lib_respects [of main_ctx], where main = tracing_main and qs = "[tracing_queue]"
        and beside = "\<lambda>h. \<exists>r. EvTracerShutdown background r \<in> set h"
        and lg = 0 and marshal = "\<lambda>_. Inr []" and waiting = "[DoMonitor, DoReconnect 2]" and M = sample_heap] x(1)
    by auto
  ultimately show ?thesis by blast
qed

text \<open>
  C9: what the dead-letter example promises in its comment, end to end. Follow an order, delivered without a counter,
  through the copies the SDK sends of it (each delivered by RabbitMQ with the headers and the body
  that were sent). With the handler of the example, which fails every
  order, there are at most three copies, the \<open>k\<close>-th with the counter \<open>k\<close>: below three it is
  replaced by a confirmed copy with counter \<open>k + 1\<close>, or requeued if none was confirmed; the third is
  rejected without requeueing and not copied; and since the queues
  were declared, RabbitMQ then routes it by the dead-letter exchange and key to which
  \<^verbatim>\<open>huma.orders.DLQ\<close> is bound.
\<close>

theorem failed_orders_reach_dlq:
  assumes declared: "DeclareQueues L0 c0 [ordersQueue, scheduledQueue] s0 h0 = (None, s1, h1)"
    and handlers: "\<And>h f c q d. runHandler L h f c q d = dlq_handler f"
    and new: "headers_wf (d_Headers d)" "deliveryRetryCount (d_Headers d) = 0"
    and dk: "retried ordersQueue d k dk" and ok: "sdk_pool_ok n s"
    and run: "processDelivery L c dk ordersQueue span s h = (r, h @ es)"
  shows "k \<le> 3 \<and> d_Body dk = d_Body d \<and> deliveryRetryCount (d_Headers dk) = int k
     \<and> settled es = [(d_DeliveryTag dk,
          if k < 3 then if confirmed es \<noteq> [] then Acked else Nacked True else Nacked False)]
     \<and> (confirmed es \<noteq> [] \<longrightarrow> sent es \<noteq> [])
     \<and> (\<forall>(x, key, pub) \<in> set (sent es). deliveryRetryCount (p_Headers pub) = int k + 1 \<and> p_Body pub = d_Body d)
     \<and> (k = 3 \<longrightarrow> sent es = [])
     \<and> (\<exists>x key args. DeclQueue ''huma.orders'' True False False False args \<in> set (decls (channel s0) h1)
          \<and> table_get args ''x-dead-letter-exchange'' = Some (FStr x)
          \<and> table_get args ''x-dead-letter-routing-key'' = Some (FStr key)
          \<and> DeclQueue ''huma.orders.DLQ'' True False False False None \<in> set (decls (channel s0) h1)
          \<and> DeclBind ''huma.orders.DLQ'' key x False None \<in> set (decls (channel s0) h1))"
proof -
  have q: "Handler ordersQueue = Some 0" "MaxRedelivery ordersQueue = 3" by (simp_all add: ordersQueue_def)
  have keep: "k \<le> 3" "headers_wf (d_Headers dk)" "deliveryRetryCount (d_Headers dk) = int k" "d_Body dk = d_Body d"
    using retried_keeps [OF dk new] q by simp_all
  have copy: "deliveryRetryCount (p_Headers pub) = int k + 1 \<and> p_Body pub = d_Body d"
    if "(x, key, pub) \<in> set (sent es)" for x key pub
    using sent_copy [OF ok run that] keep q by (simp add: deliveryRetryCount_def [of "p_Headers pub"])
  have "\<exists>ha. failed_delivery dk ordersQueue ha h (h @ es)"
    by (rule failing_handler [OF ok q(1) _ run]) (simp add: handlers dlq_handler_def q)
  then have "settled es = [(d_DeliveryTag dk, if k < 3 then if confirmed es \<noteq> [] then Acked else Nacked True else Nacked False)]
      \<and> (confirmed es \<noteq> [] \<longrightarrow> sent es \<noteq> []) \<and> (k = 3 \<longrightarrow> sent es = [])"
    using keep q by (auto simp: failed_delivery_def does_def verdict_def split: if_splits)
  then show ?thesis using keep copy orders_wired [OF declared] by blast
qed

theorem failed_orders_reach_dlq_witness:
  "\<exists>r es. retried ordersQueue sample_delivery 3 (sample_copy 3)
     \<and> processDelivery (calm_lib\<lparr>runHandler := \<lambda>h f c q d. dlq_handler f\<rparr>) (CtxOf 0) (sample_copy 3)
       ordersQueue False sample_sdk [] = (r, es) \<and> settled es = [(4, Nacked False)] \<and> sent es = []"
proof -
  let ?L = "calm_lib\<lparr>runHandler := \<lambda>h f c q d. dlq_handler f\<rparr>"
  obtain s1 h1 where declared: "DeclareQueues calm_lib (CtxOf 0) [ordersQueue, scheduledQueue] sample_sdk [] = (None, s1, h1)"
    using example_declared by blast
  obtain s' es where p: "processDelivery ?L (CtxOf 0) (sample_copy 3) ordersQueue False sample_sdk [] = (Returns s', [] @ es)"
    using processDelivery_spec [OF sample_sdk_pool_ok] by fastforce
  have "d_DeliveryTag (sample_copy 3) = 4" by (simp add: sample_copy_def)
  then show ?thesis
    using failed_orders_reach_dlq [OF declared _ sample_new sample_retried sample_sdk_pool_ok p] p sample_retried by auto
qed

text \<open>
  The application identifier of the metrics example travels with the message. The hook puts
  the identifier of the publishing context into the headers whatever else they hold, the
  worker reads it back from the delivery, and so the queue metrics of publisher and consumer
  carry the same extra label.
\<close>

theorem app_id_travels:
  assumes "NewSDK L c metrics_config h = (Returns (Inr s), h')" "d_Headers d = final_headers s pc hs"
  shows "\<exists>m. sdk_metrics s = PrometheusMetrics m
     \<and> extraLabel m pc = [appIDFromContext pc]
     \<and> extraLabel m (fst (consume_context L' wc d s g)) = extraLabel m pc
     \<and> (\<forall>k. k \<noteq> appIDHeader \<longrightarrow> table_get (d_Headers d) k = table_get hs k)"
proof -
  have "PublisherPoolSize metrics_config < 2 ^ 30" "PublisherMaxPoolSize metrics_config < 2 ^ 31"
    by (simp_all add: metrics_config_def zero_config_def)
  from NewSDK_spec [OF this, of L c h] assms(1)
  obtain cn ch st p m0 g1 g2 where s: "s = the_sdk c metrics_config cn ch st p m0"
    and m0: "new_metrics L metrics_config g1 = (Inr m0, g2)" by auto
  obtain m where m: "m0 = PrometheusMetrics m" "labelName m = ''app_id''" "labelValue m = Some appIDFromContext"
    using m0 by (auto simp: new_metrics_def metrics_config_def newPrometheusMetrics_def Let_def
        split: sum.splits option.splits prod.splits)
  have inj: "d_Headers d = app_inject pc hs" "extractContext s = Some app_extract" "\<not> enableTracing s"
    using assms(2) by (simp_all add: s the_sdk_def final_headers_def metrics_config_def zero_config_def app_inject_def Let_def)
  have "fst (consume_context L' wc d s g) = CtxValue wc (appIDFromContext pc)"
    using inj by (simp add: consume_context_def app_extract_def app_inject_def Let_def)
  moreover have "k \<noteq> appIDHeader \<longrightarrow> table_get (d_Headers d) k = table_get hs k" for k
    using inj(1) by (cases hs) (simp_all add: app_inject_def table_get_def update_conv' Let_def)
  ultimately show ?thesis using m by (simp add: s the_sdk_def extraLabel_def)
qed

theorem app_id_travels_witness:
  "\<exists>s h' m. NewSDK calm_lib main_ctx metrics_config [] = (Returns (Inr s), h') \<and> sdk_metrics s = PrometheusMetrics m
     \<and> extraLabel m (fst (consume_context calm_lib main_ctx
          (sample_delivery\<lparr>d_Headers := final_headers s (CtxValue main_ctx ''metrics-example'') None\<rparr>) s []))
        = [''metrics-example'']"
proof -
  obtain s h' where new: "NewSDK calm_lib main_ctx metrics_config [] = (Returns (Inr s), h')"
    using calm_metrics_NewSDK by blast
  from app_id_travels [OF new, of "sample_delivery\<lparr>d_Headers := final_headers s (CtxValue main_ctx ''metrics-example'') None\<rparr>"
      "CtxValue main_ctx ''metrics-example''" None calm_lib main_ctx "[]"] new
  show ?thesis by auto
qed

end
