(* ===== verification/Mock_Kit.thy ===== *)
theory Mock_Kit
  imports Topology
begin

text \<open>
  \<^verbatim>\<open>mock.go\<close>: the mock of the interface \<^verbatim>\<open>RabbitMQKit\<close> (\<^verbatim>\<open>rabbitmqkit.go\<close>) that clients of the SDK
  use in their tests. Its methods hand every call to a controller of \<^verbatim>\<open>gomock\<close>; the methods of
  its recorder register the calls a test expects. The controller is external: it is a record
  \<open>G\<close> of functions over a state the mock never looks into. What the mock has to get right
  is that both sides agree, method by method, on receiver, name and arguments, and that the
  answer of the controller comes back as the error it is.
\<close>

section \<open>Values passed as any\<close>

text \<open>Messages are pointers (addresses, or nil), contexts and loggers are interfaces.\<close>

datatype go_any =
    AnyNil
  | AnyCtx ctx
  | AnyString string
  | AnyInt int
  | AnyBool bool
  | AnyMessage "nat option"
  | AnyMessages "nat option list"
  | AnyQueue QueueConfig
  | AnyQueues "QueueConfig list"
  | AnyLogger nat
  | AnyError err




datatype go_type =
    TContext | TString | TInt | TBool | TMessage | TMessages | TQueueConfig | TQueueConfigs | TLogger | TError

record method_type =
  ins :: "go_type list"
  variadic :: bool
  outs :: "go_type list"

text \<open>A nil interface converted to \<^verbatim>\<open>any\<close> is nil.\<close>

fun any_ctx :: "ctx \<Rightarrow> go_any" where
  "any_ctx CtxNil = AnyNil"
| "any_ctx c = AnyCtx c"

fun any_logger :: "nat option \<Rightarrow> go_any" where
  "any_logger None = AnyNil"
| "any_logger (Some l) = AnyLogger l"


section \<open>The controller of gomock\<close>

text \<open>
  \<open>Ctrl_Call ctl receiver method args\<close> is a call of a mocked method: the values to return, or the
  end of the test (a failed expectation does not return). \<open>Ctrl_Record\<close> registers an expected
  call and yields it, \<open>Call_Return\<close> sets what that call is to return.
\<close>

record 'c gomock =
  T_Helper :: "nat \<Rightarrow> 'c \<Rightarrow> 'c"
  Ctrl_Call :: "nat \<Rightarrow> nat \<Rightarrow> string \<Rightarrow> go_any list \<Rightarrow> 'c \<Rightarrow> go_any list outcome \<times> 'c"
  Ctrl_Record :: "nat \<Rightarrow> nat \<Rightarrow> string \<Rightarrow> method_type \<Rightarrow> go_any list \<Rightarrow> 'c \<Rightarrow> nat \<times> 'c"
  Call_Return :: "nat \<Rightarrow> go_any list \<Rightarrow> 'c \<Rightarrow> 'c"

section \<open>The mock and its recorder\<close>

text \<open>The two point to each other, so mocks live in a heap and a pointer to a mock is its address.\<close>

record MockRabbitMQKitMockRecorder =
  mock :: nat

record MockRabbitMQKit =
  ctrl :: nat
  recorder :: "MockRabbitMQKitMockRecorder option"

type_synonym mock_heap = "nat \<Rightarrow> MockRabbitMQKit"

definition NewMockRabbitMQKit :: "nat \<Rightarrow> nat \<Rightarrow> mock_heap \<Rightarrow> mock_heap" where
  "NewMockRabbitMQKit a ctl H =
     (let H1 = H(a := \<lparr>ctrl = ctl, recorder = None\<rparr>)
      in H1(a := (H1 a)\<lparr>recorder := Some \<lparr>mock = a\<rparr>\<rparr>))"

definition EXPECT :: "mock_heap \<Rightarrow> nat \<Rightarrow> MockRabbitMQKitMockRecorder option" where
  "EXPECT H m = recorder (H m)"

text \<open>\<^verbatim>\<open>ret0, _ := ret[0].(error)\<close>: anything that is not an error becomes nil.\<close>

definition ret_error :: "go_any list \<Rightarrow> 'c \<Rightarrow> err option outcome \<times> 'c" where
  "ret_error ret st =
     (case ret of
        [] \<Rightarrow> (Panics ''index out of range [0] with length 0'', st)
      | v # _ \<Rightarrow> (Returns (case v of AnyError e \<Rightarrow> Some e | _ \<Rightarrow> None), st))"

section \<open>The mocked methods\<close>

definition mock_BatchPublish ::
  "'c gomock \<Rightarrow> mock_heap \<Rightarrow> nat \<Rightarrow> ctx \<Rightarrow> string \<Rightarrow> string \<Rightarrow> nat option list \<Rightarrow> 'c \<Rightarrow> err option outcome \<times> 'c" where
  "mock_BatchPublish G H m c exchange routingKey messages st =
     obind (Ctrl_Call G (ctrl (H m)) m ''BatchPublish''
              [any_ctx c, AnyString exchange, AnyString routingKey, AnyMessages messages] (T_Helper G (ctrl (H m)) st))
       ret_error"

text \<open>The loop that appends the queues to the arguments.\<close>

fun push_queues :: "go_any list \<Rightarrow> QueueConfig list \<Rightarrow> go_any list" where
  "push_queues varargs [] = varargs"
| "push_queues varargs (a # qs) = push_queues (varargs @ [AnyQueue a]) qs"

definition mock_DeclareQueues ::
  "'c gomock \<Rightarrow> mock_heap \<Rightarrow> nat \<Rightarrow> ctx \<Rightarrow> QueueConfig list \<Rightarrow> 'c \<Rightarrow> err option outcome \<times> 'c" where
  "mock_DeclareQueues G H m c qs st =
     obind (Ctrl_Call G (ctrl (H m)) m ''DeclareQueues'' (push_queues [any_ctx c] qs) (T_Helper G (ctrl (H m)) st))
       ret_error"

definition mock_Publish ::
  "'c gomock \<Rightarrow> mock_heap \<Rightarrow> nat \<Rightarrow> ctx \<Rightarrow> string \<Rightarrow> string \<Rightarrow> nat option \<Rightarrow> 'c \<Rightarrow> err option outcome \<times> 'c" where
  "mock_Publish G H m c exchange routingKey msg st =
     obind (Ctrl_Call G (ctrl (H m)) m ''Publish''
              [any_ctx c, AnyString exchange, AnyString routingKey, AnyMessage msg] (T_Helper G (ctrl (H m)) st))
       ret_error"

definition mock_PublishWithDelayDLXTTL ::
  "'c gomock \<Rightarrow> mock_heap \<Rightarrow> nat \<Rightarrow> ctx \<Rightarrow> string \<Rightarrow> nat option \<Rightarrow> 'c \<Rightarrow> err option outcome \<times> 'c" where
  "mock_PublishWithDelayDLXTTL G H m c queueName msg st =
     obind (Ctrl_Call G (ctrl (H m)) m ''PublishWithDelayDLXTTL''
              [any_ctx c, AnyString queueName, AnyMessage msg] (T_Helper G (ctrl (H m)) st))
       ret_error"

definition mock_SetLogger :: "'c gomock \<Rightarrow> mock_heap \<Rightarrow> nat \<Rightarrow> nat option \<Rightarrow> 'c \<Rightarrow> unit outcome \<times> 'c" where
  "mock_SetLogger G H m l st =
     obind (Ctrl_Call G (ctrl (H m)) m ''SetLogger'' [any_logger l] (T_Helper G (ctrl (H m)) st))
       (\<lambda>_ st1. (Returns (), st1))"

definition mock_SetQos ::
  "'c gomock \<Rightarrow> mock_heap \<Rightarrow> nat \<Rightarrow> ctx \<Rightarrow> int \<Rightarrow> int \<Rightarrow> bool \<Rightarrow> 'c \<Rightarrow> err option outcome \<times> 'c" where
  "mock_SetQos G H m c prefetchCount prefetchSize global st =
     obind (Ctrl_Call G (ctrl (H m)) m ''SetQos''
              [any_ctx c, AnyInt prefetchCount, AnyInt prefetchSize, AnyBool global] (T_Helper G (ctrl (H m)) st))
       ret_error"

definition mock_Shutdown :: "'c gomock \<Rightarrow> mock_heap \<Rightarrow> nat \<Rightarrow> ctx \<Rightarrow> 'c \<Rightarrow> err option outcome \<times> 'c" where
  "mock_Shutdown G H m c st =
     obind (Ctrl_Call G (ctrl (H m)) m ''Shutdown'' [any_ctx c] (T_Helper G (ctrl (H m)) st)) ret_error"

definition mock_Start ::
  "'c gomock \<Rightarrow> mock_heap \<Rightarrow> nat \<Rightarrow> ctx \<Rightarrow> QueueConfig list \<Rightarrow> 'c \<Rightarrow> err option outcome \<times> 'c" where
  "mock_Start G H m c qs st =
     obind (Ctrl_Call G (ctrl (H m)) m ''Start'' [any_ctx c, AnyQueues qs] (T_Helper G (ctrl (H m)) st)) ret_error"

section \<open>The recorder\<close>

text \<open>
  Arguments are \<^verbatim>\<open>any\<close>: a test may pass values or matchers. The type is that of the mocked
  method, read by reflection.
\<close>

definition expect_BatchPublish ::
  "'c gomock \<Rightarrow> mock_heap \<Rightarrow> MockRabbitMQKitMockRecorder \<Rightarrow> go_any \<Rightarrow> go_any \<Rightarrow> go_any \<Rightarrow> go_any \<Rightarrow> 'c \<Rightarrow> nat \<times> 'c" where
  "expect_BatchPublish G H mr c exchange routingKey messages st =
     Ctrl_Record G (ctrl (H (mock mr))) (mock mr) ''BatchPublish''
       \<lparr>ins = [TContext, TString, TString, TMessages], variadic = False, outs = [TError]\<rparr>
       [c, exchange, routingKey, messages] (T_Helper G (ctrl (H (mock mr))) st)"

definition expect_DeclareQueues ::
  "'c gomock \<Rightarrow> mock_heap \<Rightarrow> MockRabbitMQKitMockRecorder \<Rightarrow> go_any \<Rightarrow> go_any list \<Rightarrow> 'c \<Rightarrow> nat \<times> 'c" where
  "expect_DeclareQueues G H mr c qs st =
     Ctrl_Record G (ctrl (H (mock mr))) (mock mr) ''DeclareQueues''
       \<lparr>ins = [TContext, TQueueConfigs], variadic = True, outs = [TError]\<rparr>
       ([c] @ qs) (T_Helper G (ctrl (H (mock mr))) st)"

definition expect_Publish ::
  "'c gomock \<Rightarrow> mock_heap \<Rightarrow> MockRabbitMQKitMockRecorder \<Rightarrow> go_any \<Rightarrow> go_any \<Rightarrow> go_any \<Rightarrow> go_any \<Rightarrow> 'c \<Rightarrow> nat \<times> 'c" where
  "expect_Publish G H mr c exchange routingKey msg st =
     Ctrl_Record G (ctrl (H (mock mr))) (mock mr) ''Publish''
       \<lparr>ins = [TContext, TString, TString, TMessage], variadic = False, outs = [TError]\<rparr>
       [c, exchange, routingKey, msg] (T_Helper G (ctrl (H (mock mr))) st)"

definition expect_PublishWithDelayDLXTTL ::
  "'c gomock \<Rightarrow> mock_heap \<Rightarrow> MockRabbitMQKitMockRecorder \<Rightarrow> go_any \<Rightarrow> go_any \<Rightarrow> go_any \<Rightarrow> 'c \<Rightarrow> nat \<times> 'c" where
  "expect_PublishWithDelayDLXTTL G H mr c queueName msg st =
     Ctrl_Record G (ctrl (H (mock mr))) (mock mr) ''PublishWithDelayDLXTTL''
       \<lparr>ins = [TContext, TString, TMessage], variadic = False, outs = [TError]\<rparr>
       [c, queueName, msg] (T_Helper G (ctrl (H (mock mr))) st)"

definition expect_SetLogger ::
  "'c gomock \<Rightarrow> mock_heap \<Rightarrow> MockRabbitMQKitMockRecorder \<Rightarrow> go_any \<Rightarrow> 'c \<Rightarrow> nat \<times> 'c" where
  "expect_SetLogger G H mr l st =
     Ctrl_Record G (ctrl (H (mock mr))) (mock mr) ''SetLogger'' \<lparr>ins = [TLogger], variadic = False, outs = []\<rparr>
       [l] (T_Helper G (ctrl (H (mock mr))) st)"

definition expect_SetQos ::
  "'c gomock \<Rightarrow> mock_heap \<Rightarrow> MockRabbitMQKitMockRecorder \<Rightarrow> go_any \<Rightarrow> go_any \<Rightarrow> go_any \<Rightarrow> go_any \<Rightarrow> 'c \<Rightarrow> nat \<times> 'c" where
  "expect_SetQos G H mr c prefetchCount prefetchSize global st =
     Ctrl_Record G (ctrl (H (mock mr))) (mock mr) ''SetQos''
       \<lparr>ins = [TContext, TInt, TInt, TBool], variadic = False, outs = [TError]\<rparr>
       [c, prefetchCount, prefetchSize, global] (T_Helper G (ctrl (H (mock mr))) st)"

definition expect_Shutdown ::
  "'c gomock \<Rightarrow> mock_heap \<Rightarrow> MockRabbitMQKitMockRecorder \<Rightarrow> go_any \<Rightarrow> 'c \<Rightarrow> nat \<times> 'c" where
  "expect_Shutdown G H mr c st =
     Ctrl_Record G (ctrl (H (mock mr))) (mock mr) ''Shutdown'' \<lparr>ins = [TContext], variadic = False, outs = [TError]\<rparr>
       [c] (T_Helper G (ctrl (H (mock mr))) st)"

definition expect_Start ::
  "'c gomock \<Rightarrow> mock_heap \<Rightarrow> MockRabbitMQKitMockRecorder \<Rightarrow> go_any \<Rightarrow> go_any \<Rightarrow> 'c \<Rightarrow> nat \<times> 'c" where
  "expect_Start G H mr c qs st =
     Ctrl_Record G (ctrl (H (mock mr))) (mock mr) ''Start''
       \<lparr>ins = [TContext, TQueueConfigs], variadic = False, outs = [TError]\<rparr>
       [c, qs] (T_Helper G (ctrl (H (mock mr))) st)"

lemmas mock_defs = mock_BatchPublish_def mock_DeclareQueues_def mock_Publish_def mock_PublishWithDelayDLXTTL_def
  mock_SetLogger_def mock_SetQos_def mock_Shutdown_def mock_Start_def

lemmas expect_defs = expect_BatchPublish_def expect_DeclareQueues_def expect_Publish_def
  expect_PublishWithDelayDLXTTL_def expect_SetLogger_def expect_SetQos_def expect_Shutdown_def expect_Start_def

section \<open>The interface\<close>

text \<open>The methods of \<^verbatim>\<open>RabbitMQKit\<close> with their types, as \<^verbatim>\<open>rabbitmqkit.go\<close> declares them.\<close>

definition RabbitMQKit :: "(string \<times> method_type) list" where
  "RabbitMQKit =
     [(''DeclareQueues'', \<lparr>ins = [TContext, TQueueConfigs], variadic = True, outs = [TError]\<rparr>),
      (''Publish'', \<lparr>ins = [TContext, TString, TString, TMessage], variadic = False, outs = [TError]\<rparr>),
      (''BatchPublish'', \<lparr>ins = [TContext, TString, TString, TMessages], variadic = False, outs = [TError]\<rparr>),
      (''PublishWithDelayDLXTTL'', \<lparr>ins = [TContext, TString, TMessage], variadic = False, outs = [TError]\<rparr>),
      (''SetQos'', \<lparr>ins = [TContext, TInt, TInt, TBool], variadic = False, outs = [TError]\<rparr>),
      (''Start'', \<lparr>ins = [TContext, TQueueConfigs], variadic = False, outs = [TError]\<rparr>),
      (''Shutdown'', \<lparr>ins = [TContext], variadic = False, outs = [TError]\<rparr>),
      (''SetLogger'', \<lparr>ins = [TLogger], variadic = False, outs = []\<rparr>)]"

text \<open>
  Which types a value can have. Nil fits the interface types; the element type stands for the
  arguments a variadic slice is spread into.
\<close>

fun has_type :: "go_any \<Rightarrow> go_type \<Rightarrow> bool" where
  "has_type AnyNil t = (t \<in> {TContext, TLogger, TError})"
| "has_type (AnyCtx _) t = (t = TContext)"
| "has_type (AnyString _) t = (t = TString)"
| "has_type (AnyInt _) t = (t = TInt)"
| "has_type (AnyBool _) t = (t = TBool)"
| "has_type (AnyMessage _) t = (t = TMessage)"
| "has_type (AnyMessages _) t = (t = TMessages)"
| "has_type (AnyQueue _) t = (t = TQueueConfig)"
| "has_type (AnyQueues _) t = (t = TQueueConfigs)"
| "has_type (AnyLogger _) t = (t = TLogger)"
| "has_type (AnyError _) t = (t = TError)"

fun elem_type :: "go_type \<Rightarrow> go_type" where
  "elem_type TQueueConfigs = TQueueConfig"
| "elem_type TMessages = TMessage"
| "elem_type t = t"

definition conforms :: "method_type \<Rightarrow> go_any list \<Rightarrow> bool" where
  "conforms t args =
     (if variadic t
      then length (ins t) - 1 \<le> length args
        \<and> list_all2 has_type (take (length (ins t) - 1) args) (butlast (ins t))
        \<and> list_all (\<lambda>v. has_type v (elem_type (last (ins t)))) (drop (length (ins t) - 1) args)
      else list_all2 has_type args (ins t))"

text \<open>A call of the interface, made on the mock or announced to its recorder.\<close>

datatype kit_call =
    KDeclareQueues ctx "QueueConfig list"
  | KPublish ctx string string "nat option"
  | KBatchPublish ctx string string "nat option list"
  | KPublishWithDelayDLXTTL ctx string "nat option"
  | KSetQos ctx int int bool
  | KStart ctx "QueueConfig list"
  | KShutdown ctx
  | KSetLogger "nat option"

fun kit_on_mock :: "'c gomock \<Rightarrow> mock_heap \<Rightarrow> nat \<Rightarrow> kit_call \<Rightarrow> 'c \<Rightarrow> err option outcome \<times> 'c" where
  "kit_on_mock G H m (KDeclareQueues c qs) st = mock_DeclareQueues G H m c qs st"
| "kit_on_mock G H m (KPublish c x k msg) st = mock_Publish G H m c x k msg st"
| "kit_on_mock G H m (KBatchPublish c x k msgs) st = mock_BatchPublish G H m c x k msgs st"
| "kit_on_mock G H m (KPublishWithDelayDLXTTL c q msg) st = mock_PublishWithDelayDLXTTL G H m c q msg st"
| "kit_on_mock G H m (KSetQos c n z g) st = mock_SetQos G H m c n z g st"
| "kit_on_mock G H m (KStart c qs) st = mock_Start G H m c qs st"
| "kit_on_mock G H m (KShutdown c) st = mock_Shutdown G H m c st"
| "kit_on_mock G H m (KSetLogger l) st = obind (mock_SetLogger G H m l st) (\<lambda>_ st1. (Returns None, st1))"

fun kit_expected :: "'c gomock \<Rightarrow> mock_heap \<Rightarrow> MockRabbitMQKitMockRecorder \<Rightarrow> kit_call \<Rightarrow> 'c \<Rightarrow> nat \<times> 'c" where
  "kit_expected G H r (KDeclareQueues c qs) st = expect_DeclareQueues G H r (any_ctx c) (map AnyQueue qs) st"
| "kit_expected G H r (KPublish c x k msg) st =
     expect_Publish G H r (any_ctx c) (AnyString x) (AnyString k) (AnyMessage msg) st"
| "kit_expected G H r (KBatchPublish c x k msgs) st =
     expect_BatchPublish G H r (any_ctx c) (AnyString x) (AnyString k) (AnyMessages msgs) st"
| "kit_expected G H r (KPublishWithDelayDLXTTL c q msg) st =
     expect_PublishWithDelayDLXTTL G H r (any_ctx c) (AnyString q) (AnyMessage msg) st"
| "kit_expected G H r (KSetQos c n z g) st = expect_SetQos G H r (any_ctx c) (AnyInt n) (AnyInt z) (AnyBool g) st"
| "kit_expected G H r (KStart c qs) st = expect_Start G H r (any_ctx c) (AnyQueues qs) st"
| "kit_expected G H r (KShutdown c) st = expect_Shutdown G H r (any_ctx c) st"
| "kit_expected G H r (KSetLogger l) st = expect_SetLogger G H r (any_logger l) st"

text \<open>What such a call is: a method of the interface and the arguments, variadic ones spread.\<close>

fun kit_name :: "kit_call \<Rightarrow> string" where
  "kit_name (KDeclareQueues c qs) = ''DeclareQueues''"
| "kit_name (KPublish c x k msg) = ''Publish''"
| "kit_name (KBatchPublish c x k msgs) = ''BatchPublish''"
| "kit_name (KPublishWithDelayDLXTTL c q msg) = ''PublishWithDelayDLXTTL''"
| "kit_name (KSetQos c n z g) = ''SetQos''"
| "kit_name (KStart c qs) = ''Start''"
| "kit_name (KShutdown c) = ''Shutdown''"
| "kit_name (KSetLogger l) = ''SetLogger''"

fun kit_args :: "kit_call \<Rightarrow> go_any list" where
  "kit_args (KDeclareQueues c qs) = any_ctx c # map AnyQueue qs"
| "kit_args (KPublish c x k msg) = [any_ctx c, AnyString x, AnyString k, AnyMessage msg]"
| "kit_args (KBatchPublish c x k msgs) = [any_ctx c, AnyString x, AnyString k, AnyMessages msgs]"
| "kit_args (KPublishWithDelayDLXTTL c q msg) = [any_ctx c, AnyString q, AnyMessage msg]"
| "kit_args (KSetQos c n z g) = [any_ctx c, AnyInt n, AnyInt z, AnyBool g]"
| "kit_args (KStart c qs) = [any_ctx c, AnyQueues qs]"
| "kit_args (KShutdown c) = [any_ctx c]"
| "kit_args (KSetLogger l) = [any_logger l]"

definition kit_type :: "kit_call \<Rightarrow> method_type" where
  "kit_type op = the (map_of RabbitMQKit (kit_name op))"



section \<open>Lemmas\<close>

lemma push_queues_eq: "push_queues vs qs = vs @ map AnyQueue qs"
  by (induction qs arbitrary: vs) auto

lemma any_ctx_type [simp]: "has_type (any_ctx c) TContext"
  by (cases c) simp_all

lemma any_logger_type [simp]: "has_type (any_logger l) TLogger"
  by (cases l) simp_all

lemma new_mock [simp]:
  "NewMockRabbitMQKit a ctl H a = \<lparr>ctrl = ctl, recorder = Some \<lparr>mock = a\<rparr>\<rparr>"
  "EXPECT (NewMockRabbitMQKit a ctl H) a = Some \<lparr>mock = a\<rparr>"
  by (simp_all add: NewMockRabbitMQKit_def EXPECT_def)


lemma obind_assoc: "obind (obind r f) g = obind r (\<lambda>x st. obind (f x st) g)"
  by (cases r; cases "fst r") auto

lemma kit_in_interface: "(kit_name op, kit_type op) \<in> set RabbitMQKit"
  by (cases op) (simp_all add: kit_type_def RabbitMQKit_def)

lemma kit_args_conform: "conforms (kit_type op) (kit_args op)"
  by (cases op) (simp_all add: kit_type_def RabbitMQKit_def conforms_def list_all_iff)

lemma kit_expected_eq:
  "ctrl (H a) = ctl \<Longrightarrow>
     kit_expected G H \<lparr>mock = a\<rparr> op st = Ctrl_Record G ctl a (kit_name op) (kit_type op) (kit_args op) (T_Helper G ctl st)"
  by (cases op) (simp_all add: expect_defs kit_type_def RabbitMQKit_def)

lemma kit_on_mock_eq:
  "ctrl (H a) = ctl \<Longrightarrow>
     kit_on_mock G H a op st = obind (Ctrl_Call G ctl a (kit_name op) (kit_args op) (T_Helper G ctl st))
       (if outs (kit_type op) = [] then (\<lambda>_ st1. (Returns None, st1)) else ret_error)"
  by (cases op) (simp_all add: mock_defs kit_type_def RabbitMQKit_def push_queues_eq obind_assoc)

section \<open>Properties\<close>

text \<open>
  The mock and its recorder agree. For every method of \<^verbatim>\<open>RabbitMQKit\<close> the call a test announces
  with \<^verbatim>\<open>EXPECT()\<close> on a new mock and the call the code under test then makes reach the same
  controller with the same receiver, the same method name and the same arguments, variadic
  queues spread in order; name, type and arguments are those the interface declares.
\<close>

theorem mock_agrees_with_recorder:
  "\<exists>r. EXPECT (NewMockRabbitMQKit a ctl H) a = Some r
     \<and> (kit_name op, kit_type op) \<in> set RabbitMQKit \<and> conforms (kit_type op) (kit_args op)
     \<and> (\<forall>G st. kit_expected G (NewMockRabbitMQKit a ctl H) r op st
           = Ctrl_Record G ctl a (kit_name op) (kit_type op) (kit_args op) (T_Helper G ctl st))
     \<and> (\<forall>G st. kit_on_mock G (NewMockRabbitMQKit a ctl H) a op st
           = obind (Ctrl_Call G ctl a (kit_name op) (kit_args op) (T_Helper G ctl st))
               (if outs (kit_type op) = [] then (\<lambda>_ st1. (Returns None, st1)) else ret_error))"
  by (simp add: kit_in_interface kit_args_conform kit_expected_eq kit_on_mock_eq)




end
