(* ===== verification/Spec2Isabelle.thy ===== *)
theory Spec2Isabelle
  imports Messages Trace_Carrier Metrics Publisher_Pool Pool_Concurrency Pool_Wind_Down Sdk_State Topology Publish
    Consume Metric_Counts Connection Lifecycle Reconnect Connection_Races Sdk_Goroutines Sdk_Locks Wind_Down
    Sdk_Run Examples Mock_Kit
begin

text \<open>
  A verification of \<^verbatim>\<open>huma\<close>, a Go SDK over the RabbitMQ client library \<^verbatim>\<open>amqp091-go\<close>.

  \<^bold>\<open>The program.\<close> An SDK value (\<^verbatim>\<open>types.go\<close>) holds one AMQP connection, one channel for
  declaring and consuming, and a pool of channels for publishing (\<^verbatim>\<open>publisher_pool.go\<close>).
  \<^verbatim>\<open>NewSDK\<close> dials, builds the pool, registers the metrics (\<^verbatim>\<open>metrics.go\<close>) and starts a monitor.
  \<^verbatim>\<open>DeclareQueues\<close> creates queues, dead letter queues and delay queues; \<^verbatim>\<open>Start\<close> starts workers
  that hand deliveries to handlers, settle them and republish failed ones with a retry counter;
  \<^verbatim>\<open>Publish\<close> and its variants send messages (\<^verbatim>\<open>message.go\<close>) with publisher confirms and trace
  headers (\<^verbatim>\<open>trace.go\<close>). When the connection is lost the monitor starts \<^verbatim>\<open>reconnect\<close>
  (\<^verbatim>\<open>reconnect.go\<close>), which replaces connection, channel and pool and replays what was declared
  and started. \<^verbatim>\<open>Shutdown\<close> cancels, waits for the goroutines and closes everything.

  \<^bold>\<open>The environment.\<close> The client library, Prometheus, OpenTelemetry, the network, the clock and
  the handlers of the user are not part of the repository: they are the fields of a record \<open>L\<close>
  (theory \<open>Environment\<close>). Each call asks \<open>L\<close> with the history of all calls so far and appends
  itself with its answer, so \<open>L\<close> can answer differently every time. Theorems hold for every
  \<open>L\<close> unless they name what they assume; they speak about the history, for instance about which
  channels it leaves open (\<open>live_chans\<close>) or which messages it sent. \<open>calm_lib\<close> is a concrete
  environment in which every call succeeds; the witnesses use it. A call of the client library
  always gets an answer; a context need not end (\<open>ctxEnds\<close>), so that a wait on one can last for ever.

  \<^bold>\<open>How a call ends.\<close> \<open>outcome\<close> is \<open>Returns\<close>, \<open>Panics\<close> or \<open>Blocks\<close> (a channel operation or
  a wait that can never proceed). Errors are values of \<open>err\<close>, with the texts, wrapping and joining of the
  source. Machine integers are \<open>int\<close> with \<open>wrap32\<close> and \<open>wrap64\<close> where the source can
  overflow or convert, and \<open>8 word\<close> for bytes.

  \<^bold>\<open>Theories.\<close>
  \<^item> \<open>Go_Prelude\<close>: integers, errors, buffered channels, outcomes, and \<open>safety_system\<close> and
    \<open>winding_system\<close>, the locales of the interleaving models. \<open>Huma_Types\<close>: the data of \<^verbatim>\<open>types.go\<close>, and the tables,
    deliveries and publishings of the client library.
  \<^item> \<open>Messages\<close>: \<^verbatim>\<open>message.go\<close>. \<open>Trace_Carrier\<close>: \<^verbatim>\<open>trace.go\<close>. \<open>Metrics\<close>: \<^verbatim>\<open>metrics.go\<close>, with a
    locale for what the SDK relies on of any metrics sink.
  \<^item> \<open>Publisher_Pool\<close>: \<^verbatim>\<open>publisher_pool.go\<close> call by call, refined against an abstract bounded pool
    and against a locale of channel pools. \<open>Pool_Concurrency\<close>: \<^verbatim>\<open>get\<close>, \<^verbatim>\<open>put\<close> and \<^verbatim>\<open>close\<close> of
    any number of goroutines, interleaved at every lock and channel operation. \<open>Pool_Wind_Down\<close>:
    that a closed pool comes to rest.
  \<^item> \<open>Sdk_State\<close>: the SDK struct. \<open>Topology\<close>: validation, \<^verbatim>\<open>DeclareQueues\<close> and \<^verbatim>\<open>SetQos\<close>, refined
    against the list of declarations a configuration asks for. \<open>Publish\<close>: \<^verbatim>\<open>publishAMQP\<close>,
    \<^verbatim>\<open>Publish\<close>, \<^verbatim>\<open>BatchPublish\<close>, \<^verbatim>\<open>PublishWithDelayDLXTTL\<close>. \<open>Consume\<close>: \<^verbatim>\<open>Start\<close>, the worker loop,
    \<^verbatim>\<open>processDelivery\<close> and the retry logic (all \<^verbatim>\<open>rabbitmqsdk.go\<close>). \<open>Metric_Counts\<close>: what the
    counters of workers and publishers say, against what the history shows.
  \<^item> \<open>Connection\<close>: the connection URL, \<^verbatim>\<open>connectionState\<close> and dialling. \<open>Lifecycle\<close>: \<^verbatim>\<open>NewSDK\<close> and
    \<^verbatim>\<open>Shutdown\<close>. \<open>Reconnect\<close>: \<^verbatim>\<open>reconnect.go\<close>. \<open>Connection_Races\<close>: monitors, reconnects and the
    flag between them, and a dial against \<^verbatim>\<open>Shutdown\<close>, as interleaving models.
  \<^item> \<open>Sdk_Goroutines\<close>: the goroutines of the application and of the SDK over everything they share
    (\<^verbatim>\<open>SDK.mu\<close>, \<^verbatim>\<open>publisherMu\<close>, the wait group, the context, the flags, the current pool, the
    connection), one lock operation at a time. \<open>Sdk_Locks\<close>: what the locks protect.
    \<open>Wind_Down\<close>: when they cannot deadlock and when \<^verbatim>\<open>Shutdown\<close> brings everything to an end.
  \<^item> \<open>Sdk_Run\<close>: the components together. A run is any sequence of operations of the interface
    \<^verbatim>\<open>RabbitMQKit\<close> and of the goroutines of the SDK; one invariant holds along every run.
    \<open>Examples\<close>: the programs under \<^verbatim>\<open>examples/\<close> as clients, which are such runs, with the HTTP
    server and the tracer they keep beside the SDK.
  \<^item> \<open>Mock_Kit\<close>: \<^verbatim>\<open>mock.go\<close>, the mock of the interface and its recorder, over any controller of
    \<^verbatim>\<open>gomock\<close>.

  \<^bold>\<open>Interfaces.\<close> \<open>channel_pool\<close> and its extension \<open>accounted_pool\<close> say what a publisher relies on
  of a pool, \<open>metrics_sink\<close> what the SDK relies on of its metrics, \<open>text_map_carrier\<close> what a
  propagator relies on of a carrier, \<open>safety_system\<close> what an interleaving model has to show,
  \<open>winding_system\<close> what one has to show that comes to rest, \<open>ledger\<close> what an operation does to a lock, a counter or a resource it shares; each is interpreted on the definitions that model the code.

  \<^bold>\<open>What the theorems show.\<close> Every delivery is settled exactly once and no message is dropped
  without a confirmed copy, whose counter is one higher; along the copies the SDK really sends, retries stop after the configured number. \<^verbatim>\<open>Publish\<close> succeeds exactly
  when the broker confirmed, and sends what the caller put into the message. The counters of the metrics add up to what was received, settled and
  confirmed. The pool never exceeds its maximum, never panics and leaks no
  channel, alone and under every interleaving. The declared topology is the specified one and
  wires dead letter and delay queues back correctly. Creation is all or nothing; a \<^verbatim>\<open>Shutdown\<close>
  releases everything once, or gives up when its context ends first, or, when the goroutines never
  finish and its context never ends, waits for ever; a successful reconnect replays everything the user had set up, with
  the same declarations in the same order; at most one reconnect runs at a time. Along every
  run of the whole SDK nothing leaks, no call panics, and none but such a \<^verbatim>\<open>Shutdown\<close> blocks for ever; a reconnect
  of an SDK that was not shut down succeeds once the broker is back. Under every interleaving of callers, workers, monitors and
  reconnects the locks protect the pool and the connection, at most one of each is open, and what a shutdown
  closed stays closed. As long as no handler is inside a \<^verbatim>\<open>Shutdown\<close> whose context never ends,
  nobody deadlocks and after cancellation everything ends within a bounded number of
  steps, whatever the library answers; a \<^verbatim>\<open>Shutdown\<close> whose context does not end first has then
  closed everything. A closed pool comes to rest and leaves no channel open. The example programs,
  once they get their signal, clean up after themselves unless declaring or starting failed, and an
  order the dead-letter example cannot process ends, after its
  configured retries, in its dead-letter queue. The mock answers what a test programmed, for calls that
  pass no handler. Some theorems state defects: a lost reconnect, a truncated pool maximum,
  a failed start that is remembered, a delay of zero, a handler that shuts the SDK down and waits
  for itself, a worker that outlives the shutdown.

  \<^bold>\<open>Bounds.\<close> The worker loop and the reconnect loop may run for ever, so they take a number of
  rounds and report \<open>Working\<close> or \<open>Reconnecting\<close> when it is used up; their invariants hold for
  every number of rounds, and the theorem on recovery in \<open>Sdk_Run\<close> shows that a finite number is enough once
  the broker is back. All other loops are structural or have a proved measure; the interleaved
  goroutines have one once the context is done (\<open>total_load\<close>). Theorems that rest on \<^verbatim>\<open>NewSDK\<close>
  bound the configured pool size by 2 to the 30 and the maximal one by 2 to the 31: beyond that the pool
  truncates them to 32 bits, and making its channel can fail.

  \<^bold>\<open>Not modelled.\<close> Log output has no effect on the state. Struct tags,
  help texts, histogram buckets and the conversion of durations to floating point seconds are
  left out. A hook or handler that changes the maps it is given in place is outside the model.
  The call-by-call theories, and so the runs of \<open>Sdk_Run\<close>, execute one operation at a time; the
  mutexes, the wait group and the atomic flag appear in the interleaving theories, which in turn
  keep of the data only what the goroutines share. There a pool operation is one step of the SDK
  (\<open>Pool_Concurrency\<close> takes it apart), and so is what happens between two lock operations; the interruption of
  the network connection by \<^verbatim>\<open>Shutdown\<close> is in \<open>Connection_Races\<close> instead. Of \<^verbatim>\<open>net/url\<close>, the parsing of a
  URL is modelled up to the host, IP literals in brackets excepted. Of the
  example programs the routes and timeouts of the HTTP server and the span inside the tracing
  handler are left out. The controller of \<^verbatim>\<open>gomock\<close> is a parameter of the mock.
\<close>

end
